(* ===== verification/L2_Prelude.thy ===== *)
theory L2_Prelude
  imports Main "HOL-Library.Word"
begin

unbundle bit_operations_syntax

text \<open>
  What every component of the login server shares: names for Go's machine types, the error
  values the packages declare, the outcome of a Go function (a value, an error return or a
  runtime panic) with its sequencing, little-endian byte encodings of words, and the generic
  lemmas on lists and words that carry the component proofs.

  Integers of the source keep their width: \<open>int32\<close> and \<open>uint32\<close> are both \<open>32 word\<close>, read with
  \<open>sint\<close> where the code compares signed values and with \<open>unat\<close> where it compares unsigned ones.
  Lengths and positions, which are \<open>int\<close> in Go but bounded by the buffers they index, are \<open>nat\<close>
  unless the source passes a possibly negative one. Points in time are integers counting
  nanoseconds since the Unix epoch.
\<close>

type_synonym byte = "8 word"
type_synonym uint16 = "16 word"
type_synonym int16 = "16 word"
type_synonym uint32 = "32 word"
type_synonym int32 = "32 word"
type_synonym uint64 = "64 word"
type_synonym int64 = "64 word"
type_synonym gostring = "byte list"
type_synonym gotime = int

named_theorems reader_simps \<open>how the packet reader moves over its buffer\<close>
named_theorems writer_simps \<open>what each writer operation appends to the visible buffer\<close>
named_theorems inv_intros \<open>preservation of the component invariants\<close>

section \<open>Errors and outcomes\<close>

text \<open>
  One constructor per error value of the sources: the packet reader's three messages, the
  sentinel errors of the packet handlers and of the authenticator, the two errors of the RSA
  key pool, and the errors that come from outside the program (the database, bcrypt, the
  random source, the network connection).
\<close>

datatype err =
    InvalidSize | OutOfBounds | MissingTerminator
  | ErrUnknownOpcode | ErrUnauthorizedState
  | ErrPayloadTooLarge | ErrExceededBatchLimit | ErrMalformedPacketSize
  | ErrAccountNotFound | ErrInvalidPassword | ErrAccountBanned | ErrIPBanned | ErrAlreadyLoggedIn
  | InvalidCiphertextSize | PoolNotInitialized
  | ErrNoRows | ErrDatabase | ErrBcrypt | ErrRandom | ErrConn

datatype 'a outcome = Ok 'a | Error err | Panic

fun bind_outcome :: "'a outcome \<Rightarrow> ('a \<Rightarrow> 'b outcome) \<Rightarrow> 'b outcome" where
  "bind_outcome (Ok a) f = f a"
| "bind_outcome (Error e) f = Error e"
| "bind_outcome Panic f = Panic"

lemma bind_outcome_Ok_iff:
  "bind_outcome m f = Ok b \<longleftrightarrow> (\<exists>a. m = Ok a \<and> f a = Ok b)"
  by (cases m) auto

lemma bind_outcome_Panic_iff:
  "bind_outcome m f = Panic \<longleftrightarrow> m = Panic \<or> (\<exists>a. m = Ok a \<and> f a = Panic)"
  by (cases m) auto

lemma bind_outcome_cong [fundef_cong]:
  "m = m' \<Longrightarrow> (\<And>a. m' = Ok a \<Longrightarrow> f a = g a) \<Longrightarrow> bind_outcome m f = bind_outcome m' g"
  by (cases m') auto

text \<open>What holds of the value when there is one: the rules by which handlers are verified.\<close>

definition post :: "'a outcome \<Rightarrow> ('a \<Rightarrow> bool) \<Rightarrow> bool" where
  "post m P \<longleftrightarrow> (\<forall>x. m = Ok x \<longrightarrow> P x)"

lemma post_simps [simp]:
  "post (Ok x) P = P x" "post (Error e) P" "post Panic P"
  "post (bind_outcome m f) P = post m (\<lambda>x. post (f x) P)"
  by (simp_all add: post_def bind_outcome_Ok_iff) blast

lemma post_mono: "post m P \<Longrightarrow> (\<And>x. P x \<Longrightarrow> Q x) \<Longrightarrow> post m Q"
  by (simp add: post_def)

lemma postD: "post m P \<Longrightarrow> m = Ok x \<Longrightarrow> P x"
  by (simp add: post_def)

lemma post_True [simp]: "post m (\<lambda>_. True)"
  by (simp add: post_def)

section \<open>Little-endian encoding\<close>

text \<open>
  \<open>encoding/binary\<close>'s \<open>LittleEndian.PutUintN\<close> and \<open>LittleEndian.UintN\<close>, for any width: the
  least significant byte first.
\<close>

fun le_enc :: "nat \<Rightarrow> 'a::len word \<Rightarrow> byte list" where
  "le_enc 0 w = []"
| "le_enc (Suc n) w = ucast w # le_enc n (drop_bit 8 w)"

fun le_dec :: "byte list \<Rightarrow> 'a::len word" where
  "le_dec [] = 0"
| "le_dec (b # bs) = ucast b OR push_bit 8 (le_dec bs)"

lemma length_le_enc [simp]: "length (le_enc n w) = n"
  by (induction n arbitrary: w) auto

lemma le_dec_le_enc_take: "le_dec (le_enc n w) = take_bit (8 * n) w"
proof (induction n arbitrary: w)
  case 0
  then show ?case by simp
next
  case (Suc n)
  show ?case
    by (rule bit_word_eqI) (auto simp: Suc bit_simps split: if_splits)
qed

lemma le_dec_le_enc [simp]:
  "LENGTH('a) \<le> 8 * n \<Longrightarrow> le_dec (le_enc n w) = (w :: 'a::len word)"
  by (simp add: le_dec_le_enc_take take_bit_word_eq_self)

lemma bit_le_dec_beyond:
  "8 * length bs \<le> n \<Longrightarrow> \<not> bit (le_dec bs :: 'a::len word) n"
  by (induction bs arbitrary: n) (auto simp: bit_simps dest: bit_imp_le_length)

lemma le_enc_le_dec:
  "8 * length bs \<le> LENGTH('a) \<Longrightarrow> le_enc (length bs) (le_dec bs :: 'a::len word) = bs"
proof (induction bs)
  case Nil
  then show ?case by simp
next
  case (Cons b bs)
  have low: "ucast (ucast b OR push_bit 8 (le_dec bs) :: 'a word) = b"
    using Cons.prems by (intro bit_word_eqI) (auto simp: bit_simps)
  have high: "drop_bit 8 (ucast b OR push_bit 8 (le_dec bs) :: 'a word) = le_dec bs"
    using Cons.prems bit_le_dec_beyond [of bs, where 'a = 'a]
    by (intro bit_word_eqI) (auto simp: bit_simps not_less dest: bit_imp_le_length)
  show ?case
    using Cons by (simp add: low high del: drop_bit_or)
qed

lemma le_enc_inject:
  "LENGTH('a) \<le> 8 * n \<Longrightarrow> le_enc n v = le_enc n w \<longleftrightarrow> v = (w :: 'a::len word)"
  by (metis le_dec_le_enc)

section \<open>Lists\<close>

text \<open>Replacing the bytes from a position on, in place; what falls beyond the end is dropped.\<close>

fun put_at :: "'a list \<Rightarrow> nat \<Rightarrow> 'a list \<Rightarrow> 'a list" where
  "put_at xs i [] = xs"
| "put_at xs i (y # ys) = put_at (xs[i := y]) (Suc i) ys"

lemma length_put_at [simp]: "length (put_at xs i ys) = length xs"
  by (induction ys arbitrary: xs i) auto

lemma put_at_conv:
  "i + length ys \<le> length xs \<Longrightarrow> put_at xs i ys = take i xs @ ys @ drop (i + length ys) xs"
proof (induction ys arbitrary: xs i)
  case Nil
  then show ?case by simp
next
  case (Cons y ys)
  then have "put_at (xs[i := y]) (Suc i) ys
      = take (Suc i) (xs[i := y]) @ ys @ drop (Suc i + length ys) (xs[i := y])"
    by simp
  moreover have "take (Suc i) (xs[i := y]) = take i xs @ [y]"
    using Cons.prems by (simp add: take_Suc_conv_app_nth)
  ultimately show ?case by simp
qed

lemma put_at_append_right [simp]:
  "put_at (xs @ ys) (length xs + i) zs = xs @ put_at ys i zs"
  by (induction zs arbitrary: ys i) (simp_all add: list_update_append flip: add_Suc_right)

lemma put_at_append_left:
  "i + length zs \<le> length xs \<Longrightarrow> put_at (xs @ ys) i zs = put_at xs i zs @ ys"
  by (induction zs arbitrary: xs i) (simp_all add: list_update_append)

lemma put_at_nth_other:
  "j < i \<or> i + length ys \<le> j \<Longrightarrow> put_at xs i ys ! j = xs ! j"
  by (induction ys arbitrary: xs i) auto

lemma take_append_eq: "length xs = n \<Longrightarrow> take n (xs @ ys) = xs"
  by simp

lemma drop_append_eq: "length xs = n \<Longrightarrow> drop n (xs @ ys) = ys"
  by simp

text \<open>Filtering the entries of a Go map in a range loop that deletes: order does not matter.\<close>

definition map_filter_entries :: "('k \<Rightarrow> 'v \<Rightarrow> bool) \<Rightarrow> ('k \<rightharpoonup> 'v) \<Rightarrow> ('k \<rightharpoonup> 'v)" where
  "map_filter_entries P m = (\<lambda>k. case m k of None \<Rightarrow> None | Some v \<Rightarrow> if P k v then Some v else None)"

lemma map_filter_entries_Some [simp]:
  "map_filter_entries P m k = Some v \<longleftrightarrow> m k = Some v \<and> P k v"
  by (auto simp: map_filter_entries_def split: option.splits)

lemma map_filter_entries_None:
  "map_filter_entries P m k = None \<longleftrightarrow> (\<forall>v. m k = Some v \<longrightarrow> \<not> P k v)"
  by (auto simp: map_filter_entries_def split: option.splits)

lemma map_filter_entries_empty [simp]: "map_filter_entries P Map.empty = Map.empty"
  by (simp add: map_filter_entries_def)

section \<open>Words\<close>

lemma unat_and_mask_less:
  "0 < m \<Longrightarrow> unat (w AND of_nat (m - 1) :: 'a::len word) < m"
proof -
  assume "0 < m"
  have "unat (w AND of_nat (m - 1)) \<le> unat (of_nat (m - 1) :: 'a word)"
    by (metis word_and_le1 word_le_nat_alt)
  also have "\<dots> \<le> m - 1"
    by (simp add: unat_of_nat)
  finally show ?thesis using \<open>0 < m\<close> by simp
qed

lemma xor_zero_iff: "(a XOR b :: 'a::len word) = 0 \<longleftrightarrow> a = b"
  by (metis word_bw_lcs(3) xor.right_neutral xor_self_eq)

lemma xor_cancel [simp]:
  "(a XOR b) XOR b = (a :: 'a::len word)" "b XOR (b XOR a) = a" "(b XOR a) XOR b = a"
  by (simp_all add: xor.assoc xor.commute xor.left_commute)

end
