(* ===== verification/Go_Strings.thy ===== *)
theory Go_Strings
  imports L2_Prelude
begin

text \<open>
  Go strings are byte sequences. This theory models what the packet code uses of the language
  and of its standard library: ranging over a string (UTF-8 decoding with U+FFFD for every byte
  that starts no well-formed sequence), the conversion of runes to a string (UTF-8 encoding),
  \<open>utf16.EncodeRune\<close> and \<open>utf16.Decode\<close>, \<open>strings.ToLower\<close> and \<open>strings.EqualFold\<close>. The
  Unicode case tables of the last two are parameters; their behaviour on ASCII, which is what
  account names of the protocol are made of, is fixed.

  Runes are natural numbers; \<open>scalar\<close> singles out the Unicode scalar values. The round trips at
  the end say that both encodings are lossless on them.
\<close>

type_synonym rune = nat

definition replacement_char :: rune where
  "replacement_char = 0xFFFD"

definition scalar :: "rune \<Rightarrow> bool" where
  "scalar r \<longleftrightarrow> r < 0xD800 \<or> (0xE000 \<le> r \<and> r \<le> 0x10FFFF)"

definition lit :: "string \<Rightarrow> gostring" where
  "lit s = map (\<lambda>c. of_nat (of_char c)) s"

section \<open>UTF-8\<close>

definition utf8_enc1 :: "rune \<Rightarrow> byte list" where
  "utf8_enc1 r0 = (let r = (if scalar r0 then r0 else replacement_char) in
     if r < 0x80 then [of_nat r]
     else if r < 0x800 then [of_nat (0xC0 + r div 64), of_nat (0x80 + r mod 64)]
     else if r < 0x10000 then
       [of_nat (0xE0 + r div 4096), of_nat (0x80 + r div 64 mod 64), of_nat (0x80 + r mod 64)]
     else
       [of_nat (0xF0 + r div 262144), of_nat (0x80 + r div 4096 mod 64),
        of_nat (0x80 + r div 64 mod 64), of_nat (0x80 + r mod 64)])"

definition utf8_enc :: "rune list \<Rightarrow> gostring" where
  "utf8_enc rs = concat (map utf8_enc1 rs)"

definition between :: "nat \<Rightarrow> byte \<Rightarrow> nat \<Rightarrow> bool" where
  "between lo b hi \<longleftrightarrow> lo \<le> unat b \<and> unat b \<le> hi"

text \<open>
  The rune that starts with byte \<open>b\<close>, and how many of the following bytes belong to it. A lead
  byte restricts the range of the second byte (no overlong forms, no surrogates, nothing beyond
  U+10FFFF); whatever does not match is U+FFFD and consumes the one byte.
\<close>

definition second_range :: "nat \<Rightarrow> nat \<times> nat" where
  "second_range n =
     (if n = 0xE0 then (0xA0, 0xBF) else if n = 0xED then (0x80, 0x9F)
      else if n = 0xF0 then (0x90, 0xBF) else if n = 0xF4 then (0x80, 0x8F)
      else (0x80, 0xBF))"

definition decode_rune :: "byte \<Rightarrow> byte list \<Rightarrow> rune \<times> nat" where
  "decode_rune b bs = (let n = unat b; (lo, hi) = second_range n in
     if n < 0x80 then (n, 0)
     else if 0xC2 \<le> n \<and> n \<le> 0xDF then
       (case bs of
          b1 # _ \<Rightarrow> if between lo b1 hi then (n mod 32 * 64 + unat b1 mod 64, 1)
                    else (replacement_char, 0)
        | _ \<Rightarrow> (replacement_char, 0))
     else if 0xE0 \<le> n \<and> n \<le> 0xEF then
       (case bs of
          b1 # b2 # _ \<Rightarrow>
            if between lo b1 hi \<and> between 0x80 b2 0xBF
            then (n mod 16 * 4096 + unat b1 mod 64 * 64 + unat b2 mod 64, 2)
            else (replacement_char, 0)
        | _ \<Rightarrow> (replacement_char, 0))
     else if 0xF0 \<le> n \<and> n \<le> 0xF4 then
       (case bs of
          b1 # b2 # b3 # _ \<Rightarrow>
            if between lo b1 hi \<and> between 0x80 b2 0xBF \<and> between 0x80 b3 0xBF
            then (n mod 8 * 262144 + unat b1 mod 64 * 4096 + unat b2 mod 64 * 64 + unat b3 mod 64, 3)
            else (replacement_char, 0)
        | _ \<Rightarrow> (replacement_char, 0))
     else (replacement_char, 0))"

fun utf8_runes :: "gostring \<Rightarrow> rune list" where
  "utf8_runes [] = []"
| "utf8_runes (b # bs) = (case decode_rune b bs of (r, k) \<Rightarrow> r # utf8_runes (drop k bs))"

lemma unat_byte [simp]: "n < 256 \<Longrightarrow> unat (of_nat n :: byte) = n"
  by (simp add: unat_of_nat)

lemma unat_byte_lt [simp]: "unat (b :: byte) < 256"
  using unsigned_less [of b] by simp

lemma mod_offset: "k mod m = 0 \<Longrightarrow> q < m \<Longrightarrow> (k + q) mod m = (q :: nat)"
  by (metis add_cancel_right_left mod_add_eq mod_less)

lemma base64_digits:
  fixes r :: nat
  shows "r div 64 * 64 + r mod 64 = r"
    and "r div 4096 * 4096 + r div 64 mod 64 * 64 + r mod 64 = r"
    and "r div 262144 * 262144 + r div 4096 mod 64 * 4096 + r div 64 mod 64 * 64 + r mod 64 = r"
proof -
  have q: "r div 4096 = r div 64 div 64" "r div 262144 = r div 4096 div 64"
    by (simp_all flip: div_mult2_eq)
  show 1: "r div 64 * 64 + r mod 64 = r"
    by (rule div_mult_mod_eq)
  show 2: "r div 4096 * 4096 + r div 64 mod 64 * 64 + r mod 64 = r"
    using 1 div_mult_mod_eq [of "r div 64" 64] q(1) by linarith
  show "r div 262144 * 262144 + r div 4096 mod 64 * 4096 + r div 64 mod 64 * 64 + r mod 64 = r"
    using 2 div_mult_mod_eq [of "r div 4096" 64] q(2) by linarith
qed

lemmas utf8_defs = decode_rune_def second_range_def between_def

lemma decode_rune_1: "r < 0x80 \<Longrightarrow> decode_rune (of_nat r) bs = (r, 0)"
  by (simp add: utf8_defs)

lemma decode_rune_2:
  "2 \<le> q \<Longrightarrow> q < 32 \<Longrightarrow> m < 64 \<Longrightarrow>
   decode_rune (of_nat (0xC0 + q)) (of_nat (0x80 + m) # bs) = (q * 64 + m, 1)"
  by (simp add: utf8_defs mod_offset del: of_nat_add)

lemma decode_rune_3:
  "q < 16 \<Longrightarrow> m1 < 64 \<Longrightarrow> m2 < 64 \<Longrightarrow> (q = 0 \<Longrightarrow> 32 \<le> m1) \<Longrightarrow> (q = 13 \<Longrightarrow> m1 < 32) \<Longrightarrow>
   decode_rune (of_nat (0xE0 + q)) (of_nat (0x80 + m1) # of_nat (0x80 + m2) # bs)
     = (q * 4096 + m1 * 64 + m2, 2)"
  by (auto simp add: utf8_defs mod_offset Let_def simp del: of_nat_add)

lemma decode_rune_4:
  "q < 5 \<Longrightarrow> m1 < 64 \<Longrightarrow> m2 < 64 \<Longrightarrow> m3 < 64 \<Longrightarrow> (q = 0 \<Longrightarrow> 16 \<le> m1) \<Longrightarrow> (q = 4 \<Longrightarrow> m1 < 16) \<Longrightarrow>
   decode_rune (of_nat (0xF0 + q))
       (of_nat (0x80 + m1) # of_nat (0x80 + m2) # of_nat (0x80 + m3) # bs)
     = (q * 262144 + m1 * 4096 + m2 * 64 + m3, 3)"
  by (auto simp add: utf8_defs mod_offset Let_def simp del: of_nat_add)

lemma utf8_enc1_shape:
  assumes "scalar r"
  obtains b bs where "utf8_enc1 r = b # bs" and "\<And>rest. decode_rune b (bs @ rest) = (r, length bs)"
proof -
  have m: "r mod 64 < 64" "r div 64 mod 64 < 64" "r div 4096 mod 64 < 64" by simp_all
  consider (one) "r < 0x80" | (two) "\<not> r < 0x80" "r < 0x800"
    | (three) "\<not> r < 0x80" "\<not> r < 0x800" "r < 0x10000"
    | (four) "\<not> r < 0x80" "\<not> r < 0x800" "\<not> r < 0x10000" "r \<le> 0x10FFFF"
    using assms by (fastforce simp: scalar_def)
  then show thesis
  proof cases
    case one
    show thesis
      by (rule that [of "of_nat r" "[]"])
        (simp_all only: utf8_enc1_def assms one Let_def if_True decode_rune_1 append_Nil list.size)
  next
    case two
    have q: "r div 64 < 32" "2 \<le> r div 64" using two by auto
    show thesis
      by (rule that [of "of_nat (0xC0 + r div 64)" "[of_nat (0x80 + r mod 64)]"])
        (simp_all only: utf8_enc1_def assms two Let_def if_True if_False decode_rune_2 [OF q(2,1) m(1)]
           base64_digits append.simps list.size One_nat_def add_0)
  next
    case three
    have q: "r div 4096 < 16" using three by auto
    have c: "r div 4096 = 0 \<Longrightarrow> 32 \<le> r div 64 mod 64" "r div 4096 = 13 \<Longrightarrow> r div 64 mod 64 < 32"
      using three assms base64_digits(2) [of r] m unfolding scalar_def by linarith+
    show thesis
      by (rule that [of "of_nat (0xE0 + r div 4096)"
            "[of_nat (0x80 + r div 64 mod 64), of_nat (0x80 + r mod 64)]"])
        (simp_all only: utf8_enc1_def assms three Let_def if_True if_False
           decode_rune_3 [OF q m(2,1) c] base64_digits append.simps, simp)
  next
    case four
    have q: "r div 262144 < 5" using four by auto
    have c: "r div 262144 = 0 \<Longrightarrow> 16 \<le> r div 4096 mod 64"
      "r div 262144 = 4 \<Longrightarrow> r div 4096 mod 64 < 16"
      using four base64_digits(3) [of r] m by linarith+
    show thesis
      by (rule that [of "of_nat (0xF0 + r div 262144)" "[of_nat (0x80 + r div 4096 mod 64),
            of_nat (0x80 + r div 64 mod 64), of_nat (0x80 + r mod 64)]"])
        (simp_all only: utf8_enc1_def assms four Let_def if_True if_False
           decode_rune_4 [OF q m(3,2,1) c] base64_digits append.simps, simp)
  qed
qed

lemma utf8_runes_enc1: "scalar r \<Longrightarrow> utf8_runes (utf8_enc1 r @ rest) = r # utf8_runes rest"
  by (erule utf8_enc1_shape) simp

lemma utf8_runes_enc: "list_all scalar rs \<Longrightarrow> utf8_runes (utf8_enc rs) = rs"
  by (induction rs) (simp_all add: utf8_enc_def utf8_runes_enc1)

section \<open>UTF-16\<close>

text \<open>
  \<open>utf16.EncodeRune\<close> for runes beyond the basic plane, and \<open>utf16.Decode\<close>: a high surrogate
  followed by a low one is one rune, any other surrogate is U+FFFD.
\<close>

definition EncodeRune :: "rune \<Rightarrow> uint16 \<times> uint16" where
  "EncodeRune r = (of_nat (0xD800 + (r - 0x10000) div 1024 mod 1024),
                   of_nat (0xDC00 + (r - 0x10000) mod 1024))"

definition high_surrogate :: "uint16 \<Rightarrow> bool" where
  "high_surrogate u \<longleftrightarrow> 0xD800 \<le> unat u \<and> unat u < 0xDC00"

definition low_surrogate :: "uint16 \<Rightarrow> bool" where
  "low_surrogate u \<longleftrightarrow> 0xDC00 \<le> unat u \<and> unat u < 0xE000"

fun utf16_Decode :: "uint16 list \<Rightarrow> rune list" where
  "utf16_Decode [] = []"
| "utf16_Decode [u] =
     [if high_surrogate u \<or> low_surrogate u then replacement_char else unat u]"
| "utf16_Decode (u # v # us) =
     (if \<not> high_surrogate u \<and> \<not> low_surrogate u then unat u # utf16_Decode (v # us)
      else if high_surrogate u \<and> low_surrogate v then
        ((unat u - 0xD800) * 1024 + (unat v - 0xDC00) + 0x10000) # utf16_Decode us
      else replacement_char # utf16_Decode (v # us))"

text \<open>The code units of one rune, as the packet writer emits them.\<close>

definition utf16_units :: "rune \<Rightarrow> uint16 list" where
  "utf16_units r = (if r \<le> 0xFFFF then [of_nat r] else case EncodeRune r of (a, b) \<Rightarrow> [a, b])"

lemma unat_uint16 [simp]: "n < 65536 \<Longrightarrow> unat (of_nat n :: uint16) = n"
  by (simp add: unat_of_nat)

lemma utf16_Decode_units:
  assumes "scalar r"
  shows "utf16_Decode (utf16_units r @ us) = r # utf16_Decode us"
proof (cases "r \<le> 0xFFFF")
  case True
  with assms have "\<not> high_surrogate (of_nat r)" "\<not> low_surrogate (of_nat r)"
    by (auto simp: scalar_def high_surrogate_def low_surrogate_def)
  with True show ?thesis
    by (cases us) (simp_all add: utf16_units_def)
next
  case False
  define d where "d = r - 0x10000"
  have d: "r = d + 0x10000" "d div 1024 < 1024" "d mod 1024 < 1024"
    using False assms by (auto simp: d_def scalar_def)
  have "d div 1024 * 1024 + d mod 1024 = d" by simp
  with d False show ?thesis
    by (simp add: utf16_units_def EncodeRune_def high_surrogate_def low_surrogate_def d_def [symmetric]
        del: of_nat_add)
qed

lemma utf16_Decode_enc: "list_all scalar rs \<Longrightarrow> utf16_Decode (concat (map utf16_units rs)) = rs"
  by (induction rs) (simp_all add: utf16_Decode_units)

text \<open>No unit of a non-zero scalar is zero, so a null unit ends the encoded string.\<close>

lemma utf16_units_nonzero:
  assumes "scalar r" "r \<noteq> 0" "u \<in> set (utf16_units r)"
  shows "u \<noteq> 0"
proof -
  have "unat u \<noteq> 0"
  proof (cases "r \<le> 0xFFFF")
    case True
    with assms show ?thesis by (simp add: utf16_units_def)
  next
    case False
    with assms(3) consider "unat u = 0xD800 + (r - 0x10000) div 1024 mod 1024"
      | "unat u = 0xDC00 + (r - 0x10000) mod 1024"
      by (auto simp: utf16_units_def EncodeRune_def simp del: of_nat_add)
    then show ?thesis by cases simp_all
  qed
  then show ?thesis by auto
qed

section \<open>Case folding\<close>

definition ascii :: "gostring \<Rightarrow> bool" where
  "ascii s \<longleftrightarrow> list_all (\<lambda>b. unat b < 0x80) s"

definition lower_byte :: "byte \<Rightarrow> byte" where
  "lower_byte b = (if 65 \<le> unat b \<and> unat b \<le> 90 then b + 32 else b)"

text \<open>\<open>strings.ToLower\<close>; \<open>ul\<close> is the table of \<open>unicode.ToLower\<close>.\<close>

definition ToLower :: "(rune \<Rightarrow> rune) \<Rightarrow> gostring \<Rightarrow> gostring" where
  "ToLower ul s = (if ascii s then map lower_byte s else utf8_enc (map ul (utf8_runes s)))"

text \<open>
  \<open>strings.EqualFold\<close>: byte by byte while both strings are ASCII, rune by rune from the first
  byte on that is not. \<open>fe\<close> says whether two distinct runes, the smaller first and the larger
  not ASCII, are in one orbit of \<open>unicode.SimpleFold\<close>.
\<close>

definition fold_byte_eq :: "byte \<Rightarrow> byte \<Rightarrow> bool" where
  "fold_byte_eq a b = (let lo = min a b; hi = max a b in
     a = b \<or> (65 \<le> unat lo \<and> unat lo \<le> 90 \<and> hi = lo + 32))"

definition fold_rune_eq :: "(rune \<Rightarrow> rune \<Rightarrow> bool) \<Rightarrow> rune \<Rightarrow> rune \<Rightarrow> bool" where
  "fold_rune_eq fe a b = (let lo = min a b; hi = max a b in
     a = b \<or> (if hi < 0x80 then 65 \<le> lo \<and> lo \<le> 90 \<and> hi = lo + 32 else fe lo hi))"

fun EqualFold :: "(rune \<Rightarrow> rune \<Rightarrow> bool) \<Rightarrow> gostring \<Rightarrow> gostring \<Rightarrow> bool" where
  "EqualFold fe [] t = (t = [])"
| "EqualFold fe (a # s) [] = False"
| "EqualFold fe (a # s) (b # t) =
     (if 0x80 \<le> unat a \<or> 0x80 \<le> unat b
      then list_all2 (fold_rune_eq fe) (utf8_runes (a # s)) (utf8_runes (b # t))
      else if fold_byte_eq a b then EqualFold fe s t else False)"

lemma fold_rune_eq_refl [simp]: "fold_rune_eq fe r r"
  by (simp add: fold_rune_eq_def)

lemma EqualFold_refl [simp]: "EqualFold fe s s"
  by (induction s) (auto simp: fold_byte_eq_def list_all2_refl)

lemma unat_lower_byte:
  "unat b < 0x80 \<Longrightarrow> unat (lower_byte b) = (if 65 \<le> unat b \<and> unat b \<le> 90 then unat b + 32 else unat b)"
  by (simp add: lower_byte_def unat_word_ariths)

lemma fold_byte_eq_lower:
  assumes "unat a < 0x80" "unat b < 0x80"
  shows "fold_byte_eq a b \<longleftrightarrow> lower_byte a = lower_byte b"
proof -
  have plus: "unat (min a b + 32) = unat (min a b) + 32"
    using assms by (auto simp: min_def unat_word_ariths)
  have le: "unat (min a b) = min (unat a) (unat b)" "unat (max a b) = max (unat a) (unat b)"
    by (auto simp: min_def max_def word_le_nat_alt)
  have "fold_byte_eq a b \<longleftrightarrow>
      unat a = unat b \<or> (65 \<le> min (unat a) (unat b) \<and> min (unat a) (unat b) \<le> 90
        \<and> max (unat a) (unat b) = min (unat a) (unat b) + 32)"
    by (simp add: fold_byte_eq_def Let_def word_unat_eq_iff le plus)
  also have "\<dots> \<longleftrightarrow> unat (lower_byte a) = unat (lower_byte b)"
    using assms by (auto simp: unat_lower_byte min_def max_def)
  finally show ?thesis by (simp add: word_unat_eq_iff)
qed

lemma EqualFold_ascii:
  "ascii s \<Longrightarrow> ascii t \<Longrightarrow> EqualFold fe s t \<longleftrightarrow> ToLower ul s = ToLower ul t"
  by (induction fe s t rule: EqualFold.induct)
    (auto simp: ToLower_def ascii_def fold_byte_eq_lower)

lemma ToLower_idem_ascii: "ascii s \<Longrightarrow> ToLower ul (ToLower ul s) = ToLower ul s"
proof -
  assume a: "ascii s"
  have "\<And>b. unat b < 0x80 \<Longrightarrow> unat (lower_byte b) < 0x80 \<and> lower_byte (lower_byte b) = lower_byte b"
    by (auto simp: unat_lower_byte word_unat_eq_iff)
  with a have "ascii (map lower_byte s)" "map lower_byte (map lower_byte s) = map lower_byte s"
    by (auto simp: ascii_def list_all_iff)
  with a show ?thesis by (simp add: ToLower_def)
qed

end
