(* ===== verification/Packet_Reader.thy ===== *)
theory Packet_Reader
  imports Go_Strings
begin

text \<open>
  \<open>pkg/network/packet_reader.go\<close>: a cursor over a packet's bytes. An operation takes the reader
  and gives an outcome: the value read with the advanced reader, an error, or a panic (a slice
  expression out of range). Every operation checks its bounds before it moves, so the reader an
  error leaves behind is the one it was given.

  The invariant \<open>wf_reader\<close> (the cursor lies inside the buffer) holds for a fresh reader and
  after every operation, and rules every panic out.
\<close>

record PacketReader =
  rbuf :: "byte list"
  rpos :: nat

type_synonym 'a read = "PacketReader \<Rightarrow> ('a \<times> PacketReader) outcome"

definition MaxPacketSize :: nat where
  "MaxPacketSize = 65536"

definition MinPacketSize :: nat where
  "MinPacketSize = 0"

section \<open>Operations\<close>

definition GetPacketReader :: "byte list \<Rightarrow> PacketReader outcome" where
  "GetPacketReader data =
     (if length data < MinPacketSize \<or> length data > MaxPacketSize then Error InvalidSize
      else Ok \<lparr>rbuf = data, rpos = 0\<rparr>)"

text \<open>What goes back into the pool, and the bytes still to read (Go's signed difference).\<close>

definition PutPacketReader :: "PacketReader \<Rightarrow> PacketReader" where
  "PutPacketReader r = \<lparr>rbuf = [], rpos = 0\<rparr>"

definition ReadableBytes :: "PacketReader \<Rightarrow> int" where
  "ReadableBytes r = int (length (rbuf r)) - int (rpos r)"

definition ReadByte :: "byte read" where
  "ReadByte r =
     (if rpos r \<ge> length (rbuf r) then Error OutOfBounds
      else Ok (rbuf r ! rpos r, r\<lparr>rpos := rpos r + 1\<rparr>))"

definition ReadUint16 :: "uint16 read" where
  "ReadUint16 r =
     (if rpos r + 2 > length (rbuf r) then Error OutOfBounds
      else Ok (le_dec (take 2 (drop (rpos r) (rbuf r))), r\<lparr>rpos := rpos r + 2\<rparr>))"

definition ReadUint32 :: "uint32 read" where
  "ReadUint32 r =
     (if rpos r + 4 > length (rbuf r) then Error OutOfBounds
      else Ok (le_dec (take 4 (drop (rpos r) (rbuf r))), r\<lparr>rpos := rpos r + 4\<rparr>))"

definition ReadUint64 :: "uint64 read" where
  "ReadUint64 r =
     (if rpos r + 8 > length (rbuf r) then Error OutOfBounds
      else Ok (le_dec (take 8 (drop (rpos r) (rbuf r))), r\<lparr>rpos := rpos r + 8\<rparr>))"

text \<open>The signed and the floating point readers reinterpret the bits they read.\<close>

definition ReadInt16 :: "int16 read" where
  "ReadInt16 r = ReadUint16 r"

definition ReadInt32 :: "int32 read" where
  "ReadInt32 r = ReadUint32 r"

definition ReadInt64 :: "int64 read" where
  "ReadInt64 r = ReadUint64 r"

definition ReadFloat32 :: "(uint32 \<Rightarrow> 'f) \<Rightarrow> 'f read" where
  "ReadFloat32 frombits r =
     bind_outcome (ReadUint32 r) (\<lambda>(u, r'). Ok (frombits u, r'))"

definition ReadFloat64 :: "(uint64 \<Rightarrow> 'f) \<Rightarrow> 'f read" where
  "ReadFloat64 frombits r =
     bind_outcome (ReadUint64 r) (\<lambda>(u, r'). Ok (frombits u, r'))"

definition ensure :: "int \<Rightarrow> PacketReader \<Rightarrow> bool" where
  "ensure n r \<longleftrightarrow> int (rpos r) + n \<le> int (length (rbuf r))"

text \<open>
  \<open>r.buf[r.pos : r.pos+n]\<close> panics when its upper bound is below its lower one (or the capacity is
  passed, which \<open>ensure\<close> excludes): a negative \<open>n\<close> passes \<open>ensure\<close> and panics.
\<close>

definition ReadBytes :: "int \<Rightarrow> byte list read" where
  "ReadBytes n r =
     (if \<not> ensure n r then Error OutOfBounds
      else if n < 0 then Panic
      else Ok (take (nat n) (drop (rpos r) (rbuf r)), r\<lparr>rpos := rpos r + nat n\<rparr>))"

text \<open>The scan for the two-byte terminator, two bytes at a time from the cursor on.\<close>

fun find_terminator :: "nat \<Rightarrow> byte list \<Rightarrow> nat option" where
  "find_terminator i (a # b # bs) =
     (if a = 0 \<and> b = 0 then Some i else find_terminator (i + 2) bs)"
| "find_terminator i _ = None"

text \<open>The \<open>u16len\<close> code units of the raw bytes.\<close>

fun units_of :: "byte list \<Rightarrow> uint16 list" where
  "units_of (a # b # bs) = (ucast a OR push_bit 8 (ucast b)) # units_of bs"
| "units_of _ = []"

definition ReadString :: "gostring read" where
  "ReadString r =
     (if rpos r > length (rbuf r) then Panic
      else let remainder = drop (rpos r) (rbuf r) in
        case find_terminator 0 remainder of
          None \<Rightarrow> Error MissingTerminator
        | Some targetIdx \<Rightarrow>
            let raw = take targetIdx remainder;
                r' = r\<lparr>rpos := rpos r + (targetIdx + 2)\<rparr>
            in if length raw = 0 then Ok ([], r')
               else Ok (utf8_enc (utf16_Decode (units_of raw)), r'))"

definition SkipString :: "unit read" where
  "SkipString r =
     (if rpos r > length (rbuf r) then Panic
      else case find_terminator 0 (drop (rpos r) (rbuf r)) of
        None \<Rightarrow> Error MissingTerminator
      | Some i \<Rightarrow> Ok ((), r\<lparr>rpos := rpos r + (i + 2)\<rparr>))"

section \<open>Invariant\<close>

definition wf_reader :: "PacketReader \<Rightarrow> bool" where
  "wf_reader r \<longleftrightarrow> rpos r \<le> length (rbuf r)"

text \<open>
  What a well-behaved read operation promises: from a well-formed reader it never panics, and
  when it succeeds the buffer is the same and the cursor has moved forward, inside the buffer.
\<close>

definition good_read :: "'a read \<Rightarrow> bool" where
  "good_read f \<longleftrightarrow> (\<forall>r. wf_reader r \<longrightarrow>
     f r \<noteq> Panic \<and> (\<forall>a r'. f r = Ok (a, r') \<longrightarrow>
       wf_reader r' \<and> rbuf r' = rbuf r \<and> rpos r \<le> rpos r'))"

lemma good_readD:
  assumes "good_read f" "wf_reader r"
  shows "f r \<noteq> Panic" "f r = Ok (a, r') \<Longrightarrow> wf_reader r'"
    "f r = Ok (a, r') \<Longrightarrow> rbuf r' = rbuf r" "f r = Ok (a, r') \<Longrightarrow> rpos r \<le> rpos r'"
  using assms unfolding good_read_def by blast+

lemma find_terminator_bound:
  "find_terminator i bs = Some k \<Longrightarrow> i \<le> k \<and> k + 2 \<le> i + length bs"
  by (induction i bs arbitrary: k rule: find_terminator.induct) (fastforce split: if_splits)+

lemma good_ReadByte: "good_read ReadByte"
  by (auto simp: good_read_def ReadByte_def wf_reader_def)

lemma good_ReadUint: "good_read ReadUint16" "good_read ReadUint32" "good_read ReadUint64"
  by (auto simp: good_read_def ReadUint16_def ReadUint32_def ReadUint64_def wf_reader_def)

lemma ReadInt_conv: "ReadInt16 = ReadUint16" "ReadInt32 = ReadUint32" "ReadInt64 = ReadUint64"
  by (rule ext, simp add: ReadInt16_def ReadInt32_def ReadInt64_def)+

lemma good_ReadInt: "good_read ReadInt16" "good_read ReadInt32" "good_read ReadInt64"
  by (simp_all only: ReadInt_conv good_ReadUint)

lemma good_ReadFloat: "good_read (ReadFloat32 f)" "good_read (ReadFloat64 g)"
  by (auto simp: good_read_def ReadFloat32_def ReadFloat64_def ReadUint32_def ReadUint64_def
      wf_reader_def)

lemma good_ReadBytes: "0 \<le> n \<Longrightarrow> good_read (ReadBytes n)"
  by (auto simp: good_read_def ReadBytes_def ensure_def wf_reader_def)

lemma find_terminator_at:
  "wf_reader r \<Longrightarrow> find_terminator 0 (drop (rpos r) (rbuf r)) = Some k \<Longrightarrow>
   rpos r + (k + 2) \<le> length (rbuf r)"
  by (frule find_terminator_bound) (simp add: wf_reader_def)

lemma good_ReadString: "good_read ReadString"
  using find_terminator_at unfolding good_read_def ReadString_def
  by (auto simp: Let_def wf_reader_def split: option.splits if_splits)

lemma good_SkipString: "good_read SkipString"
  using find_terminator_at unfolding good_read_def SkipString_def
  by (auto simp: wf_reader_def split: option.splits)

lemmas good_reads [inv_intros] =
  good_ReadByte good_ReadUint good_ReadInt good_ReadFloat good_ReadString good_SkipString

section \<open>Properties\<close>

text \<open>A handler's use of a reader: a script of read operations, stopped by the first error.\<close>

datatype read_op =
  RByte | RUint16 | RUint32 | RUint64 | RInt16 | RInt32 | RInt64 | RBytes nat | RString | RSkipString

definition forget :: "'a read \<Rightarrow> PacketReader \<Rightarrow> PacketReader outcome" where
  "forget f r = bind_outcome (f r) (\<lambda>(_, r'). Ok r')"

fun run_read :: "read_op \<Rightarrow> PacketReader \<Rightarrow> PacketReader outcome" where
  "run_read RByte = forget ReadByte"
| "run_read RUint16 = forget ReadUint16"
| "run_read RUint32 = forget ReadUint32"
| "run_read RUint64 = forget ReadUint64"
| "run_read RInt16 = forget ReadInt16"
| "run_read RInt32 = forget ReadInt32"
| "run_read RInt64 = forget ReadInt64"
| "run_read (RBytes n) = forget (ReadBytes (int n))"
| "run_read RString = forget ReadString"
| "run_read RSkipString = forget SkipString"

fun run_reads :: "read_op list \<Rightarrow> PacketReader \<Rightarrow> PacketReader outcome" where
  "run_reads [] r = Ok r"
| "run_reads (f # fs) r = bind_outcome (run_read f r) (run_reads fs)"

definition stays_inside :: "PacketReader \<Rightarrow> PacketReader outcome \<Rightarrow> bool" where
  "stays_inside r res \<longleftrightarrow> res \<noteq> Panic \<and> (\<forall>r'. res = Ok r' \<longrightarrow> wf_reader r' \<and> rbuf r' = rbuf r \<and> rpos r \<le> rpos r')"

lemma stays_inside_forget: "good_read f \<Longrightarrow> wf_reader r \<Longrightarrow> stays_inside r (forget f r)"
  unfolding stays_inside_def good_read_def forget_def
  by (auto simp: bind_outcome_Ok_iff bind_outcome_Panic_iff)

lemma stays_inside_run_read: "wf_reader r \<Longrightarrow> stays_inside r (run_read f r)"
  by (cases f) (simp_all add: stays_inside_forget good_reads good_ReadBytes)

lemma stays_inside_run_reads: "wf_reader r \<Longrightarrow> stays_inside r (run_reads fs r)"
proof (induction fs arbitrary: r)
  case Nil
  then show ?case by (simp add: stays_inside_def)
next
  case (Cons f fs)
  note step = stays_inside_run_read [OF Cons.prems, of f]
  show ?case
  proof (cases "run_read f r")
    case (Ok r')
    with step have r': "wf_reader r'" "rbuf r' = rbuf r" "rpos r \<le> rpos r'" by (simp_all add: stays_inside_def)
    have "stays_inside r' (run_reads fs r')" using r'(1) by (rule Cons.IH)
    with r'(2,3) show ?thesis
      unfolding stays_inside_def Ok run_reads.simps bind_outcome.simps by (metis le_trans)
  qed (use step in \<open>simp_all add: stays_inside_def\<close>)
qed



end
