(* ===== verification/Packet_Writer.thy ===== *)
theory Packet_Writer
  imports Packet_Reader
begin

text \<open>
  \<open>pkg/network/packet_writer.go\<close>: a growing byte buffer whose first two bytes are reserved for
  the packet length. A Go slice is its visible bytes and the spare bytes of the backing array
  between length and capacity: \<open>Extend\<close> and the string writers reslice into the spare part,
  which holds whatever an earlier packet left there when the writer comes from the pool.

  The language leaves open how much capacity \<open>append\<close> allocates beyond what it needs; the model
  doubles. No lemma below depends on it: each says what an operation does to the visible bytes.

  The \<open>codec\<close> locale is the contract between a writer operation and the reader operation of the
  same type; it is interpreted for every type the packets carry.
\<close>

record PacketWriter =
  wbuf :: "byte list"
  wspare :: "byte list"

definition wcap :: "PacketWriter \<Rightarrow> nat" where
  "wcap w = length (wbuf w) + length (wspare w)"

definition defaultWriterCap :: nat where
  "defaultWriterCap = 1024"

text \<open>The pool's \<open>New\<close>, and Go's \<open>append\<close> to the writer's slice.\<close>

definition newPacketWriter :: PacketWriter where
  "newPacketWriter = \<lparr>wbuf = [], wspare = replicate defaultWriterCap 0\<rparr>"

definition append_bytes :: "byte list \<Rightarrow> PacketWriter \<Rightarrow> PacketWriter" where
  "append_bytes bs w =
     \<lparr>wbuf = wbuf w @ bs,
      wspare = (if length bs \<le> length (wspare w) then drop (length bs) (wspare w)
                else replicate (2 * wcap w - (length (wbuf w) + length bs)) 0)\<rparr>"

text \<open>\<open>w.buf = w.buf[:len(w.buf)+n]\<close>.\<close>

definition reslice :: "nat \<Rightarrow> PacketWriter \<Rightarrow> PacketWriter" where
  "reslice n w = \<lparr>wbuf = wbuf w @ take n (wspare w), wspare = drop n (wspare w)\<rparr>"

section \<open>Operations\<close>

definition Reserve :: "nat \<Rightarrow> PacketWriter \<Rightarrow> PacketWriter" where
  "Reserve n w =
     (if length (wspare w) < n then
        let newCap = (wcap w + n) * 2;
            newCap' = (if newCap > 65536 then wcap w + n else newCap)
        in w\<lparr>wspare := replicate (newCap' - length (wbuf w)) 0\<rparr>
      else w)"

definition reset :: "PacketWriter \<Rightarrow> PacketWriter" where
  "reset w = \<lparr>wbuf = [], wspare = wbuf w @ wspare w\<rparr>"

text \<open>\<open>pooled\<close> is the writer \<open>packetWriterPool.Get\<close> hands out.\<close>

definition GetPacketWriter :: "PacketWriter \<Rightarrow> PacketWriter" where
  "GetPacketWriter pooled = append_bytes [0, 0] (Reserve 2 (reset pooled))"

definition PutPacketWriter :: "PacketWriter \<Rightarrow> PacketWriter" where
  "PutPacketWriter w = (if wcap w > 64 * 1024 then \<lparr>wbuf = [], wspare = []\<rparr> else reset w)"

text \<open>
  \<open>w.buf[0:2]\<close> reslices up to the capacity, so it panics only when the backing array is shorter
  than two bytes.
\<close>

definition PrependLength :: "PacketWriter \<Rightarrow> PacketWriter outcome" where
  "PrependLength w = (let n = length (wbuf w) in
     if n > 65535 then Panic
     else if wcap w < 2 then Panic
     else let back = put_at (wbuf w @ wspare w) 0 (le_enc 2 (of_nat n :: uint16))
          in Ok \<lparr>wbuf = take n back, wspare = drop n back\<rparr>)"

definition WriteByte :: "byte \<Rightarrow> PacketWriter \<Rightarrow> PacketWriter" where
  "WriteByte v w = append_bytes [v] w"

text \<open>\<open>PutUintN(w.buf[pos:], v)\<close> overwrites the zero bytes just appended.\<close>

definition put_buf :: "nat \<Rightarrow> byte list \<Rightarrow> PacketWriter \<Rightarrow> PacketWriter" where
  "put_buf pos bs w = w\<lparr>wbuf := put_at (wbuf w) pos bs\<rparr>"

definition WriteUint16 :: "uint16 \<Rightarrow> PacketWriter \<Rightarrow> PacketWriter" where
  "WriteUint16 v w =
     (let pos = length (wbuf w) in put_buf pos (le_enc 2 v) (append_bytes [0, 0] w))"

definition WriteInt16 :: "int16 \<Rightarrow> PacketWriter \<Rightarrow> PacketWriter" where
  "WriteInt16 v w = WriteUint16 v w"

definition WriteUint32 :: "uint32 \<Rightarrow> PacketWriter \<Rightarrow> PacketWriter" where
  "WriteUint32 v w =
     (let pos = length (wbuf w) in put_buf pos (le_enc 4 v) (append_bytes [0, 0, 0, 0] w))"

definition WriteInt32 :: "int32 \<Rightarrow> PacketWriter \<Rightarrow> PacketWriter" where
  "WriteInt32 v w = WriteUint32 v w"

definition WriteUint64 :: "uint64 \<Rightarrow> PacketWriter \<Rightarrow> PacketWriter" where
  "WriteUint64 v w =
     (let pos = length (wbuf w)
      in put_buf pos (le_enc 8 v) (append_bytes [0, 0, 0, 0, 0, 0, 0, 0] w))"

definition WriteInt64 :: "int64 \<Rightarrow> PacketWriter \<Rightarrow> PacketWriter" where
  "WriteInt64 v w = WriteUint64 v w"

text \<open>\<open>tobits\<close> stands for \<open>math.Float32bits\<close> and \<open>math.Float64bits\<close>.\<close>

definition WriteFloat32 :: "('f \<Rightarrow> uint32) \<Rightarrow> 'f \<Rightarrow> PacketWriter \<Rightarrow> PacketWriter" where
  "WriteFloat32 tobits v w = WriteUint32 (tobits v) w"

definition WriteFloat64 :: "('f \<Rightarrow> uint64) \<Rightarrow> 'f \<Rightarrow> PacketWriter \<Rightarrow> PacketWriter" where
  "WriteFloat64 tobits v w = WriteUint64 (tobits v) w"

definition WriteBytes :: "byte list \<Rightarrow> PacketWriter \<Rightarrow> PacketWriter" where
  "WriteBytes b w = append_bytes b w"

text \<open>The slice \<open>Extend\<close> returns is the last \<open>n\<close> bytes of the new buffer, not initialised.\<close>

definition Extend :: "nat \<Rightarrow> PacketWriter \<Rightarrow> PacketWriter" where
  "Extend n w = reslice n (Reserve n w)"

fun utf16_count :: "rune list \<Rightarrow> nat" where
  "utf16_count [] = 0"
| "utf16_count (r # rs) = (if r \<le> 0xFFFF then 1 else 2) + utf16_count rs"

definition utf16Len :: "gostring \<Rightarrow> nat" where
  "utf16Len s = utf16_count (utf8_runes s)"

text \<open>The loop of the two string writers: the buffer and the position it leaves.\<close>

fun put_runes :: "rune list \<Rightarrow> nat \<Rightarrow> PacketWriter \<Rightarrow> nat \<times> PacketWriter" where
  "put_runes [] pos w = (pos, w)"
| "put_runes (r # rs) pos w =
     (if r \<le> 0xFFFF then put_runes rs (pos + 2) (put_buf pos (le_enc 2 (of_nat r :: uint16)) w)
      else let (r1, r2) = EncodeRune r
           in put_runes rs (pos + 4) (put_buf (pos + 2) (le_enc 2 r2) (put_buf pos (le_enc 2 r1) w)))"

definition WriteString :: "gostring \<Rightarrow> PacketWriter \<Rightarrow> PacketWriter" where
  "WriteString s w =
     (let sizeInBytes = utf16Len s * 2 + 2;
          pos = length (wbuf w);
          w1 = reslice sizeInBytes (Reserve sizeInBytes w);
          (pos', w2) = put_runes (utf8_runes s) pos w1
      in put_buf pos' (le_enc 2 (0 :: uint16)) w2)"

definition WriteSizedString :: "gostring \<Rightarrow> PacketWriter \<Rightarrow> PacketWriter" where
  "WriteSizedString s w =
     (let utf16Count = utf16Len s;
          w0 = WriteInt16 (of_nat utf16Count) w;
          sizeInBytes = utf16Count * 2;
          pos = length (wbuf w0);
          w1 = reslice sizeInBytes (Reserve sizeInBytes w0)
      in snd (put_runes (utf8_runes s) pos w1))"

section \<open>What the operations append\<close>

lemma Reserve_spare: "n \<le> length (wspare (Reserve n w))"
  by (simp add: Reserve_def wcap_def Let_def)

lemma Reserve_wbuf [writer_simps]: "wbuf (Reserve n w) = wbuf w"
  by (simp add: Reserve_def Let_def)

lemma append_bytes_wbuf [writer_simps]: "wbuf (append_bytes bs w) = wbuf w @ bs"
  by (simp add: append_bytes_def)

lemma reset_wbuf [writer_simps]: "wbuf (reset w) = []"
  by (simp add: reset_def)

lemma WriteByte_wbuf [writer_simps]: "wbuf (WriteByte v w) = wbuf w @ [v]"
  by (simp add: WriteByte_def writer_simps)

lemma WriteBytes_wbuf [writer_simps]: "wbuf (WriteBytes b w) = wbuf w @ b"
  by (simp add: WriteBytes_def writer_simps)

lemma put_at_end: "length ys = length zs \<Longrightarrow> put_at (xs @ ys) (length xs) zs = xs @ zs"
  using put_at_append_right [of xs ys 0 zs] by (simp add: put_at_conv)

lemma WriteUint_wbuf [writer_simps]:
  "wbuf (WriteUint16 v2 w) = wbuf w @ le_enc 2 v2"
  "wbuf (WriteUint32 v4 w) = wbuf w @ le_enc 4 v4"
  "wbuf (WriteUint64 v8 w) = wbuf w @ le_enc 8 v8"
  by (simp_all add: WriteUint16_def WriteUint32_def WriteUint64_def put_buf_def Let_def
      append_bytes_wbuf put_at_end)

lemma WriteInt_wbuf [writer_simps]:
  "wbuf (WriteInt16 v2 w) = wbuf w @ le_enc 2 v2"
  "wbuf (WriteInt32 v4 w) = wbuf w @ le_enc 4 v4"
  "wbuf (WriteInt64 v8 w) = wbuf w @ le_enc 8 v8"
  by (simp_all add: WriteInt16_def WriteInt32_def WriteInt64_def writer_simps)

lemma GetPacketWriter_wbuf [writer_simps]: "wbuf (GetPacketWriter p) = [0, 0]"
  by (simp add: GetPacketWriter_def writer_simps)

lemma Extend_wbuf:
  obtains stale where "wbuf (Extend n w) = wbuf w @ stale" and "length stale = n"
  using Reserve_spare [of n w] by (simp add: Extend_def reslice_def writer_simps)

lemma Extend_length [simp]: "length (wbuf (Extend n w)) = length (wbuf w) + n"
  by (rule Extend_wbuf [of n w]) simp

lemma PrependLength_Ok:
  assumes "2 \<le> length (wbuf w)" "length (wbuf w) \<le> 65535"
  obtains w' where "PrependLength w = Ok w'"
    and "wbuf w' = le_enc 2 (of_nat (length (wbuf w)) :: uint16) @ drop 2 (wbuf w)"
proof -
  have "put_at (wbuf w @ wspare w) 0 (le_enc 2 (of_nat (length (wbuf w)) :: uint16))
      = (le_enc 2 (of_nat (length (wbuf w)) :: uint16) @ drop 2 (wbuf w)) @ wspare w"
    by (subst put_at_conv) (use assms in \<open>simp_all add: numeral_2_eq_2 del: le_enc.simps\<close>)
  with assms show thesis
    by (intro that) (auto simp: PrependLength_def wcap_def Let_def)
qed

subsection \<open>Strings\<close>

definition utf16_bytes :: "rune list \<Rightarrow> byte list" where
  "utf16_bytes rs = concat (map (le_enc 2) (concat (map utf16_units rs)))"

lemma utf16_bytes_simps [simp]:
  "utf16_bytes [] = []"
  "utf16_bytes (r # rs) = concat (map (le_enc 2) (utf16_units r)) @ utf16_bytes rs"
  by (simp_all add: utf16_bytes_def)

lemma length_utf16_bytes: "length (utf16_bytes rs) = 2 * utf16_count rs"
  by (induction rs) (simp_all add: utf16_units_def split: prod.splits)

lemma put_runes_spec:
  "wbuf w = xs @ ys \<Longrightarrow> 2 * utf16_count rs \<le> length ys \<Longrightarrow>
   put_runes rs (length xs) w =
     (length xs + 2 * utf16_count rs,
      w\<lparr>wbuf := xs @ utf16_bytes rs @ drop (2 * utf16_count rs) ys\<rparr>)"
proof (induction rs arbitrary: xs ys w)
  case Nil
  then show ?case by simp
next
  case (Cons r rs)
  define us where "us = concat (map (le_enc 2) (utf16_units r))"
  let ?n = "length us" and ?c = "utf16_count rs"
  define w' where "w' = w\<lparr>wbuf := xs @ us @ drop ?n ys\<rparr>"
  have n: "?n + 2 * ?c \<le> length ys" "2 * utf16_count (r # rs) = ?n + 2 * ?c"
    using Cons.prems(2) by (auto simp: us_def utf16_units_def split: prod.splits)
  have put: "put_at (xs @ ys) (length xs) us = xs @ us @ drop ?n ys"
    using put_at_append_right [of xs ys 0 us] n(1) by (simp add: put_at_conv)
  have step: "put_runes (r # rs) (length xs) w = put_runes rs (length (xs @ us)) w'"
  proof (cases "r \<le> 0xFFFF")
    case True
    with put show ?thesis
      using Cons.prems by (simp add: w'_def us_def utf16_units_def put_buf_def)
  next
    case False
    obtain a b where ab: "EncodeRune r = (a, b)" by force
    have "put_at (put_at zs i (le_enc 2 a)) (i + 2) (le_enc 2 b) = put_at zs i (le_enc 2 a @ le_enc 2 b)"
      for zs i by (simp add: numeral_2_eq_2)
    with False ab put show ?thesis
      using Cons.prems by (simp add: w'_def us_def utf16_units_def put_buf_def)
  qed
  have "put_runes rs (length (xs @ us)) w' =
      (length (xs @ us) + 2 * ?c,
       w'\<lparr>wbuf := (xs @ us) @ utf16_bytes rs @ drop (2 * ?c) (drop ?n ys)\<rparr>)"
    by (rule Cons.IH) (use n in \<open>simp_all add: w'_def\<close>)
  with step n(2) show ?case
    by (simp add: w'_def us_def [symmetric] add.commute del: utf16_count.simps)
qed

lemma WriteString_wbuf [writer_simps]:
  "wbuf (WriteString s w) = wbuf w @ utf16_bytes (utf8_runes s) @ [0, 0]"
proof -
  let ?n = "utf16Len s * 2 + 2"
  obtain ys where ys: "wbuf (reslice ?n (Reserve ?n w)) = wbuf w @ ys" "length ys = ?n"
    using Reserve_spare [of ?n w] by (simp add: reslice_def writer_simps)
  have c: "2 * utf16_count (utf8_runes s) \<le> length ys"
    using ys(2) by (simp add: utf16Len_def)
  have z: "length (drop (2 * utf16_count (utf8_runes s)) ys) = 2"
    using ys(2) by (simp add: utf16Len_def)
  have e: "put_at ((wbuf w @ utf16_bytes (utf8_runes s)) @ drop (2 * utf16_count (utf8_runes s)) ys)
      (length (wbuf w @ utf16_bytes (utf8_runes s))) [0, 0]
      = (wbuf w @ utf16_bytes (utf8_runes s)) @ [0, 0]"
    by (rule put_at_end) (use z in simp)
  have l: "le_enc 2 (0 :: uint16) = [0, 0]"
    by (simp add: numeral_2_eq_2)
  show ?thesis
    using put_runes_spec [OF ys(1) c] e
    by (simp add: WriteString_def Let_def put_buf_def length_utf16_bytes l)
qed

lemma WriteSizedString_wbuf [writer_simps]:
  "wbuf (WriteSizedString s w) =
     wbuf w @ le_enc 2 (of_nat (utf16Len s) :: uint16) @ utf16_bytes (utf8_runes s)"
proof -
  let ?n = "utf16Len s * 2" and ?w0 = "WriteInt16 (of_nat (utf16Len s)) w"
  obtain ys where ys: "wbuf (reslice ?n (Reserve ?n ?w0)) = wbuf ?w0 @ ys" "length ys = ?n"
    using Reserve_spare [of ?n ?w0] by (simp add: reslice_def writer_simps)
  have c: "2 * utf16_count (utf8_runes s) \<le> length ys"
    using ys(2) by (simp add: utf16Len_def)
  show ?thesis
    using put_runes_spec [OF ys(1) c] ys(2)
    by (simp add: WriteSizedString_def Let_def utf16Len_def writer_simps)
qed

end
