(* ===== verification/Packet_Codec.thy ===== *)
theory Packet_Codec
  imports Packet_Writer
begin

text \<open>
  The contract between the packet writer and the packet reader, per value type: what a write
  operation appends, the read operation of the same type takes off the front. Inside the locale
  a single value and a whole sequence of values are read back from where they were written; the
  interpretations give this for bytes, the integer types and strings.
\<close>

locale codec =
  fixes enc :: "'v \<Rightarrow> byte list"
    and put :: "'v \<Rightarrow> PacketWriter \<Rightarrow> PacketWriter"
    and take_off :: "'v read"
    and ok :: "'v \<Rightarrow> bool"
  assumes write_enc: "wbuf (put v w) = wbuf w @ enc v"
    and read_enc: "ok v \<Longrightarrow> take_off \<lparr>rbuf = xs @ enc v @ ys, rpos = length xs\<rparr>
       = Ok (v, \<lparr>rbuf = xs @ enc v @ ys, rpos = length xs + length (enc v)\<rparr>)"
begin

lemma read_written:
  assumes "ok v"
  shows "take_off \<lparr>rbuf = wbuf (put v w) @ rest, rpos = length (wbuf w)\<rparr>
    = Ok (v, \<lparr>rbuf = wbuf (put v w) @ rest, rpos = length (wbuf (put v w))\<rparr>)"
  using read_enc [OF assms, of "wbuf w" rest] by (simp add: write_enc)

fun write_seq :: "'v list \<Rightarrow> PacketWriter \<Rightarrow> PacketWriter" where
  "write_seq [] w = w"
| "write_seq (v # vs) w = write_seq vs (put v w)"

fun read_seq :: "nat \<Rightarrow> 'v list read" where
  "read_seq 0 r = Ok ([], r)"
| "read_seq (Suc n) r =
     bind_outcome (take_off r) (\<lambda>(v, r'). bind_outcome (read_seq n r') (\<lambda>(vs, r''). Ok (v # vs, r'')))"

lemma wbuf_write_seq: "wbuf (write_seq vs w) = wbuf w @ concat (map enc vs)"
  by (induction vs arbitrary: w) (simp_all add: write_enc)

lemma read_seq_enc:
  "list_all ok vs \<Longrightarrow> read_seq (length vs) \<lparr>rbuf = xs @ concat (map enc vs) @ ys, rpos = length xs\<rparr>
     = Ok (vs, \<lparr>rbuf = xs @ concat (map enc vs) @ ys, rpos = length xs + length (concat (map enc vs))\<rparr>)"
proof (induction vs arbitrary: xs)
  case Nil
  then show ?case by simp
next
  case (Cons v vs)
  then show ?case
    using read_enc [of v xs "concat (map enc vs) @ ys"] Cons.IH [of "xs @ enc v"] by simp
qed

lemma read_written_seq:
  "list_all ok vs \<Longrightarrow>
   read_seq (length vs) \<lparr>rbuf = wbuf (write_seq vs w) @ rest, rpos = length (wbuf w)\<rparr>
     = Ok (vs, \<lparr>rbuf = wbuf (write_seq vs w) @ rest, rpos = length (wbuf (write_seq vs w))\<rparr>)"
  using read_seq_enc [of vs "wbuf w" rest] by (simp add: wbuf_write_seq)

end

section \<open>Fixed-width values\<close>

lemma slice_mid: "length ys = n \<Longrightarrow> take n (drop (length xs) (xs @ ys @ zs)) = ys"
  by simp

interpretation byte_codec: codec "\<lambda>v. [v]" WriteByte ReadByte "\<lambda>_. True"
  by unfold_locales (simp_all add: writer_simps ReadByte_def nth_append)

interpretation u16_codec: codec "le_enc 2" WriteUint16 ReadUint16 "\<lambda>_. True"
  by unfold_locales (simp_all add: writer_simps ReadUint16_def slice_mid)

interpretation u32_codec: codec "le_enc 4" WriteUint32 ReadUint32 "\<lambda>_. True"
  by unfold_locales (simp_all add: writer_simps ReadUint32_def slice_mid)

interpretation u64_codec: codec "le_enc 8" WriteUint64 ReadUint64 "\<lambda>_. True"
  by unfold_locales (simp_all add: writer_simps ReadUint64_def slice_mid)

interpretation i16_codec: codec "le_enc 2" WriteInt16 ReadInt16 "\<lambda>_. True"
  by unfold_locales (simp_all add: writer_simps ReadInt_conv ReadUint16_def slice_mid)

interpretation i32_codec: codec "le_enc 4" WriteInt32 ReadInt32 "\<lambda>_. True"
  by unfold_locales (simp_all add: writer_simps ReadInt_conv ReadUint32_def slice_mid)

interpretation i64_codec: codec "le_enc 8" WriteInt64 ReadInt64 "\<lambda>_. True"
  by unfold_locales (simp_all add: writer_simps ReadInt_conv ReadUint64_def slice_mid)

section \<open>Strings\<close>

text \<open>The strings the wire format can carry: well-formed UTF-8 without the null character.\<close>

definition wire_string :: "gostring \<Rightarrow> bool" where
  "wire_string s \<longleftrightarrow> utf8_enc (utf8_runes s) = s \<and> list_all (\<lambda>r. scalar r \<and> r \<noteq> 0) (utf8_runes s)"

lemma wire_string_utf8_enc: "list_all (\<lambda>r. scalar r \<and> r \<noteq> 0) rs \<Longrightarrow> wire_string (utf8_enc rs)"
  by (simp add: wire_string_def utf8_runes_enc list_all_iff)

definition string_enc :: "gostring \<Rightarrow> byte list" where
  "string_enc s = utf16_bytes (utf8_runes s) @ [0, 0]"

lemma units_of_le_enc: "units_of (concat (map (le_enc 2) us)) = us"
proof (induction us)
  case Nil
  then show ?case by simp
next
  case (Cons u us)
  have "(ucast (ucast u :: byte) OR push_bit 8 (ucast (ucast (drop_bit 8 u) :: byte))) = u"
    by (rule bit_word_eqI) (auto simp: bit_simps dest: bit_imp_le_length)
  with Cons show ?case by (simp add: numeral_2_eq_2)
qed

lemma le_enc_2_zero: "le_enc 2 u = [0, 0] \<longleftrightarrow> u = (0 :: uint16)"
  using le_enc_inject [of 2 u 0] by (simp add: numeral_2_eq_2)

lemma find_terminator_units:
  "\<forall>u \<in> set us. u \<noteq> (0 :: uint16) \<Longrightarrow>
   find_terminator i (concat (map (le_enc 2) us) @ 0 # 0 # rest) = Some (i + 2 * length us)"
proof (induction us arbitrary: i)
  case Nil
  then show ?case by simp
next
  case (Cons u us)
  obtain a b where ab: "le_enc 2 u = [a, b]" by (simp add: numeral_2_eq_2)
  with Cons.prems le_enc_2_zero [of u] have "\<not> (a = 0 \<and> b = 0)" by auto
  with ab Cons show ?case by simp
qed

lemma concat_le_enc_length: "length (concat (map (le_enc n) us)) = n * length us"
  by (induction us) simp_all

lemma ReadString_raw:
  assumes "find_terminator 0 (raw @ 0 # 0 # ys) = Some (length raw)"
  shows "ReadString \<lparr>rbuf = xs @ raw @ 0 # 0 # ys, rpos = length xs\<rparr>
    = Ok (utf8_enc (utf16_Decode (units_of raw)),
          \<lparr>rbuf = xs @ raw @ 0 # 0 # ys, rpos = length xs + (length raw + 2)\<rparr>)"
  using assms by (cases raw) (simp_all add: ReadString_def Let_def utf8_enc_def)

lemma ReadString_enc:
  assumes "wire_string s"
  shows "ReadString \<lparr>rbuf = xs @ string_enc s @ ys, rpos = length xs\<rparr>
    = Ok (s, \<lparr>rbuf = xs @ string_enc s @ ys, rpos = length xs + length (string_enc s)\<rparr>)"
proof -
  let ?us = "concat (map utf16_units (utf8_runes s))"
  let ?raw = "utf16_bytes (utf8_runes s)"
  have "\<forall>u \<in> set ?us. u \<noteq> 0"
    using assms by (auto simp: wire_string_def list_all_iff dest: utf16_units_nonzero)
  then have t: "find_terminator 0 (?raw @ 0 # 0 # ys) = Some (length ?raw)"
    unfolding utf16_bytes_def by (simp only: find_terminator_units concat_le_enc_length add_0)
  have "utf8_enc (utf16_Decode (units_of ?raw)) = s"
    using assms unfolding utf16_bytes_def
    by (simp only: units_of_le_enc) (simp add: wire_string_def utf16_Decode_enc list_all_iff)
  then show ?thesis
    using ReadString_raw [OF t, of xs] by (simp add: string_enc_def)
qed

interpretation string_codec: codec string_enc WriteString ReadString wire_string
proof
  show "wbuf (WriteString v w) = wbuf w @ string_enc v" for v w
    by (simp add: writer_simps string_enc_def)
qed (rule ReadString_enc)

text \<open>Skipping a string leaves the cursor where reading it would.\<close>

lemma SkipString_ReadString:
  "SkipString r = bind_outcome (ReadString r) (\<lambda>(_, r'). Ok ((), r'))"
  by (auto simp: SkipString_def ReadString_def Let_def split: option.splits)

section \<open>Properties\<close>

text \<open>
  C39: what the writer writes, the reader reads. A packet of a byte, the three integer widths and a
  string (well-formed UTF-8 without the null character), written behind anything and followed by
  anything, is read back value by value, and the cursor ends where the writer stopped.
\<close>

theorem fields_round_trip:
  assumes "wire_string str"
    and "w' = WriteString str (WriteInt64 q (WriteInt32 d (WriteInt16 h (WriteByte b w))))"
  shows "bind_outcome (ReadByte \<lparr>rbuf = wbuf w' @ rest, rpos = length (wbuf w)\<rparr>) (\<lambda>(b', r1).
     bind_outcome (ReadInt16 r1) (\<lambda>(h', r2).
     bind_outcome (ReadInt32 r2) (\<lambda>(d', r3).
     bind_outcome (ReadInt64 r3) (\<lambda>(q', r4).
     bind_outcome (ReadString r4) (\<lambda>(str', r5). Ok ((b', h', d', q', str'), r5))))))
   = Ok ((b, h, d, q, str), \<lparr>rbuf = wbuf w' @ rest, rpos = length (wbuf w')\<rparr>)"
proof -
  let ?pre = "wbuf w" and ?s = "string_enc str"
  have w': "wbuf w' = ?pre @ [b] @ le_enc 2 h @ le_enc 4 d @ le_enc 8 q @ ?s"
    by (simp add: assms(2) writer_simps string_enc_def)
  have "ReadByte \<lparr>rbuf = wbuf w' @ rest, rpos = length ?pre\<rparr>
      = Ok (b, \<lparr>rbuf = wbuf w' @ rest, rpos = length ?pre + 1\<rparr>)"
    using byte_codec.read_enc [where v = b and xs = "?pre" and ys = "le_enc 2 h @ le_enc 4 d @ le_enc 8 q @ ?s @ rest"] by (simp add: w')
  moreover have "ReadInt16 \<lparr>rbuf = wbuf w' @ rest, rpos = length ?pre + 1\<rparr>
      = Ok (h, \<lparr>rbuf = wbuf w' @ rest, rpos = length ?pre + 3\<rparr>)"
    using i16_codec.read_enc [where v = h and xs = "?pre @ [b]" and ys = "le_enc 4 d @ le_enc 8 q @ ?s @ rest"]
    by (simp add: w' del: le_enc.simps)
  moreover have "ReadInt32 \<lparr>rbuf = wbuf w' @ rest, rpos = length ?pre + 3\<rparr>
      = Ok (d, \<lparr>rbuf = wbuf w' @ rest, rpos = length ?pre + 7\<rparr>)"
    using i32_codec.read_enc [where v = d and xs = "?pre @ [b] @ le_enc 2 h" and ys = "le_enc 8 q @ ?s @ rest"]
    by (simp add: w' del: le_enc.simps)
  moreover have "ReadInt64 \<lparr>rbuf = wbuf w' @ rest, rpos = length ?pre + 7\<rparr>
      = Ok (q, \<lparr>rbuf = wbuf w' @ rest, rpos = length ?pre + 15\<rparr>)"
    using i64_codec.read_enc [where v = q and xs = "?pre @ [b] @ le_enc 2 h @ le_enc 4 d" and ys = "?s @ rest"]
    by (simp add: w' del: le_enc.simps)
  moreover have "ReadString \<lparr>rbuf = wbuf w' @ rest, rpos = length ?pre + 15\<rparr>
      = Ok (str, \<lparr>rbuf = wbuf w' @ rest, rpos = length (wbuf w')\<rparr>)"
    using ReadString_enc [OF assms(1), of "?pre @ [b] @ le_enc 2 h @ le_enc 4 d @ le_enc 8 q" rest]
    by (simp add: w' del: le_enc.simps)
  ultimately show ?thesis by simp
qed

theorem fields_round_trip_witness:
  "wire_string (utf8_enc [0x61, 0xE9, 0x1F600])
   \<and> bind_outcome (ReadByte \<lparr>rbuf = wbuf (WriteString (utf8_enc [0x61, 0xE9, 0x1F600])
         (WriteInt64 4 (WriteInt32 3 (WriteInt16 2 (WriteByte 1 newPacketWriter))))) @ [], rpos = 0\<rparr>)
       (\<lambda>(b', r1). bind_outcome (ReadInt16 r1) (\<lambda>(h', r2). bind_outcome (ReadInt32 r2) (\<lambda>(d', r3).
          bind_outcome (ReadInt64 r3) (\<lambda>(q', r4). bind_outcome (ReadString r4) (\<lambda>(str', r5).
            Ok ((b', h', d', q', str'), r5))))))
     = Ok ((1, 2, 3, 4, utf8_enc [0x61, 0xE9, 0x1F600]), \<lparr>rbuf = wbuf (WriteString (utf8_enc [0x61, 0xE9, 0x1F600])
         (WriteInt64 4 (WriteInt32 3 (WriteInt16 2 (WriteByte 1 newPacketWriter))))) @ [],
         rpos = length (wbuf (WriteString (utf8_enc [0x61, 0xE9, 0x1F600])
           (WriteInt64 4 (WriteInt32 3 (WriteInt16 2 (WriteByte 1 newPacketWriter))))))\<rparr>)"
proof -
  have s: "wire_string (utf8_enc [0x61, 0xE9, 0x1F600])"
    by (rule wire_string_utf8_enc) (simp add: scalar_def)
  have z: "wbuf newPacketWriter = []" by (simp add: newPacketWriter_def)
  show ?thesis
    using fields_round_trip [OF s refl, of 4 3 2 1 newPacketWriter "[]"] s z
    by (simp only: list.size)
qed

end
