(* ===== verification/Blowfish.thy ===== *)
theory Blowfish
  imports Blowfish_Tables
begin

unbundle bit_operations_syntax

text \<open>
  \<open>pkg/crypto/blowfish_cipher.go\<close>: the Blowfish block cipher with little-endian blocks in ECB
  mode. \<open>setKey\<close> is modelled in full (key mixing and the expansion of the P-array and the
  S-boxes by encrypting with the tables as they change), so a cipher of the model is the cipher
  of the code for every key. The lemmas show that the tables keep their shape, so that no index
  is out of range, and that decryption inverts encryption block by block and on whole ranges.
\<close>

record BlowfishCipher =
  pArray :: "uint32 list"
  sBoxes :: "uint32 list list"

section \<open>Blocks\<close>

definition f_box :: "BlowfishCipher \<Rightarrow> uint32 \<Rightarrow> uint32" where
  "f_box c x =
     (let a = (ucast (drop_bit 24 x) :: byte);
          b = (ucast (drop_bit 16 x) :: byte);
          idxC = (ucast (drop_bit 8 x) :: byte);
          d = (ucast x :: byte)
      in ((sBoxes c ! 0 ! unat a + sBoxes c ! 1 ! unat b) XOR sBoxes c ! 2 ! unat idxC)
           + sBoxes c ! 3 ! unat d)"

text \<open>One line of the unrolled Feistel network: \<open>y ^= c.f(x) ^ c.pArray[i]\<close>.\<close>

definition feistel :: "BlowfishCipher \<Rightarrow> nat \<Rightarrow> uint32 \<Rightarrow> uint32 \<Rightarrow> uint32" where
  "feistel c i x y = y XOR (f_box c x XOR pArray c ! i)"

definition encryptBlock :: "BlowfishCipher \<Rightarrow> uint32 \<Rightarrow> uint32 \<Rightarrow> uint32 \<times> uint32" where
  "encryptBlock c xl xr = (
     let xl = xl XOR pArray c ! 0;
         xr = feistel c 1 xl xr;
         xl = feistel c 2 xr xl;
         xr = feistel c 3 xl xr;
         xl = feistel c 4 xr xl;
         xr = feistel c 5 xl xr;
         xl = feistel c 6 xr xl;
         xr = feistel c 7 xl xr;
         xl = feistel c 8 xr xl;
         xr = feistel c 9 xl xr;
         xl = feistel c 10 xr xl;
         xr = feistel c 11 xl xr;
         xl = feistel c 12 xr xl;
         xr = feistel c 13 xl xr;
         xl = feistel c 14 xr xl;
         xr = feistel c 15 xl xr;
         xl = feistel c 16 xr xl;
         xr = xr XOR pArray c ! 17
     in (xr, xl))"

definition decryptBlock :: "BlowfishCipher \<Rightarrow> uint32 \<Rightarrow> uint32 \<Rightarrow> uint32 \<times> uint32" where
  "decryptBlock c xl xr = (
     let xl = xl XOR pArray c ! 17;
         xr = feistel c 16 xl xr;
         xl = feistel c 15 xr xl;
         xr = feistel c 14 xl xr;
         xl = feistel c 13 xr xl;
         xr = feistel c 12 xl xr;
         xl = feistel c 11 xr xl;
         xr = feistel c 10 xl xr;
         xl = feistel c 9 xr xl;
         xr = feistel c 8 xl xr;
         xl = feistel c 7 xr xl;
         xr = feistel c 6 xl xr;
         xl = feistel c 5 xr xl;
         xr = feistel c 4 xl xr;
         xl = feistel c 3 xr xl;
         xr = feistel c 2 xl xr;
         xl = feistel c 1 xr xl;
         xr = xr XOR pArray c ! 0
     in (xr, xl))"

lemma feistel_feistel [simp]: "feistel c i x (feistel c i x y) = y"
  by (simp add: feistel_def)

text \<open>
  The unrolled network is a sequence of rounds, each of which modifies the right half and swaps;
  running the rounds backwards on the swapped halves undoes them.
\<close>

fun rounds :: "BlowfishCipher \<Rightarrow> nat list \<Rightarrow> uint32 \<times> uint32 \<Rightarrow> uint32 \<times> uint32" where
  "rounds c [] lr = lr"
| "rounds c (i # is) (l, r) = rounds c is (feistel c i l r, l)"

lemma encryptBlock_rounds:
  "encryptBlock c xl xr =
     (case rounds c [1, 2, 3, 4, 5, 6, 7, 8, 9, 10, 11, 12, 13, 14, 15, 16] (xl XOR pArray c ! 0, xr)
      of (l, r) \<Rightarrow> (r XOR pArray c ! 17, l))"
  by (simp only: encryptBlock_def Let_def rounds.simps case_prod_conv)

lemma decryptBlock_rounds:
  "decryptBlock c xl xr =
     (case rounds c [16, 15, 14, 13, 12, 11, 10, 9, 8, 7, 6, 5, 4, 3, 2, 1] (xl XOR pArray c ! 17, xr)
      of (l, r) \<Rightarrow> (r XOR pArray c ! 0, l))"
  by (simp only: decryptBlock_def Let_def rounds.simps case_prod_conv)

lemma rounds_snoc:
  "rounds c (is @ [i]) lr = (case rounds c is lr of (l, r) \<Rightarrow> (feistel c i l r, l))"
  by (induction c "is" lr rule: rounds.induct) (simp_all split: prod.split)

lemma rounds_rev: "rounds c is lr = (l', r') \<Longrightarrow> rounds c (rev is) (r', l') = prod.swap lr"
proof (induction "is" arbitrary: l' r' rule: rev_induct)
  case Nil
  then show ?case by simp
next
  case (snoc i "is")
  obtain l r where lr: "rounds c is lr = (l, r)" by force
  with snoc.prems have "l' = feistel c i l r" "r' = l" by (auto simp: rounds_snoc)
  with snoc.IH [OF lr] show ?case by simp
qed

lemma decrypt_encryptBlock: "case_prod (decryptBlock c) (encryptBlock c xl xr) = (xl, xr)"
proof -
  let ?is = "[1, 2, 3, 4, 5, 6, 7, 8, 9, 10, 11, 12, 13, 14, 15, 16] :: nat list"
  obtain l r where lr: "rounds c ?is (xl XOR pArray c ! 0, xr) = (l, r)" by force
  have "rounds c (rev ?is) (r, l) = (xr, xl XOR pArray c ! 0)"
    using rounds_rev [OF lr] by (simp only: prod.swap_def fst_conv snd_conv)
  then show ?thesis
    by (simp add: encryptBlock_rounds decryptBlock_rounds lr One_nat_def [symmetric] del: rounds.simps One_nat_def)
qed

lemma encrypt_decryptBlock: "case_prod (encryptBlock c) (decryptBlock c xl xr) = (xl, xr)"
proof -
  let ?is = "[16, 15, 14, 13, 12, 11, 10, 9, 8, 7, 6, 5, 4, 3, 2, 1] :: nat list"
  obtain l r where lr: "rounds c ?is (xl XOR pArray c ! 17, xr) = (l, r)" by force
  have "rounds c (rev ?is) (r, l) = (xr, xl XOR pArray c ! 17)"
    using rounds_rev [OF lr] by (simp only: prod.swap_def fst_conv snd_conv)
  then show ?thesis
    by (simp add: encryptBlock_rounds decryptBlock_rounds lr One_nat_def [symmetric] del: rounds.simps One_nat_def)
qed

section \<open>Ranges\<close>

definition bytesToUint32LE :: "byte list \<Rightarrow> nat \<Rightarrow> uint32" where
  "bytesToUint32LE src offset = le_dec (take 4 (drop offset src))"

definition uint32ToBytesLE :: "uint32 \<Rightarrow> byte list \<Rightarrow> nat \<Rightarrow> byte list" where
  "uint32ToBytesLE val dst offset = put_at dst offset (le_enc 4 val)"

text \<open>The loop of the two range operations, over the block function it applies.\<close>

fun range_loop :: "(uint32 \<Rightarrow> uint32 \<Rightarrow> uint32 \<times> uint32) \<Rightarrow> nat \<Rightarrow> nat \<Rightarrow> byte list \<Rightarrow> byte list" where
  "range_loop blk 0 off data = data"
| "range_loop blk (Suc n) off data =
     (let xl = bytesToUint32LE data off;
          xr = bytesToUint32LE data (off + 4);
          (xl', xr') = blk xl xr;
          data' = uint32ToBytesLE xr' (uint32ToBytesLE xl' data off) (off + 4)
      in range_loop blk n (off + 8) data')"

definition CipherRange :: "BlowfishCipher \<Rightarrow> byte list \<Rightarrow> int \<Rightarrow> int \<Rightarrow> byte list" where
  "CipherRange c data offset len =
     (if offset < 0 \<or> len \<le> 0 \<or> offset + len > int (length data) then data
      else range_loop (encryptBlock c) (nat len div 8) (nat offset) data)"

definition DecipherRange :: "BlowfishCipher \<Rightarrow> byte list \<Rightarrow> int \<Rightarrow> int \<Rightarrow> byte list" where
  "DecipherRange c data offset len =
     (if offset < 0 \<or> len \<le> 0 \<or> offset + len > int (length data) then data
      else range_loop (decryptBlock c) (nat len div 8) (nat offset) data)"

section \<open>Keys\<close>

definition ZeroCipher :: "BlowfishCipher \<Rightarrow> BlowfishCipher" where
  "ZeroCipher c = \<lparr>pArray = map (\<lambda>_. 0) (pArray c), sBoxes = map (map (\<lambda>_. 0)) (sBoxes c)\<rparr>"

text \<open>Four key bytes from \<open>keyIndex\<close> on, most significant first, wrapping at the key's end.\<close>

fun key_word :: "byte list \<Rightarrow> nat \<Rightarrow> nat \<Rightarrow> uint32 \<Rightarrow> uint32 \<times> nat" where
  "key_word key 0 keyIndex data = (data, keyIndex)"
| "key_word key (Suc j) keyIndex data =
     (let data' = push_bit 8 data OR ucast (key ! keyIndex);
          keyIndex' = keyIndex + 1
      in key_word key j (if keyIndex' \<ge> length key then 0 else keyIndex') data')"

text \<open>The first loop of \<open>setKey\<close>, for the P-array entries that are left.\<close>

fun mix_key :: "byte list \<Rightarrow> nat \<Rightarrow> uint32 list \<Rightarrow> uint32 list" where
  "mix_key key keyIndex [] = []"
| "mix_key key keyIndex (p # ps) =
     (let (data, keyIndex') = key_word key 4 keyIndex 0
      in (p XOR data) # mix_key key keyIndex' ps)"

definition expand_p :: "nat \<Rightarrow> uint32 \<times> uint32 \<times> BlowfishCipher \<Rightarrow> uint32 \<times> uint32 \<times> BlowfishCipher" where
  "expand_p i s = (case s of (xl, xr, c) \<Rightarrow>
     let (xl', xr') = encryptBlock c xl xr
     in (xl', xr', c\<lparr>pArray := (pArray c)[2 * i := xl', 2 * i + 1 := xr']\<rparr>))"

definition expand_s :: "nat \<Rightarrow> nat \<Rightarrow> uint32 \<times> uint32 \<times> BlowfishCipher \<Rightarrow> uint32 \<times> uint32 \<times> BlowfishCipher" where
  "expand_s box i s = (case s of (xl, xr, c) \<Rightarrow>
     let (xl', xr') = encryptBlock c xl xr
     in (xl', xr', c\<lparr>sBoxes := (sBoxes c)[box := (sBoxes c ! box)[2 * i := xl', 2 * i + 1 := xr']]\<rparr>))"

definition setKey :: "byte list \<Rightarrow> BlowfishCipher" where
  "setKey key =
     (let c0 = \<lparr>pArray = parrayInit, sBoxes = [sboxInit0, sboxInit1, sboxInit2, sboxInit3]\<rparr>
      in if length key = 0 then c0
         else let c1 = c0\<lparr>pArray := mix_key key 0 (pArray c0)\<rparr>;
                  s1 = fold expand_p [0..<9] (0, 0, c1);
                  (xl, xr, c2) = fold (\<lambda>box. fold (expand_s box) [0..<128]) [0..<4] s1
              in c2)"

definition NewBlowfishCipher :: "byte list \<Rightarrow> BlowfishCipher" where
  "NewBlowfishCipher key = setKey key"

section \<open>Shape of the tables\<close>

definition wf_cipher :: "BlowfishCipher \<Rightarrow> bool" where
  "wf_cipher c \<longleftrightarrow> length (pArray c) = 18 \<and> length (sBoxes c) = 4 \<and> (\<forall>b < 4. length (sBoxes c ! b) = 256)"

lemma length_mix_key [simp]: "length (mix_key key k ps) = length ps"
  by (induction ps arbitrary: k) (simp_all add: Let_def split: prod.split)

lemma wf_expand_p: "wf_cipher (snd (snd s)) \<Longrightarrow> wf_cipher (snd (snd (expand_p i s)))"
  by (cases s) (simp add: expand_p_def wf_cipher_def split: prod.split)

lemma wf_expand_s: "wf_cipher (snd (snd s)) \<Longrightarrow> wf_cipher (snd (snd (expand_s b i s)))"
proof (cases s)
  case (fields xl xr c)
  obtain x y where "encryptBlock c xl xr = (x, y)" by force
  moreover assume "wf_cipher (snd (snd s))"
  ultimately show ?thesis
    using fields by (cases "b < 4") (auto simp: expand_s_def wf_cipher_def nth_list_update)
qed

lemma fold_inv: "(\<And>x s. P s \<Longrightarrow> P (g x s)) \<Longrightarrow> P s \<Longrightarrow> P (fold g xs s)"
  by (induction xs arbitrary: s) auto

lemma wf_NewBlowfishCipher: "wf_cipher (NewBlowfishCipher key)"
proof -
  let ?P = "\<lambda>s. wf_cipher (snd (snd s))"
  have tables: "length ([sboxInit0, sboxInit1, sboxInit2, sboxInit3] ! b) = 256" if "b < 4" for b
    using that by (auto simp: less_Suc_eq numeral_eq_Suc)
  then have init: "wf_cipher \<lparr>pArray = mix_key key 0 parrayInit, sBoxes = [sboxInit0, sboxInit1, sboxInit2, sboxInit3]\<rparr>"
    "wf_cipher \<lparr>pArray = parrayInit, sBoxes = [sboxInit0, sboxInit1, sboxInit2, sboxInit3]\<rparr>"
    by (auto simp: wf_cipher_def)
  have p: "?P (fold expand_p xs s)" if "?P s" for xs s
    using wf_expand_p that by (rule fold_inv)
  have s: "?P (fold (\<lambda>box. fold (expand_s box) ys) xs s)" if "?P s" for xs ys s
    by (rule fold_inv [where P = ?P]) (rule fold_inv [where P = ?P], rule wf_expand_s, assumption+, fact that)
  let ?c1 = "\<lparr>pArray = mix_key key 0 parrayInit, sBoxes = [sboxInit0, sboxInit1, sboxInit2, sboxInit3]\<rparr>"
  obtain xl xr c2 where fin:
    "fold (\<lambda>box. fold (expand_s box) [0..<128]) [0..<4] (fold expand_p [0..<9] (0, 0, ?c1)) = (xl, xr, c2)"
    by (metis prod_cases3)
  moreover have "wf_cipher c2"
    using s [OF p [of "(0, 0, ?c1)" "[0..<9]"], of "[0..<128]" "[0..<4]"] init(1) by (simp add: fin)
  ultimately show ?thesis
    using init(2) by (simp add: NewBlowfishCipher_def setKey_def Let_def)
qed

section \<open>Range operations are inverse to each other\<close>

text \<open>A block of eight bytes, and a range as a sequence of blocks.\<close>

definition block_of :: "(uint32 \<Rightarrow> uint32 \<Rightarrow> uint32 \<times> uint32) \<Rightarrow> byte list \<Rightarrow> byte list" where
  "block_of blk b = (case blk (le_dec (take 4 b)) (le_dec (drop 4 b)) of (x, y) \<Rightarrow> le_enc 4 x @ le_enc 4 y)"

fun blocks_of :: "(uint32 \<Rightarrow> uint32 \<Rightarrow> uint32 \<times> uint32) \<Rightarrow> nat \<Rightarrow> byte list \<Rightarrow> byte list" where
  "blocks_of blk 0 bs = bs"
| "blocks_of blk (Suc n) bs = block_of blk (take 8 bs) @ blocks_of blk n (drop 8 bs)"

lemma length_block_of [simp]: "length (block_of blk b) = 8"
  by (simp add: block_of_def split: prod.split)

lemma length_blocks_of: "8 * n \<le> length bs \<Longrightarrow> length (blocks_of blk n bs) = length bs"
  by (induction n arbitrary: bs) auto

lemma range_loop_blocks:
  "8 * n \<le> length ys \<Longrightarrow> range_loop blk n (length xs) (xs @ ys) = xs @ blocks_of blk n ys"
proof (induction n arbitrary: xs ys)
  case 0
  then show ?case by simp
next
  case (Suc n)
  define b1 b2 rest where "b1 = take 4 ys" and "b2 = take 4 (drop 4 ys)" and "rest = drop 8 ys"
  have ys: "ys = b1 @ b2 @ rest"
    using append_take_drop_id [of 4 ys] append_take_drop_id [of 4 "drop 4 ys"]
    by (simp add: b1_def b2_def rest_def)
  have len: "length b1 = 4" "length b2 = 4"
    using Suc.prems by (simp_all add: b1_def b2_def)
  obtain x y where xy: "blk (le_dec b1) (le_dec b2) = (x, y)" by force
  have p1: "put_at (xs @ b1 @ b2 @ rest) (length xs) (le_enc 4 x) = xs @ le_enc 4 x @ b2 @ rest"
    using put_at_append_right [of xs "b1 @ b2 @ rest" 0] len by (simp add: put_at_conv)
  have p2: "put_at (xs @ le_enc 4 x @ b2 @ rest) (length xs + 4) (le_enc 4 y)
      = xs @ le_enc 4 x @ le_enc 4 y @ rest"
    using put_at_append_right [of "xs @ le_enc 4 x" "b2 @ rest" 0] len by (simp add: put_at_conv)
  have blk: "block_of blk (take 8 ys) = le_enc 4 x @ le_enc 4 y"
    using xy len by (simp add: ys block_of_def)
  have "range_loop blk (Suc n) (length xs) (xs @ ys)
      = range_loop blk n (length (xs @ le_enc 4 x @ le_enc 4 y)) ((xs @ le_enc 4 x @ le_enc 4 y) @ rest)"
    using len xy p1 p2 by (simp add: ys bytesToUint32LE_def uint32ToBytesLE_def Let_def)
  also have "\<dots> = (xs @ le_enc 4 x @ le_enc 4 y) @ blocks_of blk n rest"
    by (rule Suc.IH) (use Suc.prems in \<open>simp add: rest_def\<close>)
  also have "\<dots> = xs @ blocks_of blk (Suc n) ys"
    by (simp add: blk rest_def)
  finally show ?case .
qed

lemma block_of_inverse:
  assumes "\<And>x y. case_prod g (f x y) = (x, y)" "length b = 8"
  shows "block_of g (block_of f b) = b"
proof -
  obtain x y where xy: "f (le_dec (take 4 b)) (le_dec (drop 4 b)) = (x, y)" by force
  with assms(1) have "g x y = (le_dec (take 4 b), le_dec (drop 4 b))" by (metis case_prod_conv)
  moreover have "le_enc 4 (le_dec (take 4 b) :: uint32) = take 4 b" "le_enc 4 (le_dec (drop 4 b) :: uint32) = drop 4 b"
    using le_enc_le_dec [of "take 4 b", where 'a = 32] le_enc_le_dec [of "drop 4 b", where 'a = 32] assms(2)
    by simp_all
  ultimately show ?thesis by (simp add: block_of_def xy)
qed

lemma blocks_of_inverse:
  assumes "\<And>x y. case_prod g (f x y) = (x, y)"
  shows "8 * n \<le> length bs \<Longrightarrow> blocks_of g n (blocks_of f n bs) = bs"
  by (induction n arbitrary: bs) (simp_all add: block_of_inverse [OF assms])

lemma range_loop_conv:
  "off + 8 * n \<le> length data \<Longrightarrow>
   range_loop blk n off data = take off data @ blocks_of blk n (drop off data)"
  using range_loop_blocks [of n "drop off data" blk "take off data"] by simp

lemma drop_blocks_of: "8 * n \<le> m \<Longrightarrow> drop m (blocks_of blk n bs) = drop m bs"
  by (induction n arbitrary: m bs) (simp_all add: drop_Cons')

lemma length_range_loop: "off + 8 * n \<le> length data \<Longrightarrow> length (range_loop blk n off data) = length data"
  by (simp add: range_loop_conv length_blocks_of)

lemma length_CipherRange [simp]: "length (CipherRange c data off len) = length data"
  "length (DecipherRange c data off len) = length data"
  unfolding CipherRange_def DecipherRange_def by (auto intro!: length_range_loop)

lemma range_loop_inverse:
  assumes "\<And>x y. case_prod g (f x y) = (x, y)" "off + 8 * n \<le> length data"
  shows "range_loop g n off (range_loop f n off data) = data"
  using assms(2) by (simp add: range_loop_conv length_blocks_of blocks_of_inverse [OF assms(1)])

lemma Decipher_CipherRange: "DecipherRange c (CipherRange c data off len) off len = data"
proof (cases "off < 0 \<or> len \<le> 0 \<or> off + len > int (length data)")
  case True
  then show ?thesis by (auto simp: DecipherRange_def CipherRange_def)
next
  case False
  then have "nat off + 8 * (nat len div 8) \<le> length data" by linarith
  then have "range_loop (decryptBlock c) (nat len div 8) (nat off)
      (range_loop (encryptBlock c) (nat len div 8) (nat off) data) = data"
    by (intro range_loop_inverse decrypt_encryptBlock)
  moreover have "length (range_loop (encryptBlock c) (nat len div 8) (nat off) data) = length data"
    by (rule length_range_loop) fact
  ultimately show ?thesis using False by (simp add: DecipherRange_def CipherRange_def)
qed

section \<open>Properties\<close>

text \<open>
  C31: decryption inverts encryption for every key. Whatever key the cipher was built from (the
  empty key leaves the initial tables), for every buffer, offset and length, in range or not, the tables have the
  sizes the block functions index, deciphering what was enciphered restores the buffer, and enciphering keeps the buffer's length and every
  byte outside the range.
\<close>

theorem cipher_round_trip:
  "let c = NewBlowfishCipher key; enc = CipherRange c data off len
   in wf_cipher c \<and> DecipherRange c enc off len = data \<and> length enc = length data
      \<and> take (nat off) enc = take (nat off) data
      \<and> drop (nat off + nat len) enc = drop (nat off + nat len) data"
proof -
  have out: "take (nat off) (CipherRange c data off len) = take (nat off) data"
    "drop (nat off + nat len) (CipherRange c data off len) = drop (nat off + nat len) data" for c
  proof -
    have b: "nat off + 8 * (nat len div 8) \<le> length data \<and> nat off + 8 * (nat len div 8) \<le> nat off + nat len"
      if "\<not> (off < 0 \<or> len \<le> 0 \<or> off + len > int (length data))" using that by linarith
    show "take (nat off) (CipherRange c data off len) = take (nat off) data"
      "drop (nat off + nat len) (CipherRange c data off len) = drop (nat off + nat len) data"
      using b by (auto simp: CipherRange_def range_loop_conv drop_blocks_of)
  qed
  show ?thesis by (simp add: Let_def Decipher_CipherRange out wf_NewBlowfishCipher)
qed

end
