(* ===== verification/Crypt.thy ===== *)
theory Crypt
  imports Blowfish Packet_Writer
begin

unbundle bit_operations_syntax

text \<open>
  \<open>internal/crypto/crypt.go\<close>: what happens to a packet between the writer and the wire. The
  payload (everything behind the two length bytes) is extended by a reserve and padded to whole
  Blowfish blocks; the first packet also gets a rolling XOR pass; then it is encrypted in place.

  \<open>dec_xor_pass\<close> is what the client has to do to undo the XOR pass, and \<open>client_decode\<close> the whole
  receiving side: specifications against which encryption is proved, not code of the server.
\<close>

record Crypt =
  cipher :: BlowfishCipher
  updatedKey :: bool

definition StaticKey :: "byte list" where
  "StaticKey = [0x6b, 0x60, 0xcb, 0x5b, 0x82, 0xce, 0x90, 0xb1, 0xcc, 0x2b, 0x6c, 0x55, 0x6c, 0x6c, 0x6c, 0x6c]"

definition staticCipher :: BlowfishCipher where
  "staticCipher = NewBlowfishCipher StaticKey"

definition NewCrypt :: "byte list \<Rightarrow> Crypt" where
  "NewCrypt key = \<lparr>cipher = NewBlowfishCipher key, updatedKey = False\<rparr>"

section \<open>The XOR pass\<close>

text \<open>The main loop: the bytes, the position and the running key it leaves.\<close>

function xor_loop :: "byte list \<Rightarrow> nat \<Rightarrow> nat \<Rightarrow> uint32 \<Rightarrow> byte list \<times> nat \<times> uint32" where
  "xor_loop raw pos stop ecx =
     (if pos < stop then
        let edx = le_dec (take 4 (drop pos raw));
            ecx' = ecx + edx;
            edx' = edx XOR ecx'
        in xor_loop (put_at raw pos (le_enc 4 edx')) (pos + 4) stop ecx'
      else (raw, pos, ecx))"
  by pat_completeness auto
termination
  by (relation "measure (\<lambda>(raw, pos, stop, ecx). stop - pos)") auto

declare xor_loop.simps [simp del]

text \<open>\<open>sz\<close> is a \<open>uint32\<close>: the two conversions to it are written out.\<close>

definition encXorPass :: "byte list \<Rightarrow> nat \<Rightarrow> uint32 \<Rightarrow> byte list" where
  "encXorPass raw sz key =
     (if length raw mod 2 ^ 32 < sz \<or> sz < 8 then raw
      else let (raw', pos, ecx) = xor_loop raw 4 (sz - 8) key
           in if pos + 4 \<le> length raw' mod 2 ^ 32 then put_at raw' pos (le_enc 4 ecx) else raw')"

section \<open>Encryption and decryption of packets\<close>

text \<open>
  \<open>xorKey\<close> is the value \<open>rand.Uint32()\<close> returns. The writer always holds its two length bytes,
  so the payload length is a natural number.
\<close>

definition Encrypt :: "uint32 \<Rightarrow> Crypt \<Rightarrow> PacketWriter \<Rightarrow> Crypt \<times> PacketWriter" where
  "Encrypt xorKey c w =
     (let payloadLen = length (wbuf w) - 2;
          reserve = (if \<not> updatedKey c then 16 else 12);
          w1 = Extend reserve w;
          payloadLen1 = payloadLen + reserve;
          pad = 8 - payloadLen1 mod 8;
          (w2, payloadLen2) = (if pad \<noteq> 8 then (Extend pad w1, payloadLen1 + pad) else (w1, payloadLen1));
          data = drop 2 (wbuf w2);
          (c', data') = (if \<not> updatedKey c
             then (c\<lparr>updatedKey := True\<rparr>, encXorPass data (payloadLen2 mod 2 ^ 32) xorKey)
             else (c, data));
          data'' = CipherRange (cipher c') data' 0 (int payloadLen2)
      in (c', w2\<lparr>wbuf := take 2 (wbuf w2) @ data''\<rparr>))"

definition Decrypt :: "Crypt \<Rightarrow> byte list \<Rightarrow> int \<Rightarrow> bool \<times> byte list" where
  "Decrypt c data sz =
     (if sz mod 8 \<noteq> 0 \<or> sz \<le> 0 then (False, data)
      else (True, DecipherRange (cipher c) data 0 sz))"

definition EncryptStatic :: "uint32 \<Rightarrow> PacketWriter \<Rightarrow> PacketWriter" where
  "EncryptStatic xorKey w =
     (let payloadLen = length (wbuf w) - 2;
          w1 = Extend 16 w;
          payloadLen1 = payloadLen + 16;
          pad = 8 - payloadLen1 mod 8;
          (w2, payloadLen2) = (if pad \<noteq> 8 then (Extend pad w1, payloadLen1 + pad) else (w1, payloadLen1));
          data = drop 2 (wbuf w2);
          data' = encXorPass data (payloadLen2 mod 2 ^ 32) xorKey
      in w2\<lparr>wbuf := take 2 (wbuf w2) @ CipherRange staticCipher data' 0 (int payloadLen2)\<rparr>)"

section \<open>The XOR pass is invertible\<close>

fun xor_words :: "uint32 \<Rightarrow> uint32 list \<Rightarrow> uint32 list" where
  "xor_words ecx [] = []"
| "xor_words ecx (w # ws) = (w XOR (ecx + w)) # xor_words (ecx + w) ws"

text \<open>Decoding runs backwards from the final key.\<close>

fun unxor_words :: "uint32 \<Rightarrow> uint32 list \<Rightarrow> uint32 list" where
  "unxor_words ecx [] = []"
| "unxor_words ecx (v # vs) = (v XOR ecx) # unxor_words (ecx - (v XOR ecx)) vs"

definition words_bytes :: "uint32 list \<Rightarrow> byte list" where
  "words_bytes ws = concat (map (le_enc 4) ws)"

fun bytes_words :: "byte list \<Rightarrow> uint32 list" where
  "bytes_words (a # b # c # d # bs) = le_dec [a, b, c, d] # bytes_words bs"
| "bytes_words _ = []"

definition dec_xor_pass :: "byte list \<Rightarrow> byte list" where
  "dec_xor_pass raw =
     (let n = length raw;
          ecx = le_dec (take 4 (drop (n - 8) raw));
          body = take (n - 12) (drop 4 raw)
      in take 4 raw @ words_bytes (rev (unxor_words ecx (rev (bytes_words body)))) @ drop (n - 8) raw)"

lemma length_xor_words [simp]: "length (xor_words ecx ws) = length ws"
  by (induction ws arbitrary: ecx) auto

lemma length_words_bytes [simp]: "length (words_bytes ws) = 4 * length ws"
  by (induction ws) (simp_all add: words_bytes_def)

lemma words_bytes_simps [simp]:
  "words_bytes [] = []" "words_bytes (w # ws) = le_enc 4 w @ words_bytes ws"
  by (simp_all add: words_bytes_def)

lemma bytes_words_bytes [simp]: "bytes_words (words_bytes ws) = ws"
proof (induction ws)
  case Nil
  then show ?case by simp
next
  case (Cons w ws)
  obtain a b c d where e: "le_enc 4 w = [a, b, c, d]" by (simp add: numeral_eq_Suc)
  have "le_dec [a, b, c, d] = w"
    using le_dec_le_enc [of 4 w] by (simp add: e)
  with Cons e show ?case by simp
qed

lemma words_bytes_words: "4 dvd length bs \<Longrightarrow> words_bytes (bytes_words bs) = bs"
proof (induction bs rule: bytes_words.induct)
  case (1 a b c d bs)
  then have "4 dvd length bs" by simp presburger
  moreover have l: "length [a, b, c, d] = 4" by simp
  have "le_enc 4 (le_dec [a, b, c, d] :: uint32) = [a, b, c, d]"
    using le_enc_le_dec [of "[a, b, c, d]", where 'a = 32] unfolding l
    by (simp del: le_dec.simps le_enc.simps)
  ultimately show ?case
    using 1 by (simp del: le_dec.simps)
qed (auto dest: dvd_imp_le)

lemma sum_list_unxor:
  "unxor_words (ecx + sum_list ws) (rev (xor_words ecx ws) @ vs) = rev ws @ unxor_words ecx vs"
proof (induction ws arbitrary: ecx vs)
  case Nil
  then show ?case by simp
next
  case (Cons w ws)
  have "unxor_words ((ecx + w) + sum_list ws) (rev (xor_words (ecx + w) ws) @ (w XOR (ecx + w)) # vs)
      = rev ws @ unxor_words (ecx + w) ((w XOR (ecx + w)) # vs)"
    by (rule Cons.IH)
  then show ?case by (simp add: add.assoc)
qed

lemma unxor_xor_words: "unxor_words (ecx + sum_list ws) (rev (xor_words ecx ws)) = rev ws"
  using sum_list_unxor [of ecx ws "[]"] by simp

lemma xor_loop_words:
  "xor_loop (xs @ words_bytes ws @ ys) (length xs) (length xs + 4 * length ws) ecx
     = (xs @ words_bytes (xor_words ecx ws) @ ys, length xs + 4 * length ws, ecx + sum_list ws)"
proof (induction ws arbitrary: xs ecx)
  case Nil
  then show ?case by (simp add: xor_loop.simps)
next
  case (Cons w ws)
  let ?e = "ecx + w" and ?v = "w XOR (ecx + w)"
  have put: "put_at (xs @ le_enc 4 w @ words_bytes ws @ ys) (length xs) (le_enc 4 ?v)
      = (xs @ le_enc 4 ?v) @ words_bytes ws @ ys"
    using put_at_append_right [of xs "le_enc 4 w @ words_bytes ws @ ys" 0] by (simp add: put_at_conv)
  have "xor_loop (xs @ words_bytes (w # ws) @ ys) (length xs) (length xs + 4 * length (w # ws)) ecx
      = xor_loop ((xs @ le_enc 4 ?v) @ words_bytes ws @ ys) (length (xs @ le_enc 4 ?v))
          (length (xs @ le_enc 4 ?v) + 4 * length ws) ?e"
    by (subst xor_loop.simps) (simp add: Let_def put add.assoc)
  also have "\<dots> = ((xs @ le_enc 4 ?v) @ words_bytes (xor_words ?e ws) @ ys,
      length (xs @ le_enc 4 ?v) + 4 * length ws, ?e + sum_list ws)"
    by (rule Cons.IH)
  finally show ?case by (simp add: add.assoc)
qed

text \<open>What the pass does to a payload of whole words: first word, body, two last words.\<close>

lemma encXorPass_words:
  assumes "length a = 4" "length b = 4" "length d = 4" "8 + 4 * length ws + 4 < 2 ^ 32"
  shows "encXorPass (a @ words_bytes ws @ b @ d) (12 + 4 * length ws) key
    = a @ words_bytes (xor_words key ws) @ le_enc 4 (key + sum_list ws) @ d"
proof -
  have loop: "xor_loop (a @ words_bytes ws @ b @ d) 4 (4 + 4 * length ws) key
      = (a @ words_bytes (xor_words key ws) @ b @ d, 4 + 4 * length ws, key + sum_list ws)"
    using xor_loop_words [of a ws "b @ d" key] assms(1) by simp
  have put: "put_at (a @ words_bytes (xor_words key ws) @ b @ d) (4 + 4 * length ws) (le_enc 4 (key + sum_list ws))
      = a @ words_bytes (xor_words key ws) @ le_enc 4 (key + sum_list ws) @ d"
    using put_at_append_right [of "a @ words_bytes (xor_words key ws)" "b @ d" 0] assms
    by (simp add: put_at_conv)
  show ?thesis
    using assms by (simp add: encXorPass_def loop put)
qed

lemma split_payload:
  assumes "12 \<le> length raw" "4 dvd length raw"
  obtains a ws b d where "raw = a @ words_bytes ws @ b @ d"
    "length a = 4" "length b = 4" "length d = 4" "length raw = 12 + 4 * length ws"
proof -
  define n where "n = length raw"
  define body where "body = take (n - 12) (drop 4 raw)"
  have len: "length body = n - 12" using assms by (simp add: body_def n_def)
  have "4 dvd n - 12" using assms by (simp add: n_def dvd_diff_nat)
  then have body: "words_bytes (bytes_words body) = body" by (intro words_bytes_words) (simp add: len)
  have "raw = take 4 raw @ body @ take 4 (drop (n - 8) raw) @ drop (n - 4) raw"
  proof -
    have "drop (n - 12) (drop 4 raw) = drop (n - 8) raw" using assms by (simp add: n_def)
    moreover have "drop 4 (drop (n - 8) raw) = drop (n - 4) raw" using assms by (simp add: n_def)
    ultimately show ?thesis
      by (metis append_take_drop_id body_def)
  qed
  then show thesis
    using assms len body length_words_bytes [of "bytes_words body"]
    by (intro that [of "take 4 raw" "bytes_words body" "take 4 (drop (n - 8) raw)" "drop (n - 4) raw"])
      (simp_all add: n_def)
qed

lemma dec_enc_xor_pass:
  assumes "12 \<le> length raw" "4 dvd length raw" "length raw < 2 ^ 32"
  shows "\<exists>k. dec_xor_pass (encXorPass raw (length raw) key) = put_at raw (length raw - 8) (le_enc 4 (k :: uint32))"
proof -
  from assms(1,2) obtain a ws b d where raw: "raw = a @ words_bytes ws @ b @ d"
    and len: "length a = 4" "length b = 4" "length d = 4" and n: "length raw = 12 + 4 * length ws"
    by (rule split_payload)
  let ?k = "key + sum_list ws"
  have enc: "encXorPass raw (length raw) key = a @ words_bytes (xor_words key ws) @ le_enc 4 ?k @ d"
    using encXorPass_words [OF len, of ws key] assms(3) unfolding n by (simp add: raw)
  have "dec_xor_pass (a @ words_bytes (xor_words key ws) @ le_enc 4 ?k @ d)
      = a @ words_bytes ws @ le_enc 4 ?k @ d"
    using len by (simp add: dec_xor_pass_def Let_def unxor_xor_words)
  moreover have "put_at raw (length raw - 8) (le_enc 4 ?k) = a @ words_bytes ws @ le_enc 4 ?k @ d"
    using put_at_append_right [of "a @ words_bytes ws" "b @ d" 0 "le_enc 4 ?k"] len n
    by (simp add: raw put_at_conv)
  ultimately show ?thesis using enc by metis
qed

lemma length_xor_loop: "length (fst (xor_loop raw pos stop ecx)) = length raw"
proof (induction raw pos stop ecx rule: xor_loop.induct)
  case (1 raw pos stop ecx)
  then show ?case by (subst xor_loop.simps) (simp add: Let_def)
qed

lemma length_encXorPass [simp]: "length (encXorPass raw sz key) = length raw"
  using length_xor_loop [of raw 4 "sz - 8" key]
  by (auto simp: encXorPass_def split: prod.splits)

section \<open>Packets survive encryption\<close>

text \<open>The writer after the reserve and the padding, and encryption in terms of it.\<close>

definition pad_writer :: "nat \<Rightarrow> PacketWriter \<Rightarrow> PacketWriter" where
  "pad_writer reserve w =
     (let pad = 8 - (length (wbuf w) - 2 + reserve) mod 8; w1 = Extend reserve w
      in if pad \<noteq> 8 then Extend pad w1 else w1)"

lemma pad_writer_length:
  "2 \<le> length (wbuf w) \<Longrightarrow>
   length (wbuf (pad_writer r w)) - 2 =
     (let p = length (wbuf w) - 2 + r; pad = 8 - p mod 8 in if pad \<noteq> 8 then p + pad else p)"
  by (simp add: pad_writer_def Let_def)

lemma pad_writer_wbuf:
  assumes "2 \<le> length (wbuf w)"
  obtains stale where "wbuf (pad_writer reserve w) = wbuf w @ stale" "reserve \<le> length stale"
    "length stale < reserve + 8" "8 dvd length (wbuf (pad_writer reserve w)) - 2"
proof -
  let ?p = "length (wbuf w) - 2 + reserve"
  obtain s1 where s1: "wbuf (Extend reserve w) = wbuf w @ s1" "length s1 = reserve"
    by (rule Extend_wbuf)
  obtain s2 where s2: "wbuf (Extend (8 - ?p mod 8) (Extend reserve w)) = wbuf (Extend reserve w) @ s2"
    "length s2 = 8 - ?p mod 8"
    by (rule Extend_wbuf)
  show thesis
  proof (cases "?p mod 8 = 0")
    case True
    with s1 assms show thesis
      by (intro that [of s1]) (auto simp: pad_writer_def Let_def)
  next
    case False
    have ne: "8 - ?p mod 8 \<noteq> 8" using False by arith
    have "?p + (8 - ?p mod 8) = (?p - ?p mod 8) + 8"
      using mod_less_eq_dividend [of ?p 8] mod_less_divisor [of 8 ?p] by linarith
    then have "8 dvd ?p + (8 - ?p mod 8)"
      by (simp only: dvd_add_triv_right_iff dvd_minus_mod)
    moreover have "length (wbuf (pad_writer reserve w)) - 2 = ?p + (8 - ?p mod 8)"
      using ne assms by (simp add: pad_writer_length Let_def)
    moreover have "wbuf (pad_writer reserve w) = wbuf w @ s1 @ s2"
      using ne s1(1) s2(1) by (simp add: pad_writer_def Let_def)
    moreover have "length (s1 @ s2) < reserve + 8" "reserve \<le> length (s1 @ s2)"
      using False s1(2) s2(2) by auto
    ultimately show thesis by (intro that [of "s1 @ s2"]) simp_all
  qed
qed

lemma Encrypt_conv:
  assumes "2 \<le> length (wbuf w)"
  shows "Encrypt k c w =
    (c\<lparr>updatedKey := True\<rparr>,
     let w2 = pad_writer (if updatedKey c then 12 else 16) w; data = drop 2 (wbuf w2)
     in w2\<lparr>wbuf := take 2 (wbuf w2) @ CipherRange (cipher c)
          (if updatedKey c then data else encXorPass data (length data mod 2 ^ 32) k) 0 (int (length data))\<rparr>)"
  using pad_writer_length [OF assms]
  by (cases "updatedKey c") (auto simp: Encrypt_def pad_writer_def Let_def)

lemma EncryptStatic_conv:
  assumes "2 \<le> length (wbuf w)"
  shows "EncryptStatic k w = snd (Encrypt k \<lparr>cipher = staticCipher, updatedKey = False\<rparr> w)"
  using pad_writer_length [OF assms]
  unfolding Encrypt_conv [OF assms] by (auto simp: EncryptStatic_def pad_writer_def Let_def)

definition client_decode :: "BlowfishCipher \<Rightarrow> bool \<Rightarrow> byte list \<Rightarrow> byte list" where
  "client_decode c first data =
     (let d = DecipherRange c data 0 (int (length data)) in if first then dec_xor_pass d else d)"

lemma client_decode_prefix:
  assumes "8 dvd length data" "n + 12 \<le> length data" "length data < 2 ^ 32" "first \<Longrightarrow> n + 16 \<le> length data"
  shows "take n (client_decode c first (CipherRange c
     (if first then encXorPass data (length data mod 2 ^ 32) k else data) 0 (int (length data)))) = take n data"
proof (cases first)
  case True
  have "12 \<le> length data" "4 dvd length data" using assms(1,2) by (auto elim: dvd_trans [rotated])
  then obtain k' :: uint32 where "dec_xor_pass (encXorPass data (length data) k)
      = put_at data (length data - 8) (le_enc 4 k')"
    using dec_enc_xor_pass assms(3) by blast
  moreover have "take n (put_at data (length data - 8) (le_enc 4 k')) = take n data"
    using assms(2) True assms(4) by (simp add: put_at_conv)
  ultimately show ?thesis
    using True assms(3) Decipher_CipherRange by (simp add: client_decode_def Let_def)
next
  case False
  then show ?thesis by (simp add: client_decode_def Let_def Decipher_CipherRange)
qed

section \<open>Properties\<close>

lemma Encrypt_correct:
  assumes "2 \<le> length (wbuf w)" "length (wbuf w) \<le> 65535" "Encrypt k c w = (c', w')"
  shows "take 2 (wbuf w') = take 2 (wbuf w) \<and> 8 dvd length (wbuf w') - 2
    \<and> length (wbuf w') < length (wbuf w) + 24 \<and> cipher c' = cipher c \<and> updatedKey c'
    \<and> take (length (wbuf w) - 2) (client_decode (cipher c) (\<not> updatedKey c) (drop 2 (wbuf w'))) = drop 2 (wbuf w)"
proof -
  define r :: nat where "r = (if updatedKey c then 12 else 16)"
  obtain stale where st: "wbuf (pad_writer r w) = wbuf w @ stale" "r \<le> length stale" "length stale < r + 8"
    "8 dvd length (wbuf (pad_writer r w)) - 2"
    using assms(1) by (rule pad_writer_wbuf)
  define data where "data = drop 2 (wbuf w) @ stale"
  define out where "out = CipherRange (cipher c)
    (if \<not> updatedKey c then encXorPass data (length data mod 2 ^ 32) k else data) 0 (int (length data))"
  have d: "drop 2 (wbuf (pad_writer r w)) = data" "take 2 (wbuf (pad_writer r w)) = take 2 (wbuf w)"
    using assms(1) by (simp_all add: st(1) data_def)
  have w': "wbuf w' = take 2 (wbuf w) @ out" and c': "c' = c\<lparr>updatedKey := True\<rparr>"
    using assms(3) unfolding Encrypt_conv [OF assms(1)] r_def [symmetric] Let_def d
    by (auto simp: out_def)
  have len: "8 dvd length data" "length out = length data"
    using st(1,4) assms(1) by (simp_all add: data_def out_def)
  have "take (length (wbuf w) - 2) (client_decode (cipher c) (\<not> updatedKey c) out)
      = take (length (wbuf w) - 2) data"
    unfolding out_def using st(2,3) assms(1,2) len(1)
    by (intro client_decode_prefix) (simp_all add: data_def r_def split: if_splits)
  moreover have "length (wbuf w') < length (wbuf w) + 24"
    using w' len(2) st(3) assms(1) by (simp add: data_def r_def split: if_splits)
  ultimately show ?thesis using w' c' len assms(1) by (simp add: data_def)
qed

text \<open>
  C30: encryption of a packet is correct. For every packet that fits the wire format, the length
  bytes are left alone, the encrypted part is a whole number of Blowfish blocks and
  at most 23 bytes longer than the payload, the cipher is kept
  and marked as used, and a client holding the same key (which undoes the rolling XOR pass on the
  first packet only) gets back the payload as a prefix of what it decodes.
\<close>

theorem client_recovers_packet:
  assumes "2 \<le> length (wbuf w)" "length (wbuf w) \<le> 65535" "Encrypt k c w = (c', w')"
  shows "take 2 (wbuf w') = take 2 (wbuf w) \<and> 8 dvd length (wbuf w') - 2
    \<and> length (wbuf w') < length (wbuf w) + 24 \<and> cipher c' = cipher c \<and> updatedKey c'
    \<and> take (length (wbuf w) - 2) (client_decode (cipher c) (\<not> updatedKey c) (drop 2 (wbuf w'))) = drop 2 (wbuf w)"
  using assms by (rule Encrypt_correct)

theorem client_recovers_packet_witness:
  "\<exists>c' w'. Encrypt 5 (NewCrypt StaticKey) \<lparr>wbuf = [0, 0, 0x0B, 1, 2], wspare = [9, 9]\<rparr> = (c', w')
     \<and> take 3 (client_decode (NewBlowfishCipher StaticKey) True (drop 2 (wbuf w'))) = [0x0B, 1, 2]"
proof -
  let ?w = "\<lparr>wbuf = [0, 0, 0x0B, 1, 2], wspare = [9, 9]\<rparr> :: PacketWriter"
  obtain c' w' where e: "Encrypt 5 (NewCrypt StaticKey) ?w = (c', w')" by force
  show ?thesis
    using client_recovers_packet [OF _ _ e] e by (auto simp: NewCrypt_def numeral_3_eq_3)
qed

text \<open>
  What the padding of a packet carries. After the first packet, a client decodes exactly the
  payload followed by the reserve and padding bytes, and these are the bytes that were in the
  spare part of the (pooled) buffer: neither \<open>Encrypt\<close> nor the cipher overwrites them with a
  checksum or zeros.
\<close>

theorem padding_is_pool_memory:
  assumes "updatedKey c" "2 \<le> length (wbuf w)" "20 \<le> length (wspare w)"
  shows "client_decode (cipher c) False (drop 2 (wbuf (snd (Encrypt k c w))))
    = drop 2 (wbuf w) @ take (12 + (8 - (length (wbuf w) + 10) mod 8) mod 8) (wspare w)"
proof -
  have p: "length (wbuf w) - 2 + 12 = length (wbuf w) + 10" using assms(2) by simp
  have "wbuf (pad_writer 12 w) = wbuf w @ take (12 + (8 - (length (wbuf w) + 10) mod 8) mod 8) (wspare w)"
  proof (cases "(length (wbuf w) + 10) mod 8 = 0")
    case True
    then show ?thesis
      using assms by (simp add: pad_writer_def p Let_def Extend_def Reserve_def reslice_def)
  next
    case False
    define n where "n = 8 - (length (wbuf w) + 10) mod 8"
    have "n \<noteq> 8" "n \<le> 8" "n mod 8 = n" using False by (auto simp: n_def)
    then show ?thesis
      unfolding n_def [symmetric] pad_writer_def p Let_def
      using assms by (simp add: Extend_def Reserve_def reslice_def take_add)
  qed
  then show ?thesis
    using assms by (simp add: Encrypt_conv client_decode_def Let_def Decipher_CipherRange)
qed

theorem padding_is_pool_memory_witness:
  "\<exists>c w. client_decode (cipher c) False (drop 2 (wbuf (snd (Encrypt 0 c w)))) = [0x0B] @ replicate 15 42"
proof -
  let ?c = "\<lparr>cipher = NewBlowfishCipher StaticKey, updatedKey = True\<rparr>"
  let ?w = "\<lparr>wbuf = [0, 0, 0x0B], wspare = replicate 20 42\<rparr> :: PacketWriter"
  have "client_decode (cipher ?c) False (drop 2 (wbuf (snd (Encrypt 0 ?c ?w)))) = [0x0B] @ replicate 15 42"
    by (subst padding_is_pool_memory) simp_all
  then show ?thesis by blast
qed

end
