(* ===== verification/Session_Key.thy ===== *)
theory Session_Key
  imports L2_Prelude
begin

unbundle bit_operations_syntax

text \<open>
  \<open>pkg/crypto/session_key.go\<close> and \<open>pkg/crypto/blowfish_key.go\<close>: the four session identifiers a
  client has to present on its way to the game server, and the pools of Blowfish keys. The random
  source is a parameter: what \<open>rand.Read\<close> delivered, or \<open>None\<close> when it failed.
\<close>

record SessionKey =
  LoginOkID1 :: int32
  LoginOkID2 :: int32
  PlayOkID1 :: int32
  PlayOkID2 :: int32

definition GenerateSessionKey :: "byte list option \<Rightarrow> SessionKey outcome" where
  "GenerateSessionKey rnd = (case rnd of
     None \<Rightarrow> Error ErrRandom
   | Some b \<Rightarrow> Ok \<lparr>LoginOkID1 = le_dec (take 4 b), LoginOkID2 = le_dec (take 4 (drop 4 b)),
                  PlayOkID1 = le_dec (take 4 (drop 8 b)), PlayOkID2 = le_dec (take 4 (drop 12 b))\<rparr>)"

text \<open>Both checks fold all differences into one word before they look at it.\<close>

definition CheckLoginPair :: "SessionKey \<Rightarrow> int32 \<Rightarrow> int32 \<Rightarrow> bool" where
  "CheckLoginPair s loginOK01 loginOK02 =
     (let diff = (LoginOkID1 s XOR loginOK01) OR (LoginOkID2 s XOR loginOK02) in diff = 0)"

definition CheckPlayPair :: "SessionKey \<Rightarrow> int32 \<Rightarrow> int32 \<Rightarrow> int32 \<Rightarrow> int32 \<Rightarrow> bool" where
  "CheckPlayPair s loginOK01 loginOK02 playOK01 playOK02 =
     (let diff = (LoginOkID1 s XOR loginOK01) OR (LoginOkID2 s XOR loginOK02)
                 OR (PlayOkID1 s XOR playOK01) OR (PlayOkID2 s XOR playOK02)
      in diff = 0)"

lemma CheckLoginPair_iff:
  "CheckLoginPair s a b \<longleftrightarrow> a = LoginOkID1 s \<and> b = LoginOkID2 s"
  by (auto simp: CheckLoginPair_def or_eq_0_iff xor_zero_iff)

lemma CheckPlayPair_iff:
  "CheckPlayPair s a b p q \<longleftrightarrow> s = \<lparr>LoginOkID1 = a, LoginOkID2 = b, PlayOkID1 = p, PlayOkID2 = q\<rparr>"
  by (cases s) (auto simp: CheckPlayPair_def or_eq_0_iff xor_zero_iff)

text \<open>Distinct draws give distinct keys: no entropy of the sixteen bytes is lost.\<close>

lemma GenerateSessionKey_inj:
  assumes "length b = 16" "length b' = 16" "GenerateSessionKey (Some b) = GenerateSessionKey (Some b')"
  shows "b = b'"
proof -
  have chunk: "take 4 (drop i b) = take 4 (drop i b')"
    if "i \<le> 12" "le_dec (take 4 (drop i b)) = (le_dec (take 4 (drop i b')) :: int32)" for i
    using le_enc_le_dec [of "take 4 (drop i b)", where 'a = 32] that assms(1,2)
      le_enc_le_dec [of "take 4 (drop i b')", where 'a = 32] by simp
  have split: "xs = take 4 xs @ take 4 (drop 4 xs) @ take 4 (drop 8 xs) @ take 4 (drop 12 xs)"
    if "length xs = 16" for xs :: "byte list"
  proof -
    have "xs = take 4 xs @ take 4 (drop 4 xs) @ take 4 (drop 4 (drop 4 xs))
        @ take 4 (drop 4 (drop 4 (drop 4 xs))) @ drop 4 (drop 4 (drop 4 (drop 4 xs)))"
      by (simp only: append_take_drop_id)
    with that show ?thesis by simp
  qed
  show ?thesis
    using assms(3) chunk [of 0] chunk [of 4] chunk [of 8] chunk [of 12] split [OF assms(1)] split [OF assms(2)]
    by (simp add: GenerateSessionKey_def)
qed

section \<open>Blowfish key pools\<close>

definition cryptKeysSize :: nat where
  "cryptKeysSize = 20"

definition suffixKey :: "byte list" where
  "suffixKey = [0xc8, 0x27, 0x93, 0x01, 0xa1, 0x6c, 0x31, 0x97]"

text \<open>\<open>uint(idx) % uint(cryptKeysSize)\<close>: a negative index is read as its 64-bit pattern.\<close>

definition GetRandomBlowFishKey :: "byte list list \<Rightarrow> int64 \<Rightarrow> byte list" where
  "GetRandomBlowFishKey loginCryptKeys idx = loginCryptKeys ! (unat idx mod cryptKeysSize)"

definition GenerateLoginBlowFishKeys :: "byte list option \<Rightarrow> byte list list outcome" where
  "GenerateLoginBlowFishKeys rnd = (case rnd of
     None \<Rightarrow> Panic
   | Some entropy \<Rightarrow> Ok (map (\<lambda>i. take 16 (drop (i * 16) entropy)) [0..<cryptKeysSize]))"

definition GetRandomGameBlowFishKey :: "byte list list \<Rightarrow> int64 \<Rightarrow> byte list" where
  "GetRandomGameBlowFishKey gameCryptKeys idx = gameCryptKeys ! (unat idx mod cryptKeysSize)"

definition GenerateGameBlowFishKeys :: "byte list option \<Rightarrow> byte list list outcome" where
  "GenerateGameBlowFishKeys rnd = (case rnd of
     None \<Rightarrow> Panic
   | Some entropy \<Rightarrow> Ok (map (\<lambda>i. take 8 (drop (i * 8) entropy) @ suffixKey) [0..<cryptKeysSize]))"

text \<open>A pool in use holds twenty keys of sixteen bytes, and every lookup yields one of them.\<close>

definition wf_keys :: "byte list list \<Rightarrow> bool" where
  "wf_keys ks \<longleftrightarrow> length ks = cryptKeysSize \<and> list_all (\<lambda>k. length k = 16) ks"

lemma wf_GenerateLoginBlowFishKeys:
  "length entropy = cryptKeysSize * 16 \<Longrightarrow> GenerateLoginBlowFishKeys (Some entropy) = Ok ks \<Longrightarrow> wf_keys ks"
  by (auto simp: GenerateLoginBlowFishKeys_def wf_keys_def list_all_iff cryptKeysSize_def)

lemma wf_GenerateGameBlowFishKeys:
  "length entropy = cryptKeysSize * 8 \<Longrightarrow> GenerateGameBlowFishKeys (Some entropy) = Ok ks \<Longrightarrow> wf_keys ks"
  by (auto simp: GenerateGameBlowFishKeys_def wf_keys_def list_all_iff cryptKeysSize_def suffixKey_def)

lemma GetRandomBlowFishKey_in: "wf_keys ks \<Longrightarrow> GetRandomBlowFishKey ks idx \<in> set ks"
  by (simp add: GetRandomBlowFishKey_def wf_keys_def cryptKeysSize_def)

lemma length_GetRandomBlowFishKey: "wf_keys ks \<Longrightarrow> length (GetRandomBlowFishKey ks idx) = 16"
  using GetRandomBlowFishKey_in by (fastforce simp: wf_keys_def list_all_iff)

section \<open>Properties\<close>

text \<open>
  The pair checks accept exactly the identifiers of the key, and a generated key is faithful to
  its random bytes. For keys drawn from sixteen random bytes each, presenting the identifiers of one
  key against the other is accepted only if the random bytes were the same.
\<close>

theorem session_key_checks:
  assumes "length b = 16" "length b' = 16"
    and "GenerateSessionKey (Some b) = Ok s" "GenerateSessionKey (Some b') = Ok s'"
  shows "(CheckPlayPair s (LoginOkID1 s') (LoginOkID2 s') (PlayOkID1 s') (PlayOkID2 s') \<longleftrightarrow> b = b')
    \<and> (CheckLoginPair s (LoginOkID1 s') (LoginOkID2 s') \<longleftrightarrow> take 8 b = take 8 b')"
proof -
  have "CheckPlayPair s (LoginOkID1 s') (LoginOkID2 s') (PlayOkID1 s') (PlayOkID2 s') \<longleftrightarrow> s = s'"
    by (cases s') (simp add: CheckPlayPair_iff)
  moreover have "s = s' \<longleftrightarrow> b = b'"
    using GenerateSessionKey_inj [OF assms(1,2)] assms(3,4) by auto
  moreover have "CheckLoginPair s (LoginOkID1 s') (LoginOkID2 s') \<longleftrightarrow> take 8 b = take 8 b'"
  proof -
    have d: "le_dec (take 4 xs) = (le_dec (take 4 ys) :: int32) \<longleftrightarrow> take 4 xs = take 4 ys"
      if "4 \<le> length xs" "4 \<le> length ys" for xs ys
    proof
      assume e: "le_dec (take 4 xs) = (le_dec (take 4 ys) :: int32)"
      have "length (take 4 xs) = 4" "length (take 4 ys) = 4" using that by simp_all
      then show "take 4 xs = take 4 ys"
        using le_enc_le_dec [of "take 4 xs", where 'a = 32] le_enc_le_dec [of "take 4 ys", where 'a = 32] e
        by (simp del: length_take)
    qed simp
    have t: "take 8 xs = take 4 xs @ take 4 (drop 4 xs)" for xs :: "byte list"
      using take_add [of 4 4 xs] by simp
    have "CheckLoginPair s (LoginOkID1 s') (LoginOkID2 s') \<longleftrightarrow>
        le_dec (take 4 b) = (le_dec (take 4 b') :: int32)
        \<and> le_dec (take 4 (drop 4 b)) = (le_dec (take 4 (drop 4 b')) :: int32)"
      using assms(3,4) by (auto simp: CheckLoginPair_iff GenerateSessionKey_def)
    also have "\<dots> \<longleftrightarrow> take 4 b = take 4 b' \<and> take 4 (drop 4 b) = take 4 (drop 4 b')"
      using d [of b b'] d [of "drop 4 b" "drop 4 b'"] assms(1,2) by simp
    also have "\<dots> \<longleftrightarrow> take 8 b = take 8 b'"
      unfolding t using assms(1,2) by (simp add: append_eq_append_conv)
    finally show ?thesis .
  qed
  ultimately show ?thesis by simp
qed

theorem session_key_checks_witness:
  "\<exists>s s'. GenerateSessionKey (Some (replicate 16 7)) = Ok s \<and> GenerateSessionKey (Some (replicate 8 7 @ replicate 8 0)) = Ok s'
    \<and> \<not> CheckPlayPair s (LoginOkID1 s') (LoginOkID2 s') (PlayOkID1 s') (PlayOkID2 s')
    \<and> CheckLoginPair s (LoginOkID1 s') (LoginOkID2 s')"
proof -
  obtain s where s: "GenerateSessionKey (Some (replicate 16 7)) = Ok s" by (simp add: GenerateSessionKey_def)
  obtain s' where s': "GenerateSessionKey (Some (replicate 8 7 @ replicate 8 0)) = Ok s'"
    by (simp add: GenerateSessionKey_def)
  have "replicate 16 (7 :: byte) ! 15 \<noteq> (replicate 8 7 @ replicate 8 0) ! 15"
    by (simp add: nth_append)
  then have "replicate 16 (7 :: byte) \<noteq> replicate 8 7 @ replicate 8 0"
    by metis
  moreover have "take 8 (replicate 16 (7 :: byte)) = take 8 (replicate 8 7 @ replicate 8 0)"
    by simp
  ultimately show ?thesis
    using session_key_checks [OF _ _ s s'] s s' by (metis length_append length_replicate numeral_Bit0)
qed

end
