(* ===== verification/Number_Facts.thy ===== *)
theory Number_Facts
  imports Complex_Main
begin

text \<open>
  The number theory behind RSA decryption with the Chinese remainder theorem: Fermat's little
  theorem for a prime modulus, in the form in which an exponent that is one modulo \<open>p - 1\<close> acts as
  the identity, and the recombination of two residues.
\<close>

definition is_prime :: "nat \<Rightarrow> bool" where
  "is_prime p \<longleftrightarrow> 1 < p \<and> (\<forall>k < p. k dvd p \<longrightarrow> k = 1)"

lemma is_prime_coprime:
  assumes "is_prime p" "\<not> p dvd a"
  shows "coprime p a"
proof -
  have "gcd p a \<noteq> p" using assms(2) by (metis gcd_dvd2)
  moreover have "gcd p a \<le> p" using assms(1) by (intro dvd_imp_le) (auto simp: is_prime_def)
  ultimately have "gcd p a < p" by linarith
  then have "gcd p a = 1" using assms(1) gcd_dvd1 [of p a] unfolding is_prime_def by blast
  then show ?thesis by (simp only: coprime_iff_gcd_eq_1)
qed

lemma is_prime_dvd_mult:
  assumes "is_prime p" "p dvd a * b" "\<not> p dvd a"
  shows "p dvd b"
  using is_prime_coprime [OF assms(1,3)] assms(2) by (simp add: coprime_dvd_mult_right_iff)

lemma is_prime_dvd_choose:
  assumes "is_prime p" "0 < k" "k < p"
  shows "p dvd (p choose k)"
proof -
  have "k * (p choose k) = p * ((p - 1) choose (k - 1))"
    using assms(2) by (rule times_binomial_minus1_eq)
  then have "p dvd k * (p choose k)" by simp
  moreover have "\<not> p dvd k" using assms(2,3) by (auto dest: dvd_imp_le)
  ultimately show ?thesis using assms(1) is_prime_dvd_mult by blast
qed

lemma freshman_dream:
  assumes "is_prime p"
  shows "(a + 1) ^ p mod p = (a ^ p + 1) mod (p :: nat)"
proof -
  have p: "0 < p" using assms by (simp add: is_prime_def)
  have "(a + 1) ^ p = (\<Sum>k\<le>p. (p choose k) * a ^ k)"
    using binomial_ring [of a 1 p] by simp
  also have "\<dots> = (\<Sum>k\<in>{0<..<p}. (p choose k) * a ^ k) + (a ^ p + 1)"
  proof -
    have "{..p} = insert 0 (insert p {0<..<p})" using p by auto
    then show ?thesis using p by simp
  qed
  finally have "(a + 1) ^ p = (\<Sum>k\<in>{0<..<p}. (p choose k) * a ^ k) + (a ^ p + 1)" .
  moreover have "p dvd (\<Sum>k\<in>{0<..<p}. (p choose k) * a ^ k)"
    using is_prime_dvd_choose [OF assms] by (intro dvd_sum) auto
  then obtain c where "(\<Sum>k\<in>{0<..<p}. (p choose k) * a ^ k) = p * c" by (elim dvdE)
  ultimately show ?thesis by simp
qed

lemma fermat: "is_prime p \<Longrightarrow> a ^ p mod p = a mod p"
proof (induction a)
  case 0
  then have "0 < p" by (simp add: is_prime_def)
  then show ?case by (simp add: power_0_left)
next
  case (Suc a)
  have "Suc a ^ p mod p = (a ^ p + 1) mod p"
    using freshman_dream [OF Suc.prems, of a] by simp
  also have "\<dots> = (a + 1) mod p" using Suc by (metis mod_add_left_eq)
  finally show ?case by simp
qed

text \<open>\<open>a\<close> to the power \<open>1 + k (p - 1)\<close> is \<open>a\<close>.\<close>

lemma fermat_step: "is_prime p \<Longrightarrow> a ^ (1 + k * (p - 1)) mod p = a mod p"
proof (induction k)
  case 0
  then show ?case by simp
next
  case (Suc k)
  have p: "1 < p" using Suc.prems by (simp add: is_prime_def)
  have "a ^ (1 + Suc k * (p - 1)) = a ^ (1 + k * (p - 1)) * a ^ (p - 1)"
    by (simp only: mult_Suc add.assoc [symmetric] power_add) (simp only: ac_simps)
  then have "a ^ (1 + Suc k * (p - 1)) mod p = (a mod p * a ^ (p - 1)) mod p"
    using Suc by (metis mod_mult_left_eq)
  also have "\<dots> = a ^ (1 + (p - 1)) mod p" by (simp add: mod_mult_left_eq)
  also have "\<dots> = a mod p" using fermat [OF Suc.prems, of a] p by simp
  finally show ?case .
qed

lemma fermat_exponent:
  assumes "is_prime p" "0 < x" "x mod (p - 1) = 1 mod (p - 1)"
  shows "a ^ x mod p = a mod p"
proof -
  have "(p - 1) dvd x - 1"
    using assms(2,3) by (metis Suc_leI One_nat_def mod_eq_dvd_iff_nat)
  then obtain k where "x - 1 = (p - 1) * k" by (elim dvdE)
  then have "x = 1 + k * (p - 1)" using assms(2) by (simp add: mult.commute)
  then show ?thesis using fermat_step [OF assms(1)] by simp
qed

text \<open>A number below \<open>p q\<close> is determined by its residues.\<close>

lemma crt_unique:
  fixes p q x y :: int
  assumes "coprime p q" "x mod p = y mod p" "x mod q = y mod q"
    and "0 \<le> x" "x < p * q" "0 \<le> y" "y < p * q"
  shows "x = y"
proof -
  have "p dvd x - y" "q dvd x - y" using assms(2,3) by (simp_all add: mod_eq_dvd_iff)
  then have "p * q dvd x - y" using assms(1) by (intro divides_mult)
  moreover have "\<bar>x - y\<bar> < p * q" using assms(4-7) by linarith
  ultimately show ?thesis using zdvd_not_zless [of "\<bar>x - y\<bar>" "p * q"] by fastforce
qed

lemma crt_recombine:
  fixes p q i h m1 m2 :: int
  assumes "0 < p" "0 < q" "(q * i) mod p = 1 mod p" "0 \<le> m1" "m1 < p" "0 \<le> m2" "m2 < q"
    and h: "h = ((m1 - m2) * i) mod p \<or> h = ((m1 - m2 + p) * i) mod p"
  shows "(h * q + m2) mod p = m1 mod p" "(h * q + m2) mod q = m2" "0 \<le> h * q + m2" "h * q + m2 < p * q"
proof -
  have h': "h mod p = ((m1 - m2) * i) mod p" "0 \<le> h" "h < p"
  proof -
    have "(m1 - m2 + p) * i = (m1 - m2) * i + p * i" by (simp add: algebra_simps)
    then have "((m1 - m2 + p) * i) mod p = ((m1 - m2) * i) mod p" by simp
    with h assms(1) show "h mod p = ((m1 - m2) * i) mod p" "0 \<le> h" "h < p" by auto
  qed
  have "(h * q) mod p = ((m1 - m2) * i * q) mod p"
    using h'(1) by (metis mod_mult_left_eq)
  also have "\<dots> = ((m1 - m2) * ((q * i) mod p)) mod p" by (simp only: mod_mult_right_eq ac_simps)
  also have "\<dots> = (m1 - m2) mod p" by (simp add: assms(3) mod_mult_right_eq)
  finally show "(h * q + m2) mod p = m1 mod p" by (metis diff_add_cancel mod_add_left_eq)
  show "(h * q + m2) mod q = m2" using assms(6,7) by simp
  show "0 \<le> h * q + m2" using h'(2) assms(2,6) by simp
  have "h * q + m2 < (h + 1) * q" using assms(7) by (simp add: algebra_simps)
  also have "\<dots> \<le> p * q" using h'(3) assms(2) by (intro mult_right_mono) auto
  finally show "h * q + m2 < p * q" .
qed

end
