(* ===== verification/Scrambled_Key.thy ===== *)
theory Scrambled_Key
  imports L2_Prelude Number_Facts
begin

unbundle bit_operations_syntax

text \<open>
  \<open>pkg/crypto/scrambled_key.go\<close>: the pool of RSA keys, the scrambling of a modulus for the client,
  and raw RSA decryption with the Chinese remainder theorem. \<open>math/big\<close> integers are HOL integers;
  \<open>SetBytes\<close> and \<open>FillBytes\<close> are big-endian, and \<open>FillBytes\<close> panics when the value does not fit.

  A private key is what \<open>rsa.GenerateKey\<close> and \<open>Precompute\<close> produce. \<open>rsa_key_ok\<close> states their
  documented properties; under it decryption inverts textbook RSA encryption.
\<close>

record PrivateKey =
  pubN :: int
  pubE :: nat
  privD :: nat
  prime0 :: int
  prime1 :: int
  precDp :: nat
  precDq :: nat
  precQinv :: int

record ScrambledKey =
  privateKey :: PrivateKey
  Modulus :: "byte list"

definition RSAModulusSize :: nat where
  "RSAModulusSize = 128"

section \<open>Big-endian integers\<close>

fun SetBytes :: "byte list \<Rightarrow> int" where
  "SetBytes [] = 0"
| "SetBytes (b # bs) = uint b * 256 ^ length bs + SetBytes bs"

fun be_bytes :: "nat \<Rightarrow> int \<Rightarrow> byte list" where
  "be_bytes 0 v = []"
| "be_bytes (Suc n) v = be_bytes n (v div 256) @ [of_int (v mod 256)]"

definition FillBytes :: "nat \<Rightarrow> int \<Rightarrow> byte list outcome" where
  "FillBytes n v = (if \<bar>v\<bar> \<ge> 256 ^ n then Panic else Ok (be_bytes n \<bar>v\<bar>))"

lemma length_be_bytes [simp]: "length (be_bytes n v) = n"
  by (induction n arbitrary: v) auto

lemma SetBytes_append: "SetBytes (xs @ ys) = SetBytes xs * 256 ^ length ys + SetBytes ys"
  by (induction xs) (simp_all add: power_add algebra_simps)

lemma uint_byte: "0 \<le> v \<Longrightarrow> v < 256 \<Longrightarrow> uint (of_int v :: byte) = v"
  by (simp add: uint_word_of_int)

lemma SetBytes_be_bytes: "0 \<le> v \<Longrightarrow> v < 256 ^ n \<Longrightarrow> SetBytes (be_bytes n v) = v"
proof (induction n arbitrary: v)
  case 0
  then show ?case by simp
next
  case (Suc n)
  have "v div 256 < 256 ^ n"
    using Suc.prems(2) mult_div_mod_eq [of 256 v] pos_mod_sign [of 256 v] by simp
  then have "SetBytes (be_bytes n (v div 256)) = v div 256"
    using Suc by simp
  then show ?case by (simp add: SetBytes_append uint_byte)
qed

lemma SetBytes_bounds: "0 \<le> SetBytes bs \<and> SetBytes bs < 256 ^ length bs"
proof (induction bs)
  case Nil
  then show ?case by simp
next
  case (Cons b bs)
  have "uint b + 1 \<le> 256" using uint_lt2p [of b] by simp
  then have "(uint b + 1) * 256 ^ length bs \<le> 256 * 256 ^ length bs"
    by (intro mult_right_mono) simp_all
  then have le: "uint b * 256 ^ length bs + 256 ^ length bs \<le> 256 * 256 ^ length bs"
    by (simp only: distrib_right mult_1)
  have "0 \<le> uint b * 256 ^ length bs" by simp
  with Cons le show ?case
    unfolding SetBytes.simps length_Cons power_Suc by linarith
qed

lemma be_bytes_SetBytes: "be_bytes (length bs) (SetBytes bs) = bs"
proof (induction bs rule: rev_induct)
  case Nil
  then show ?case by simp
next
  case (snoc b bs)
  have "uint b < 256" using uint_lt2p [of b] by simp
  then have "SetBytes (bs @ [b]) div 256 = SetBytes bs" "SetBytes (bs @ [b]) mod 256 = uint b"
    by (simp_all add: SetBytes_append)
  with snoc show ?case by simp
qed

section \<open>Scrambling the modulus\<close>

definition swap4 :: "nat \<Rightarrow> byte list \<Rightarrow> byte list" where
  "swap4 i dst = dst[i := dst ! (77 + i), 77 + i := dst ! i]"

text \<open>\<open>dst[a+i] ^= dst[b+i]\<close> for \<open>i\<close> below \<open>n\<close>, in order.\<close>

fun xor_range :: "nat \<Rightarrow> nat \<Rightarrow> nat \<Rightarrow> byte list \<Rightarrow> byte list" where
  "xor_range 0 a b dst = dst"
| "xor_range (Suc n) a b dst = xor_range n (Suc a) (Suc b) (dst[a := dst ! a XOR dst ! b])"

definition scramble :: "byte list \<Rightarrow> byte list" where
  "scramble dst =
     (let d1 = fold swap4 [0, 1, 2, 3] dst;
          d2 = xor_range 64 0 64 d1;
          d3 = xor_range 4 13 52 d2
      in xor_range 64 64 0 d3)"

definition fillAndScrambleModulus :: "int \<Rightarrow> byte list outcome" where
  "fillAndScrambleModulus modulus = bind_outcome (FillBytes RSAModulusSize modulus) (\<lambda>dst. Ok (scramble dst))"

text \<open>What the client does to recover the modulus: the four steps backwards.\<close>

definition unscramble :: "byte list \<Rightarrow> byte list" where
  "unscramble d = fold swap4 [0, 1, 2, 3] (xor_range 64 0 64 (xor_range 4 13 52 (xor_range 64 64 0 d)))"

section \<open>The key pool\<close>

text \<open>\<open>gen\<close> holds the keys successive calls of \<open>rsa.GenerateKey\<close> return (\<open>None\<close> for an error).\<close>

fun fill_pool :: "PrivateKey option list \<Rightarrow> ScrambledKey list outcome" where
  "fill_pool [] = Ok []"
| "fill_pool (None # gen) = Panic"
| "fill_pool (Some key # gen) =
     bind_outcome (fillAndScrambleModulus (pubN key)) (\<lambda>m.
       bind_outcome (fill_pool gen) (\<lambda>pool. Ok (\<lparr>privateKey = key, Modulus = m\<rparr> # pool)))"

definition InitRSAPool :: "int \<Rightarrow> (nat \<Rightarrow> PrivateKey option) \<Rightarrow> ScrambledKey list outcome" where
  "InitRSAPool sz gen = (if sz \<le> 0 then Panic else fill_pool (map gen [0..<nat sz]))"

text \<open>The atomic counter wraps at 32 bits; the returned counter is the new one.\<close>

definition GetScrambledKey :: "ScrambledKey list \<Rightarrow> uint32 \<Rightarrow> (ScrambledKey \<times> uint32) outcome" where
  "GetScrambledKey rsaPool rsaIdx =
     (if length rsaPool = 0 then Error PoolNotInitialized
      else let i = rsaIdx + 1 in Ok (rsaPool ! (unat i mod length rsaPool), i))"

section \<open>Decryption\<close>

definition RSADecrypt :: "ScrambledKey \<Rightarrow> byte list \<Rightarrow> byte list outcome" where
  "RSADecrypt key ciphertext =
     (if length ciphertext \<noteq> RSAModulusSize then Error InvalidCiphertextSize
      else let priv = privateKey key;
               c = SetBytes ciphertext;
               m1 = c ^ precDp priv mod prime0 priv;
               m2 = c ^ precDq priv mod prime1 priv;
               h = m1 - m2;
               h1 = (if h < 0 then h + prime0 priv else h);
               h2 = (h1 * precQinv priv) mod prime0 priv;
               m = h2 * prime1 priv + m2
           in FillBytes RSAModulusSize m)"

definition rsa_key_ok :: "PrivateKey \<Rightarrow> bool" where
  "rsa_key_ok k \<longleftrightarrow>
     is_prime (nat (prime0 k)) \<and> is_prime (nat (prime1 k)) \<and> prime0 k \<noteq> prime1 k
     \<and> 2 < prime0 k \<and> 2 < prime1 k \<and> pubN k = prime0 k * prime1 k \<and> pubN k < 256 ^ RSAModulusSize
     \<and> 0 < pubE k
     \<and> (pubE k * privD k) mod (nat (prime0 k) - 1) = 1
     \<and> (pubE k * privD k) mod (nat (prime1 k) - 1) = 1
     \<and> precDp k = privD k mod (nat (prime0 k) - 1)
     \<and> precDq k = privD k mod (nat (prime1 k) - 1)
     \<and> (prime1 k * precQinv k) mod prime0 k = 1"

text \<open>Textbook RSA encryption of a message below the modulus, as the client performs it.\<close>

definition rsa_encrypt :: "PrivateKey \<Rightarrow> int \<Rightarrow> byte list" where
  "rsa_encrypt k m = be_bytes RSAModulusSize (m ^ pubE k mod pubN k)"

subsection \<open>Scrambling loses nothing\<close>

lemma length_xor_range [simp]: "length (xor_range n a b dst) = length dst"
  by (induction n a b dst rule: xor_range.induct) simp_all

lemma xor_range_nth:
  "a + n \<le> b \<or> b + n \<le> a \<Longrightarrow> a + n \<le> length dst \<Longrightarrow> j < length dst \<Longrightarrow>
   xor_range n a b dst ! j = (if a \<le> j \<and> j < a + n then dst ! j XOR dst ! (b + (j - a)) else dst ! j)"
proof (induction n a b dst rule: xor_range.induct)
  case (1 a b dst)
  then show ?case by auto
next
  case (2 n a b dst)
  let ?d = "dst[a := dst ! a XOR dst ! b]"
  have "xor_range n (Suc a) (Suc b) ?d ! j =
      (if Suc a \<le> j \<and> j < Suc a + n then ?d ! j XOR ?d ! (Suc b + (j - Suc a)) else ?d ! j)"
    using "2.prems" by (intro "2.IH") auto
  moreover have "?d ! (Suc b + (j - Suc a)) = dst ! (b + (j - a))" if "Suc a \<le> j" "j < Suc a + n"
    using that "2.prems"(1) by (subst nth_list_update_neq) (auto simp: Suc_diff_Suc [symmetric] simp del: diff_Suc_Suc)
  ultimately show ?case
    using "2.prems" by (auto simp: nth_list_update)
qed

lemma xor_range_involution:
  assumes "a + n \<le> b \<or> b + n \<le> a" "a + n \<le> length dst" "b + n \<le> length dst"
  shows "xor_range n a b (xor_range n a b dst) = dst"
proof (rule nth_equalityI)
  fix j assume j: "j < length (xor_range n a b (xor_range n a b dst))"
  show "xor_range n a b (xor_range n a b dst) ! j = dst ! j"
  proof (cases "a \<le> j \<and> j < a + n")
    case True
    then have "b + (j - a) < length dst" "\<not> (a \<le> b + (j - a) \<and> b + (j - a) < a + n)"
      using assms by auto
    with True j assms show ?thesis by (auto simp: xor_range_nth)
  next
    case False
    with j assms show ?thesis by (auto simp: xor_range_nth)
  qed
qed simp

lemma length_swap4 [simp]: "length (swap4 i d) = length d"
  by (simp add: swap4_def)

lemma swap4_all_involution:
  assumes "length d = 128"
  shows "fold swap4 [0, 1, 2, 3] (fold swap4 [0, 1, 2, 3] d) = d"
proof (rule nth_equalityI)
  fix j assume "j < length (fold swap4 [0, 1, 2, 3] (fold swap4 [0, 1, 2, 3] d))"
  then have "j < 128" using assms by simp
  then show "fold swap4 [0, 1, 2, 3] (fold swap4 [0, 1, 2, 3] d) ! j = d ! j"
    using assms by (simp add: swap4_def nth_list_update)
qed (use assms in simp)

lemma unscramble_scramble:
  assumes "length d = 128"
  shows "unscramble (scramble d) = d"
proof -
  let ?d1 = "fold swap4 [0, 1, 2, 3] d"
  have l: "length ?d1 = 128" using assms by simp
  have "xor_range 64 64 0 (xor_range 64 64 0 x) = x" "xor_range 4 13 52 (xor_range 4 13 52 x) = x"
    "xor_range 64 0 64 (xor_range 64 0 64 x) = x" if "length x = 128" for x
    using that by (simp_all add: xor_range_involution)
  then have "unscramble (scramble d) = fold swap4 [0, 1, 2, 3] ?d1"
    using l unfolding unscramble_def scramble_def Let_def by (simp only: length_xor_range)
  then show ?thesis using swap4_all_involution [OF assms] by simp
qed

subsection \<open>Decryption inverts encryption\<close>

lemma residue_of_power:
  assumes "is_prime (nat p)" "2 < p" "(e * d) mod (nat p - 1) = 1" "0 < e" "0 \<le> m" "p dvd n"
  shows "(m ^ e mod n) ^ (d mod (nat p - 1)) mod p = m mod p"
proof -
  define P M where "P = nat p" and "M = nat m"
  have p: "p = int P" and m: "m = int M" using assms(2,5) by (simp_all add: P_def M_def)
  have x: "(e * (d mod (P - 1))) mod (P - 1) = 1"
    using assms(3) by (simp add: P_def mod_mult_right_eq)
  have "(m ^ e mod n) mod p = m ^ e mod p" using assms(6) by (rule mod_mod_cancel)
  then have "(m ^ e mod n) ^ (d mod (P - 1)) mod p = (m ^ e) ^ (d mod (P - 1)) mod p"
    by (metis power_mod)
  also have "\<dots> = int (M ^ (e * (d mod (P - 1))) mod P)"
    by (simp add: m p power_mult zmod_int)
  also have "M ^ (e * (d mod (P - 1))) mod P = M mod P"
  proof (rule fermat_exponent)
    show "is_prime P" using assms(1) by (simp add: P_def)
    show "0 < e * (d mod (P - 1))" using x by (intro Nat.gr0I) auto
    have "1 < P - 1" using assms(2) by (simp add: P_def)
    with x show "(e * (d mod (P - 1))) mod (P - 1) = 1 mod (P - 1)" by simp
  qed
  finally show ?thesis by (simp add: m p zmod_int P_def [symmetric])
qed

lemma is_prime_coprime_int:
  assumes "is_prime (nat p)" "is_prime (nat q)" "p \<noteq> q" "0 < p" "0 < q"
  shows "coprime p q"
proof -
  have "\<not> nat p dvd nat q"
  proof
    assume d: "nat p dvd nat q"
    then have "nat p < nat q" using dvd_imp_le [OF d] assms(3-5) by linarith
    with d assms(2) have "nat p = 1" unfolding is_prime_def by blast
    with assms(1) show False by (simp add: is_prime_def)
  qed
  then have "coprime (nat p) (nat q)" by (rule is_prime_coprime [OF assms(1)])
  then have "coprime (int (nat p)) (int (nat q))" by (simp only: coprime_int_iff)
  with assms(4,5) show ?thesis by simp
qed

lemma RSADecrypt_encrypt:
  assumes "rsa_key_ok (privateKey key)" "0 \<le> m" "m < pubN (privateKey key)"
  shows "RSADecrypt key (rsa_encrypt (privateKey key) m) = Ok (be_bytes RSAModulusSize m)"
proof -
  let ?k = "privateKey key"
  let ?p = "prime0 ?k" and ?q = "prime1 ?k" and ?n = "pubN ?k"
  have k: "is_prime (nat ?p)" "is_prime (nat ?q)" "?p \<noteq> ?q" "2 < ?p" "2 < ?q" "?n = ?p * ?q"
    "?n < 256 ^ RSAModulusSize" "0 < pubE ?k" "(?q * precQinv ?k) mod ?p = 1"
    "(pubE ?k * privD ?k) mod (nat ?p - 1) = 1" "(pubE ?k * privD ?k) mod (nat ?q - 1) = 1"
    "precDp ?k = privD ?k mod (nat ?p - 1)" "precDq ?k = privD ?k mod (nat ?q - 1)"
    using assms(1) unfolding rsa_key_ok_def by blast+
  have n: "0 < ?n" using k(4-6) by simp
  define c where "c = m ^ pubE ?k mod ?n"
  have "0 \<le> c" "c < ?n" using n by (simp_all add: c_def)
  then have c: "SetBytes (be_bytes RSAModulusSize c) = c"
    using k(7) by (intro SetBytes_be_bytes) auto
  define m1 m2 where "m1 = c ^ precDp ?k mod ?p" and "m2 = c ^ precDq ?k mod ?q"
  have m1: "m1 = m mod ?p" and m2: "m2 = m mod ?q"
  proof -
    have "?p dvd ?n" "?q dvd ?n" by (simp_all add: k(6))
    note r = residue_of_power [OF k(1,4,10,8) assms(2) this(1)] residue_of_power [OF k(2,5,11,8) assms(2) this(2)]
    show "m1 = m mod ?p" "m2 = m mod ?q"
      unfolding m1_def m2_def c_def k(12,13) by (rule r)+
  qed
  define h where "h = ((if m1 - m2 < 0 then m1 - m2 + ?p else m1 - m2) * precQinv ?k) mod ?p"
  have h: "h = ((m1 - m2) * precQinv ?k) mod ?p \<or> h = ((m1 - m2 + ?p) * precQinv ?k) mod ?p"
    by (simp add: h_def)
  have rng: "0 \<le> m1" "m1 < ?p" "0 \<le> m2" "m2 < ?q" using k(4,5) by (simp_all add: m1 m2)
  note r = crt_recombine [OF _ _ _ rng h]
  have "h * ?q + m2 = m"
  proof (rule crt_unique)
    show "coprime ?p ?q" using is_prime_coprime_int k(1-5) by simp
  qed (use r k assms(2,3) m1 m2 in simp_all)
  moreover have "RSADecrypt key (rsa_encrypt ?k m) = FillBytes RSAModulusSize (h * ?q + m2)"
    unfolding RSADecrypt_def rsa_encrypt_def c_def [symmetric] Let_def c m1_def [symmetric]
      m2_def [symmetric] h_def [symmetric] by simp
  ultimately show ?thesis
    using assms(2,3) k(7) by (simp add: FillBytes_def)
qed

text \<open>The pool is cycled through: consecutive counters hit consecutive entries.\<close>

lemma GetScrambledKey_round_robin:
  assumes "length pool = n" "0 < n" "GetScrambledKey pool idx = Ok (k, i)" "i \<noteq> - 1"
    and "GetScrambledKey pool i = Ok (k', i')"
  shows "k = pool ! (unat i mod n)" "k' = pool ! ((unat i mod n + 1) mod n)"
proof -
  have "1 + i \<noteq> 0" using assms(4) by (simp add: add_eq_0_iff)
  then have "unat (i + 1) = unat i + 1" using unatSuc [of i] by (simp add: add.commute)
  then show "k = pool ! (unat i mod n)" "k' = pool ! ((unat i mod n + 1) mod n)"
    using assms by (auto simp: GetScrambledKey_def Let_def mod_simps split: if_splits)
qed

section \<open>Properties\<close>

lemma fill_pool_keys:
  "fill_pool gen = Ok pool \<Longrightarrow>
   length pool = length gen \<and>
   list_all2 (\<lambda>g key. g = Some (privateKey key)
     \<and> fillAndScrambleModulus (pubN (privateKey key)) = Ok (Modulus key)) gen pool"
  by (induction gen arbitrary: pool rule: fill_pool.induct) (auto simp: bind_outcome_Ok_iff)

lemma fillAndScrambleModulus_recover:
  assumes "0 \<le> n" "fillAndScrambleModulus n = Ok m"
  shows "length m = 128 \<and> SetBytes (unscramble m) = n"
proof -
  from assms have n: "n < 256 ^ RSAModulusSize" and m: "m = scramble (be_bytes RSAModulusSize n)"
    by (auto simp: fillAndScrambleModulus_def FillBytes_def split: if_splits)
  have "length (be_bytes RSAModulusSize n) = 128" by (simp add: RSAModulusSize_def)
  moreover have "length (scramble d) = length d" for d by (simp add: scramble_def Let_def)
  ultimately show ?thesis
    using SetBytes_be_bytes [OF assms(1) n] by (simp add: m unscramble_scramble)
qed

text \<open>
  C32: the RSA channel for credentials works with every key of the pool. When the generated keys are
  proper RSA keys, the pool never runs dry, the modulus sent to a client unscrambles to the key's
  modulus, and every message below it, encrypted with that unscrambled modulus, is what the server
  decrypts (as the 128 bytes of the message).
\<close>

theorem rsa_channel:
  assumes "InitRSAPool sz gen = Ok pool" "\<forall>i < nat sz. \<exists>k. gen i = Some k \<and> rsa_key_ok k"
    and "0 \<le> m" "\<forall>i < nat sz. \<forall>k. gen i = Some k \<longrightarrow> m < pubN k"
  shows "\<exists>key. GetScrambledKey pool idx = Ok (key, idx + 1) \<and> key \<in> set pool
    \<and> length (Modulus key) = 128
    \<and> SetBytes (unscramble (Modulus key)) = pubN (privateKey key)
    \<and> RSADecrypt key (be_bytes RSAModulusSize
        (m ^ pubE (privateKey key) mod SetBytes (unscramble (Modulus key)))) = Ok (be_bytes RSAModulusSize m)"
proof -
  from assms(1) have sz: "0 < sz" and fill: "fill_pool (map gen [0..<nat sz]) = Ok pool"
    by (auto simp: InitRSAPool_def split: if_splits)
  note pool = fill_pool_keys [OF fill]
  define j where "j = unat (idx + 1) mod length pool"
  have j: "j < length pool" "j < nat sz" using pool sz by (auto simp: j_def)
  let ?key = "pool ! j"
  have g: "gen j = Some (privateKey ?key)" "fillAndScrambleModulus (pubN (privateKey ?key)) = Ok (Modulus ?key)"
    using list_all2_nthD2 [OF conjunct2 [OF pool] j(1)] j(2) by simp_all
  have "\<exists>k. gen j = Some k \<and> rsa_key_ok k" using assms(2) j(2) by blast
  then have ok: "rsa_key_ok (privateKey ?key)" by (simp add: g(1))
  have ok2: "m < pubN (privateKey ?key)" using assms(4) j(2) g(1) by blast
  have "0 \<le> pubN (privateKey ?key)" using ok by (simp add: rsa_key_ok_def)
  note mod = fillAndScrambleModulus_recover [OF this g(2)]
  have "RSADecrypt ?key (be_bytes RSAModulusSize (m ^ pubE (privateKey ?key) mod pubN (privateKey ?key)))
      = Ok (be_bytes RSAModulusSize m)"
    using RSADecrypt_encrypt [OF ok assms(3) ok2] by (simp add: rsa_encrypt_def)
  moreover have "GetScrambledKey pool idx = Ok (?key, idx + 1)"
    using j(1) unfolding GetScrambledKey_def j_def Let_def by (cases pool) simp_all
  moreover have "?key \<in> set pool" using j(1) by simp
  ultimately show ?thesis using mod by metis
qed

definition small_key :: PrivateKey where
  "small_key = \<lparr>pubN = 35, pubE = 5, privD = 5, prime0 = 5, prime1 = 7, precDp = 1, precDq = 5, precQinv = 3\<rparr>"

lemma rsa_key_ok_small: "rsa_key_ok small_key"
proof -
  have p5: "is_prime 5" and p7: "is_prime 7"
  proof -
    have "d = 1 \<or> d = 5" if "d dvd 5" for d :: nat
    proof -
      have "d \<le> 5" using that by (simp add: dvd_imp_le)
      then have "d \<in> {0, 1, 2, 3, 4, 5}" by auto
      with that show ?thesis by auto
    qed
    then show "is_prime 5" unfolding is_prime_def by auto
    have "d = 1 \<or> d = 7" if "d dvd 7" for d :: nat
    proof -
      have "d \<le> 7" using that by (simp add: dvd_imp_le)
      then have "d \<in> {0, 1, 2, 3, 4, 5, 6, 7}" by auto
      with that show ?thesis by auto
    qed
    then show "is_prime 7" unfolding is_prime_def by auto
  qed
  then show ?thesis
    by (simp add: rsa_key_ok_def small_key_def RSAModulusSize_def self_le_power)
qed

theorem rsa_channel_witness:
  "\<exists>pool. InitRSAPool 2 (\<lambda>_. Some small_key) = Ok pool
    \<and> (\<exists>key. GetScrambledKey pool 0 = Ok (key, 1)
      \<and> RSADecrypt key (be_bytes RSAModulusSize
          (33 ^ pubE (privateKey key) mod SetBytes (unscramble (Modulus key)))) = Ok (be_bytes RSAModulusSize 33))"
proof -
  have "(35 :: int) < 256 ^ 128" by simp
  then obtain m where m: "fillAndScrambleModulus (pubN small_key) = Ok m"
    by (auto simp: fillAndScrambleModulus_def FillBytes_def small_key_def RSAModulusSize_def)
  then obtain pool where p: "InitRSAPool 2 (\<lambda>_. Some small_key) = Ok pool"
    by (simp add: InitRSAPool_def numeral_2_eq_2)
  have "\<exists>key. GetScrambledKey pool 0 = Ok (key, 0 + 1) \<and> key \<in> set pool
    \<and> length (Modulus key) = 128 \<and> SetBytes (unscramble (Modulus key)) = pubN (privateKey key)
    \<and> RSADecrypt key (be_bytes RSAModulusSize
        (33 ^ pubE (privateKey key) mod SetBytes (unscramble (Modulus key)))) = Ok (be_bytes RSAModulusSize 33)"
    by (rule rsa_channel [OF p]) (simp_all add: rsa_key_ok_small, simp add: small_key_def)
  then show ?thesis using p by auto
qed


end
