(* ===== verification/Sharding.thy ===== *)
theory Sharding
  imports L2_Prelude
begin

text \<open>
  Three components of the server (the handoff sessions, the session registry and the rate
  limiter) keep their map in 64 shards, each under its own lock, and pick the shard from a hash
  of the key. \<open>map_store\<close> is the contract of a keyed store; \<open>sharding\<close> is what a shard function
  has to satisfy, and a sharded map is a store for every such function: looking up, inserting,
  deleting and sweeping act like the same operation on one flat map. Each component interprets
  \<open>sharding\<close> with its own hash and works with the flat view from then on.
\<close>

definition shard_lookup :: "('k \<Rightarrow> nat) \<Rightarrow> ('k \<rightharpoonup> 'v) list \<Rightarrow> 'k \<rightharpoonup> 'v" where
  "shard_lookup ix S k = (S ! ix k) k"

definition shard_insert :: "('k \<Rightarrow> nat) \<Rightarrow> 'k \<Rightarrow> 'v \<Rightarrow> ('k \<rightharpoonup> 'v) list \<Rightarrow> ('k \<rightharpoonup> 'v) list" where
  "shard_insert ix k v S = S[ix k := (S ! ix k)(k \<mapsto> v)]"

definition shard_delete :: "('k \<Rightarrow> nat) \<Rightarrow> 'k \<Rightarrow> ('k \<rightharpoonup> 'v) list \<Rightarrow> ('k \<rightharpoonup> 'v) list" where
  "shard_delete ix k S = S[ix k := (S ! ix k)(k := None)]"

text \<open>One pass over all shards that deletes the entries which do not satisfy \<open>P\<close>.\<close>

definition shard_keep :: "('k \<Rightarrow> 'v \<Rightarrow> bool) \<Rightarrow> ('k \<rightharpoonup> 'v) list \<Rightarrow> ('k \<rightharpoonup> 'v) list" where
  "shard_keep P S = map (map_filter_entries P) S"

text \<open>Every key lives in its own shard and nowhere else.\<close>

definition shard_invar :: "('k \<Rightarrow> nat) \<Rightarrow> nat \<Rightarrow> ('k \<rightharpoonup> 'v) list \<Rightarrow> bool" where
  "shard_invar ix n S \<longleftrightarrow> length S = n \<and> (\<forall>i < n. \<forall>k. (S ! i) k \<noteq> None \<longrightarrow> ix k = i)"

section \<open>The contract of a keyed store\<close>

locale map_store =
  fixes none :: 's
    and lookup :: "'s \<Rightarrow> 'k \<Rightarrow> 'v option"
    and insert_at :: "'k \<Rightarrow> 'v \<Rightarrow> 's \<Rightarrow> 's"
    and delete_at :: "'k \<Rightarrow> 's \<Rightarrow> 's"
    and keep :: "('k \<Rightarrow> 'v \<Rightarrow> bool) \<Rightarrow> 's \<Rightarrow> 's"
    and invar :: "'s \<Rightarrow> bool"
  assumes lookup_none: "lookup none = Map.empty"
    and lookup_insert: "invar s \<Longrightarrow> lookup (insert_at k v s) = (lookup s)(k \<mapsto> v)"
    and lookup_delete: "invar s \<Longrightarrow> lookup (delete_at k s) = (lookup s)(k := None)"
    and lookup_keep: "invar s \<Longrightarrow> lookup (keep P s) = map_filter_entries P (lookup s)"
    and invar_none: "invar none"
    and invar_insert: "invar s \<Longrightarrow> invar (insert_at k v s)"
    and invar_delete: "invar s \<Longrightarrow> invar (delete_at k s)"
    and invar_keep: "invar s \<Longrightarrow> invar (keep P s)"
begin

lemmas store_simps = lookup_none lookup_insert lookup_delete lookup_keep
lemmas store_invars = invar_none invar_insert invar_delete invar_keep

text \<open>A sweep and an insertion of an entry that survives it commute on the flat view.\<close>

lemma keep_insert:
  "invar s \<Longrightarrow> P k v \<Longrightarrow> lookup (keep P (insert_at k v s)) = lookup (insert_at k v (keep P s))"
  by (simp add: store_simps store_invars fun_eq_iff map_filter_entries_def)

lemma keep_delete:
  "invar s \<Longrightarrow> lookup (keep P (delete_at k s)) = lookup (delete_at k (keep P s))"
  by (simp add: store_simps store_invars fun_eq_iff map_filter_entries_def)

lemma keep_keep:
  "invar s \<Longrightarrow> lookup (keep P (keep Q s)) = lookup (keep (\<lambda>k v. P k v \<and> Q k v) s)"
  by (auto simp: store_simps store_invars fun_eq_iff map_filter_entries_def split: option.splits)

end

section \<open>Sharded maps are keyed stores\<close>

locale sharding =
  fixes ix :: "'k \<Rightarrow> nat"
    and n :: nat
  assumes ix_less: "ix k < n"
begin

lemma nth_shard_insert:
  "shard_invar ix n S \<Longrightarrow> i < n \<Longrightarrow>
   shard_insert ix k v S ! i = (if i = ix k then (S ! i)(k \<mapsto> v) else S ! i)"
  by (auto simp: shard_insert_def shard_invar_def nth_list_update)

lemma nth_shard_delete:
  "shard_invar ix n S \<Longrightarrow> i < n \<Longrightarrow>
   shard_delete ix k S ! i = (if i = ix k then (S ! i)(k := None) else S ! i)"
  by (auto simp: shard_delete_def shard_invar_def nth_list_update)

end

sublocale sharding \<subseteq> map_store "replicate n Map.empty" "shard_lookup ix" "shard_insert ix"
    "shard_delete ix" shard_keep "shard_invar ix n"
proof unfold_locales
  show "shard_lookup ix (replicate n Map.empty) = Map.empty"
    by (simp add: fun_eq_iff shard_lookup_def ix_less)
  show "shard_invar ix n (replicate n Map.empty)"
    by (simp add: shard_invar_def)
next
  fix S :: "('k \<rightharpoonup> 'b) list" and k v
  assume inv: "shard_invar ix n S"
  show "shard_lookup ix (shard_insert ix k v S) = (shard_lookup ix S)(k \<mapsto> v)"
    using inv ix_less by (auto simp: fun_eq_iff shard_lookup_def nth_shard_insert)
  show "shard_lookup ix (shard_delete ix k S) = (shard_lookup ix S)(k := None)"
    using inv ix_less by (auto simp: fun_eq_iff shard_lookup_def nth_shard_delete)
  show "shard_invar ix n (shard_insert ix k v S)"
    using inv nth_shard_insert [OF inv, of _ k v] by (auto simp: shard_invar_def shard_insert_def)
  show "shard_invar ix n (shard_delete ix k S)"
    using inv nth_shard_delete [OF inv, of _ k] by (auto simp: shard_invar_def shard_delete_def)
next
  fix S :: "('k \<rightharpoonup> 'b) list" and P
  assume inv: "shard_invar ix n S"
  show "shard_lookup ix (shard_keep P S) = map_filter_entries P (shard_lookup ix S)"
    using inv ix_less
    by (auto simp: fun_eq_iff shard_lookup_def shard_keep_def shard_invar_def map_filter_entries_def)
  show "shard_invar ix n (shard_keep P S)"
    using inv by (auto simp: shard_invar_def shard_keep_def map_filter_entries_def split: option.splits)
qed

end
