(* ===== verification/Session_Store.thy ===== *)
theory Session_Store
  imports Sharding Session_Key
begin

unbundle bit_operations_syntax

text \<open>
  \<open>internal/session/session.go\<close>: the handoff sessions that carry an authenticated account from the
  login server to the game server. The state is the list of 64 shards; each operation is the body
  of one critical section (the shard's mutex is held throughout), with the clock reading as an
  argument, so interleavings of the goroutines are sequences of these operations.
\<close>

definition sessionShardCount :: nat where
  "sessionShardCount = 64"

record Session =
  ExpiresAt :: gotime
  SKey :: SessionKey
  SAccount :: gostring
  SAccountID :: int64
  SServerID :: int32

type_synonym session_shards = "(int32 \<rightharpoonup> Session) list"

definition shardFor :: "int32 \<Rightarrow> nat" where
  "shardFor i = unat (i AND of_nat (sessionShardCount - 1))"

definition init_sessions :: session_shards where
  "init_sessions = replicate sessionShardCount Map.empty"

definition Put :: "int32 \<Rightarrow> Session \<Rightarrow> session_shards \<Rightarrow> session_shards" where
  "Put i s S = shard_insert shardFor i s S"

text \<open>\<open>time.Now().After(t)\<close> is \<open>now > t\<close>; it is read after the lock is released.\<close>

definition ValidateAndDelete ::
    "gotime \<Rightarrow> int32 \<Rightarrow> session_shards \<Rightarrow> Session option \<times> session_shards" where
  "ValidateAndDelete now i S =
     (case shard_lookup shardFor S i of
        None \<Rightarrow> (None, S)
      | Some s \<Rightarrow>
          let S' = shard_delete shardFor i S
          in if now > ExpiresAt s then (None, S') else (Some s, S'))"

text \<open>One tick of the garbage collector started by \<open>StartGC\<close>.\<close>

definition gc_tick :: "gotime \<Rightarrow> session_shards \<Rightarrow> session_shards" where
  "gc_tick now S = shard_keep (\<lambda>i s. \<not> now > ExpiresAt s) S"

lemma shardFor_less: "shardFor i < sessionShardCount"
  unfolding shardFor_def by (rule unat_and_mask_less) (simp add: sessionShardCount_def)

interpretation handoff: sharding shardFor sessionShardCount
  by unfold_locales (rule shardFor_less)

section \<open>The flat view\<close>

abbreviation sessions :: "session_shards \<Rightarrow> int32 \<rightharpoonup> Session" where
  "sessions S \<equiv> shard_lookup shardFor S"

abbreviation wf_sessions :: "session_shards \<Rightarrow> bool" where
  "wf_sessions S \<equiv> shard_invar shardFor sessionShardCount S"

lemma wf_session_ops [inv_intros]:
  "wf_sessions init_sessions"
  "wf_sessions S \<Longrightarrow> wf_sessions (Put i s S)"
  "wf_sessions S \<Longrightarrow> wf_sessions (snd (ValidateAndDelete now i S))"
  "wf_sessions S \<Longrightarrow> wf_sessions (gc_tick now S)"
  by (simp_all add: init_sessions_def Put_def ValidateAndDelete_def gc_tick_def Let_def
      handoff.store_invars split: option.split)

lemma sessions_ops:
  "sessions init_sessions = Map.empty"
  "wf_sessions S \<Longrightarrow> sessions (Put i s S) = (sessions S)(i \<mapsto> s)"
  "wf_sessions S \<Longrightarrow> sessions (snd (ValidateAndDelete now i S)) = (sessions S)(i := None)"
  "wf_sessions S \<Longrightarrow> sessions (gc_tick now S) = map_filter_entries (\<lambda>i s. now \<le> ExpiresAt s) (sessions S)"
proof -
  show "sessions init_sessions = Map.empty"
    unfolding init_sessions_def by (rule handoff.lookup_none)
  assume w: "wf_sessions S"
  show "sessions (Put i s S) = (sessions S)(i \<mapsto> s)"
    unfolding Put_def using w by (rule handoff.lookup_insert)
  show "sessions (snd (ValidateAndDelete now i S)) = (sessions S)(i := None)"
    using handoff.lookup_delete [OF w] by (auto simp: ValidateAndDelete_def Let_def split: option.split)
  show "sessions (gc_tick now S) = map_filter_entries (\<lambda>i s. now \<le> ExpiresAt s) (sessions S)"
    using handoff.lookup_keep [OF w, of "\<lambda>i s. \<not> now > ExpiresAt s"] by (simp add: gc_tick_def not_less)
qed

lemma ValidateAndDelete_result:
  "fst (ValidateAndDelete now i S) =
     (case sessions S i of None \<Rightarrow> None | Some s \<Rightarrow> if now \<le> ExpiresAt s then Some s else None)"
  by (auto simp: ValidateAndDelete_def Let_def split: option.split)

section \<open>Runs of the store\<close>

text \<open>The operations other goroutines may perform, each with the time it reads.\<close>

datatype session_op = OpPut int32 Session | OpValidate int32 | OpGC

fun session_step :: "gotime \<Rightarrow> session_op \<Rightarrow> session_shards \<Rightarrow> session_shards" where
  "session_step now (OpPut i s) S = Put i s S"
| "session_step now (OpValidate i) S = snd (ValidateAndDelete now i S)"
| "session_step now OpGC S = gc_tick now S"

fun session_run :: "(gotime \<times> session_op) list \<Rightarrow> session_shards \<Rightarrow> session_shards" where
  "session_run [] S = S"
| "session_run ((now, oper) # ops) S = session_run ops (session_step now oper S)"

text \<open>How often a run hands out the session \<open>i\<close>, and how often it stores one under \<open>i\<close>.\<close>

fun validated :: "int32 \<Rightarrow> (gotime \<times> session_op) list \<Rightarrow> session_shards \<Rightarrow> nat" where
  "validated i [] S = 0"
| "validated i ((now, oper) # ops) S =
     (case oper of OpValidate j \<Rightarrow> if j = i \<and> fst (ValidateAndDelete now j S) \<noteq> None then 1 else 0 | _ \<Rightarrow> 0)
     + validated i ops (session_step now oper S)"

fun puts :: "int32 \<Rightarrow> (gotime \<times> session_op) list \<Rightarrow> nat" where
  "puts i [] = 0"
| "puts i ((now, oper) # ops) = (case oper of OpPut j s \<Rightarrow> if j = i then 1 else 0 | _ \<Rightarrow> 0) + puts i ops"

lemma wf_session_step [inv_intros]: "wf_sessions S \<Longrightarrow> wf_sessions (session_step now oper S)"
  by (cases oper) (simp_all add: wf_session_ops)

definition stored :: "int32 \<Rightarrow> session_shards \<Rightarrow> nat" where
  "stored i S = (if sessions S i = None then 0 else 1)"

lemma stored_step:
  "wf_sessions S \<Longrightarrow>
   stored i (session_step now oper S)
     + (case oper of OpValidate j \<Rightarrow> if j = i \<and> fst (ValidateAndDelete now j S) \<noteq> None then 1 else 0 | _ \<Rightarrow> 0)
   \<le> stored i S + (case oper of OpPut j s \<Rightarrow> if j = i then 1 else 0 | _ \<Rightarrow> 0)"
  by (cases oper)
    (auto simp: stored_def sessions_ops ValidateAndDelete_result map_filter_entries_None
      split: option.splits)

lemma validated_le_puts_stored:
  "wf_sessions S \<Longrightarrow> validated i ops S \<le> puts i ops + stored i S"
proof (induction ops arbitrary: S)
  case Nil
  then show ?case by simp
next
  case (Cons x ops)
  obtain now oper where x: "x = (now, oper)" by force
  have "validated i ops (session_step now oper S) \<le> puts i ops + stored i (session_step now oper S)"
    using Cons by (simp add: wf_session_step)
  with stored_step [OF Cons.prems, of i now oper] show ?case
    unfolding x validated.simps puts.simps by linarith
qed

section \<open>Properties\<close>

text \<open>
  C23: a handoff session is used at most once. In every run of the store from its initial state,
  whatever the interleaving of stores, validations and collections and whatever the clock reads,
  the sessions handed out under an identifier are at most as many as were stored under it.
\<close>

theorem session_single_use: "validated i ops init_sessions \<le> puts i ops"
  using validated_le_puts_stored [OF wf_session_ops(1), of i ops] by (simp add: stored_def sessions_ops(1))

lemma wf_session_run [inv_intros]: "wf_sessions S \<Longrightarrow> wf_sessions (session_run ops S)"
  by (induction ops S rule: session_run.induct) (simp_all add: wf_session_step)

text \<open>The operations that leave a live session \<open>s\<close> under \<open>i\<close> alone.\<close>

fun spares :: "int32 \<Rightarrow> Session \<Rightarrow> gotime \<times> session_op \<Rightarrow> bool" where
  "spares i s (now, OpPut j s') = (j \<noteq> i)"
| "spares i s (now, OpValidate j) = (j \<noteq> i)"
| "spares i s (now, OpGC) = (now \<le> ExpiresAt s)"

lemma spares_keep:
  "wf_sessions S \<Longrightarrow> sessions S i = Some s \<Longrightarrow> list_all (spares i s) ops \<Longrightarrow> sessions (session_run ops S) i = Some s"
proof (induction ops S rule: session_run.induct)
  case (1 S)
  then show ?case by simp
next
  case (2 now oper ops S)
  then have "sessions (session_step now oper S) i = Some s"
    by (cases oper) (auto simp: sessions_ops)
  with 2 show ?case by (simp add: wf_session_step)
qed

text \<open>
  C24: a stored session reaches the game server. After any history, a session stored under \<open>i\<close>
  survives other goroutines' stores and validations of other identifiers and garbage collection
  up to its expiry, the first validation up to its expiry returns exactly it, and the next one
  nothing; one that comes later than the expiry gets nothing at all.
\<close>

theorem session_handoff:
  assumes "S = session_run after (Put i s (session_run before init_sessions))" "list_all (spares i s) after"
  shows "fst (ValidateAndDelete now i S) = (if now \<le> ExpiresAt s then Some s else None)
    \<and> fst (ValidateAndDelete now' i (snd (ValidateAndDelete now i S))) = None"
proof -
  have w: "wf_sessions (session_run before init_sessions)"
    by (intro inv_intros)
  have wS: "wf_sessions S"
    unfolding assms(1) by (intro inv_intros)
  have "sessions S i = Some s"
    unfolding assms(1) using w assms(2) by (intro spares_keep) (auto simp: sessions_ops intro!: inv_intros)
  then show ?thesis using wS by (simp add: ValidateAndDelete_result sessions_ops)
qed

theorem session_handoff_witness:
  "let s = \<lparr>ExpiresAt = 60, SKey = \<lparr>LoginOkID1 = 1, LoginOkID2 = 2, PlayOkID1 = 3, PlayOkID2 = 4\<rparr>,
           SAccount = [0x61], SAccountID = 7, SServerID = 1\<rparr>;
       S = session_run [(30, OpGC), (31, OpPut 6 s), (32, OpValidate 6)] (Put 5 s (session_run [(1, OpGC)] init_sessions))
   in fst (ValidateAndDelete 60 5 S) = Some s
      \<and> fst (ValidateAndDelete 60 5 (snd (ValidateAndDelete 60 5 S))) = None"
  proof -
  define s where "s = \<lparr>ExpiresAt = 60, SKey = \<lparr>LoginOkID1 = 1, LoginOkID2 = 2, PlayOkID1 = 3, PlayOkID2 = 4\<rparr>,
    SAccount = [0x61], SAccountID = 7, SServerID = 1\<rparr>"
  define after :: "(gotime \<times> session_op) list" where "after = [(30, OpGC), (31, OpPut 6 s), (32, OpValidate 6)]"
  have "list_all (spares 5 s) after" by (simp add: after_def s_def)
  from session_handoff [OF refl this, of 60 "[(1, OpGC)]" 60]
  show ?thesis unfolding Let_def s_def [symmetric] after_def [symmetric] by (simp add: s_def)
qed

end
