(* ===== verification/Session_Registry.thy ===== *)
theory Session_Registry
  imports Sharding
begin

unbundle bit_operations_syntax

text \<open>
  \<open>internal/service/session_registry.go\<close>: who is logged in, and the rule that decides whether a new
  login for a name may proceed. The state is the list of 64 shards, chosen by the FNV-1 hash of the
  name; every operation is one critical section, with the clock reading as an argument.

  \<open>time.Time\<close> has a zero value (year 1); \<open>Sub\<close> saturates at the bounds of a 64-bit duration.
\<close>

definition zeroTime :: gotime where
  "zeroTime = - 62135596800000000000"

definition Sub :: "gotime \<Rightarrow> gotime \<Rightarrow> int" where
  "Sub a b = max (- (2 ^ 63)) (min (2 ^ 63 - 1) (a - b))"

definition seconds :: "int \<Rightarrow> int" where
  "seconds n = n * 1000000000"

record SessionInfo =
  LoginTime :: gotime
  LastRejectionTime :: gotime
  SessionID :: int32
  ServerID :: int32

type_synonym registry = "(gostring \<rightharpoonup> SessionInfo) list"

definition ShardCount :: nat where
  "ShardCount = 64"

fun fnv1 :: "uint32 \<Rightarrow> gostring \<Rightarrow> uint32" where
  "fnv1 hash [] = hash"
| "fnv1 hash (b # bs) = fnv1 ((hash * 16777619) XOR ucast b) bs"

definition getShard :: "gostring \<Rightarrow> nat" where
  "getShard username = unat (fnv1 2166136261 username AND of_nat (ShardCount - 1))"

definition NewSessionRegistry :: registry where
  "NewSessionRegistry = replicate ShardCount Map.empty"

definition Get :: "gostring \<Rightarrow> registry \<Rightarrow> SessionInfo option" where
  "Get username R = shard_lookup getShard R username"

definition TryRegister :: "gotime \<Rightarrow> gostring \<Rightarrow> registry \<Rightarrow> (bool \<times> bool) \<times> registry" where
  "TryRegister now username R =
     (case shard_lookup getShard R username of
        None \<Rightarrow>
          ((False, True),
           shard_insert getShard username
             \<lparr>LoginTime = now, LastRejectionTime = zeroTime, SessionID = - 1, ServerID = 0\<rparr> R)
      | Some sess \<Rightarrow>
          if SessionID sess = - 1 \<and> Sub now (LoginTime sess) < seconds 5 then ((False, False), R)
          else if LastRejectionTime sess \<noteq> zeroTime \<and> Sub now (LastRejectionTime sess) < seconds 30 then
            ((True, True), shard_insert getShard username (sess\<lparr>LastRejectionTime := zeroTime\<rparr>) R)
          else
            ((False, False), shard_insert getShard username (sess\<lparr>LastRejectionTime := now\<rparr>) R))"

definition Register :: "gotime \<Rightarrow> gostring \<Rightarrow> int32 \<Rightarrow> registry \<Rightarrow> registry" where
  "Register now username sessionID R =
     shard_insert getShard username
       \<lparr>LoginTime = now, LastRejectionTime = zeroTime, SessionID = sessionID, ServerID = 0\<rparr> R"

definition Unregister :: "gostring \<Rightarrow> int32 \<Rightarrow> registry \<Rightarrow> bool \<times> registry" where
  "Unregister username sessionID R =
     (case shard_lookup getShard R username of
        None \<Rightarrow> (False, R)
      | Some sess \<Rightarrow>
          if SessionID sess = sessionID then (True, shard_delete getShard username R) else (False, R))"

definition SetGS :: "gostring \<Rightarrow> int32 \<Rightarrow> registry \<Rightarrow> registry" where
  "SetGS username serverID R =
     (case shard_lookup getShard R username of
        None \<Rightarrow> R
      | Some sess \<Rightarrow> shard_insert getShard username (sess\<lparr>ServerID := serverID\<rparr>) R)"

definition ClearServer :: "int32 \<Rightarrow> registry \<Rightarrow> registry" where
  "ClearServer serverID R = shard_keep (\<lambda>user sess. ServerID sess \<noteq> serverID) R"

lemma getShard_less: "getShard u < ShardCount"
  unfolding getShard_def by (rule unat_and_mask_less) (simp add: ShardCount_def)

interpretation reg: sharding getShard ShardCount
  by unfold_locales (rule getShard_less)

section \<open>The flat view\<close>

abbreviation active :: "registry \<Rightarrow> gostring \<rightharpoonup> SessionInfo" where
  "active R \<equiv> shard_lookup getShard R"

abbreviation wf_registry :: "registry \<Rightarrow> bool" where
  "wf_registry R \<equiv> shard_invar getShard ShardCount R"

text \<open>The same operations on one map: the contract of the registry.\<close>

definition try_register :: "gotime \<Rightarrow> SessionInfo option \<Rightarrow> (bool \<times> bool) \<times> SessionInfo" where
  "try_register now entry = (case entry of
     None \<Rightarrow> ((False, True), \<lparr>LoginTime = now, LastRejectionTime = zeroTime, SessionID = - 1, ServerID = 0\<rparr>)
   | Some sess \<Rightarrow>
       if SessionID sess = - 1 \<and> Sub now (LoginTime sess) < seconds 5 then ((False, False), sess)
       else if LastRejectionTime sess \<noteq> zeroTime \<and> Sub now (LastRejectionTime sess) < seconds 30
       then ((True, True), sess\<lparr>LastRejectionTime := zeroTime\<rparr>)
       else ((False, False), sess\<lparr>LastRejectionTime := now\<rparr>))"

lemma wf_registry_ops [inv_intros]:
  "wf_registry NewSessionRegistry"
  "wf_registry R \<Longrightarrow> wf_registry (snd (TryRegister now u R))"
  "wf_registry R \<Longrightarrow> wf_registry (Register now u sid R)"
  "wf_registry R \<Longrightarrow> wf_registry (snd (Unregister u sid R))"
  "wf_registry R \<Longrightarrow> wf_registry (SetGS u srv R)"
  "wf_registry R \<Longrightarrow> wf_registry (ClearServer srv R)"
  by (simp_all add: NewSessionRegistry_def TryRegister_def Register_def Unregister_def SetGS_def
      ClearServer_def reg.store_invars split: option.split)

lemma TryRegister_flat:
  assumes "wf_registry R"
  shows "fst (TryRegister now u R) = fst (try_register now (active R u))"
    and "active (snd (TryRegister now u R)) = (active R)(u \<mapsto> snd (try_register now (active R u)))"
  using assms by (auto simp: TryRegister_def try_register_def reg.store_simps fun_eq_iff split: option.split)

lemma registry_flat:
  "active NewSessionRegistry = Map.empty"
  "wf_registry R \<Longrightarrow> active (Register now u sid R) = (active R)(u \<mapsto>
     \<lparr>LoginTime = now, LastRejectionTime = zeroTime, SessionID = sid, ServerID = 0\<rparr>)"
  "wf_registry R \<Longrightarrow> active (snd (Unregister u sid R)) =
     (if map_option SessionID (active R u) = Some sid then (active R)(u := None) else active R)"
  "wf_registry R \<Longrightarrow> active (SetGS u srv R) =
     (active R)(u := map_option (ServerID_update (\<lambda>_. srv)) (active R u))"
  "wf_registry R \<Longrightarrow> active (ClearServer srv R) = map_filter_entries (\<lambda>u s. ServerID s \<noteq> srv) (active R)"
  by (auto simp: NewSessionRegistry_def Register_def Unregister_def SetGS_def ClearServer_def
      reg.store_simps fun_eq_iff split: option.split)

lemma Unregister_result:
  "fst (Unregister u sid R) \<longleftrightarrow> map_option SessionID (active R u) = Some sid"
  by (auto simp: Unregister_def split: option.split)

section \<open>Concurrent logins for one name\<close>

text \<open>Login attempts for the same name at the given times; the answers, in order.\<close>

fun attempts :: "gotime list \<Rightarrow> gostring \<Rightarrow> registry \<Rightarrow> (bool \<times> bool) list" where
  "attempts [] u R = []"
| "attempts (t # ts) u R = (case TryRegister t u R of (ans, R') \<Rightarrow> ans # attempts ts u R')"

lemma Sub_less: "0 < d \<Longrightarrow> d < 2 ^ 63 \<Longrightarrow> Sub a b < d \<longleftrightarrow> a - b < d"
  by (auto simp: Sub_def)

lemma attempts_pending:
  assumes "active R u = Some s" "SessionID s = - 1" "\<forall>t \<in> set ts. t - LoginTime s < seconds 5"
  shows "attempts ts u R = replicate (length ts) (False, False)"
  using assms(3)
proof (induction ts)
  case Nil
  then show ?case by simp
next
  case (Cons t ts)
  have "TryRegister t u R = ((False, False), R)"
    using assms(1,2) Cons.prems by (simp add: TryRegister_def Sub_less seconds_def)
  with Cons show ?case by simp
qed

section \<open>Refinement of one flat map\<close>

datatype registry_op =
    RTry gostring | RRegister gostring int32 | RUnregister gostring int32
  | RSetGS gostring int32 | RClear int32

text \<open>A step of the sharded registry and of the flat one: what the caller sees, and the state.\<close>

fun registry_step :: "gotime \<Rightarrow> registry_op \<Rightarrow> registry \<Rightarrow> bool list \<times> registry" where
  "registry_step now (RTry u) R = (case TryRegister now u R of ((kick, allow), R') \<Rightarrow> ([kick, allow], R'))"
| "registry_step now (RRegister u sid) R = ([], Register now u sid R)"
| "registry_step now (RUnregister u sid) R = (case Unregister u sid R of (ok, R') \<Rightarrow> ([ok], R'))"
| "registry_step now (RSetGS u srv) R = ([], SetGS u srv R)"
| "registry_step now (RClear srv) R = ([], ClearServer srv R)"

fun flat_step :: "gotime \<Rightarrow> registry_op \<Rightarrow> (gostring \<rightharpoonup> SessionInfo) \<Rightarrow> bool list \<times> (gostring \<rightharpoonup> SessionInfo)" where
  "flat_step now (RTry u) m =
     (case try_register now (m u) of ((kick, allow), s) \<Rightarrow> ([kick, allow], m(u \<mapsto> s)))"
| "flat_step now (RRegister u sid) m =
     ([], m(u \<mapsto> \<lparr>LoginTime = now, LastRejectionTime = zeroTime, SessionID = sid, ServerID = 0\<rparr>))"
| "flat_step now (RUnregister u sid) m =
     (if map_option SessionID (m u) = Some sid then ([True], m(u := None)) else ([False], m))"
| "flat_step now (RSetGS u srv) m = ([], m(u := map_option (ServerID_update (\<lambda>_. srv)) (m u)))"
| "flat_step now (RClear srv) m = ([], map_filter_entries (\<lambda>u s. ServerID s \<noteq> srv) m)"

fun registry_run :: "(gotime \<times> registry_op) list \<Rightarrow> registry \<Rightarrow> bool list list \<times> registry" where
  "registry_run [] R = ([], R)"
| "registry_run ((now, oper) # ops) R = (case registry_step now oper R of (ans, R') \<Rightarrow>
     case registry_run ops R' of (anss, R'') \<Rightarrow> (ans # anss, R''))"

fun flat_run :: "(gotime \<times> registry_op) list \<Rightarrow> (gostring \<rightharpoonup> SessionInfo) \<Rightarrow> bool list list \<times> (gostring \<rightharpoonup> SessionInfo)" where
  "flat_run [] m = ([], m)"
| "flat_run ((now, oper) # ops) m = (case flat_step now oper m of (ans, m') \<Rightarrow>
     case flat_run ops m' of (anss, m'') \<Rightarrow> (ans # anss, m''))"

lemma registry_step_refines:
  assumes "wf_registry R"
  shows "wf_registry (snd (registry_step now oper R))"
    and "map_prod id active (registry_step now oper R) = flat_step now oper (active R)"
proof -
  show "wf_registry (snd (registry_step now oper R))"
    using assms wf_registry_ops(2-6) [of R] by (cases oper) (auto split: prod.split, metis snd_conv, metis snd_conv)
  show "map_prod id active (registry_step now oper R) = flat_step now oper (active R)"
  proof (cases oper)
    case (RTry u)
    show ?thesis
      using TryRegister_flat [OF assms, of now u] by (auto simp: RTry split: prod.split)
  next
    case (RUnregister u sid)
    show ?thesis
      using registry_flat(3) [OF assms, of u sid] Unregister_result [of u sid R]
      by (auto simp: RUnregister split: prod.split)
  qed (simp_all add: registry_flat(2,4,5) [OF assms])
qed

section \<open>Properties\<close>



text \<open>
  C28: taking over a live session needs two attempts. The first login for a name that is in use is
  refused and remembered; a second one within thirty seconds is let through and asks for the old
  session to be kicked; the memory is then cleared, so a third attempt starts over.
\<close>

theorem takeover_handshake:
  assumes "wf_registry R" "Get u R = Some s" "SessionID s \<noteq> - 1"
    and "LastRejectionTime s = zeroTime \<or> t1 - LastRejectionTime s \<ge> seconds 30"
    and "t1 \<noteq> zeroTime" "t2 - t1 < seconds 30"
  shows "attempts [t1, t2, t3] u R = [(False, False), (True, True), (False, False)]"
proof -
  let ?s1 = "s\<lparr>LastRejectionTime := t1\<rparr>" and ?s2 = "s\<lparr>LastRejectionTime := zeroTime\<rparr>"
  have sub: "Sub a b < seconds 30 \<longleftrightarrow> a - b < seconds 30" for a b
    by (rule Sub_less) (simp_all add: seconds_def)
  have s: "active R u = Some s" using assms(2) by (simp add: Get_def)
  obtain a1 R1 where 1: "TryRegister t1 u R = (a1, R1)" by (rule prod.exhaust)
  have r1: "a1 = (False, False)" "active R1 u = Some ?s1" "wf_registry R1"
    using TryRegister_flat [OF assms(1), of t1 u] wf_registry_ops(2) [OF assms(1), of t1 u] assms(3,4)
    by (auto simp: 1 s try_register_def sub)
  obtain a2 R2 where 2: "TryRegister t2 u R1 = (a2, R2)" by (rule prod.exhaust)
  have r2: "a2 = (True, True)" "active R2 u = Some ?s2" "wf_registry R2"
    using TryRegister_flat [OF r1(3), of t2 u] wf_registry_ops(2) [OF r1(3), of t2 u] assms(3,5,6)
    by (auto simp: 2 r1(2) try_register_def sub)
  have "fst (TryRegister t3 u R2) = (False, False)"
    using TryRegister_flat(1) [OF r2(3), of t3 u] assms(3) by (simp add: r2(2) try_register_def)
  then show ?thesis by (auto simp: 1 2 r1 r2 split: prod.split)
qed

theorem takeover_handshake_witness:
  "attempts [100, 200, 300] [98, 111, 98] (Register 50 [98, 111, 98] 7 NewSessionRegistry)
     = [(False, False), (True, True), (False, False)]"
  using takeover_handshake [OF wf_registry_ops(3) [OF wf_registry_ops(1), of 50 "[98, 111, 98]" 7],
      of "[98, 111, 98]" _ 100 200 300]
  by (simp add: Get_def registry_flat(2) [OF wf_registry_ops(1)] seconds_def zeroTime_def)

text \<open>
  C29: the 64 shards are an implementation of one map. Every sequence of registry operations, in
  whatever order the goroutines perform them, gives the caller the same answers and leaves the
  same sessions as the flat specification.
\<close>

theorem registry_refines_flat_map:
  assumes "wf_registry R"
  shows "map_prod id active (registry_run ops R) = flat_run ops (active R)"
  using assms
proof (induction ops arbitrary: R)
  case Nil
  then show ?case by simp
next
  case (Cons x ops)
  obtain now oper where x: "x = (now, oper)" by force
  obtain ans R' where st: "registry_step now oper R = (ans, R')" by force
  have "wf_registry R'" "flat_step now oper (active R) = (ans, active R')"
    using registry_step_refines [OF Cons.prems, of now oper] by (simp_all add: st)
  with Cons.IH [of R'] show ?case
    by (auto simp: x st split: prod.splits)
qed

theorem registry_refines_flat_map_witness:
  "map_prod id active (registry_run [(1, RTry [97]), (2, RRegister [97] 5), (3, RUnregister [97] 5)] NewSessionRegistry)
     = flat_run [(1, RTry [97]), (2, RRegister [97] 5), (3, RUnregister [97] 5)] (active NewSessionRegistry)"
  by (rule registry_refines_flat_map) (rule wf_registry_ops)

end
