(* ===== verification/Netip.thy ===== *)
theory Netip
  imports Go_Strings
begin

text \<open>
  What the server uses of \<open>net/netip\<close>: the address type (the invalid zero value, IPv4, IPv6 with a
  zone), \<open>As16\<close>, \<open>Is4\<close>, \<open>As4\<close>, \<open>IsLoopback\<close> and \<open>ParseAddr\<close>. Dotted-decimal parsing is modelled
  in full; the IPv6 parser, whose result only feeds equality and the operations above, is a
  parameter.
\<close>

datatype Addr =
    AddrZero
  | Addr4 byte byte byte byte
  | Addr6 "byte list" gostring

definition As16 :: "Addr \<Rightarrow> byte list" where
  "As16 ip = (case ip of
     AddrZero \<Rightarrow> replicate 16 0
   | Addr4 a b c d \<Rightarrow> replicate 10 0 @ [0xFF, 0xFF, a, b, c, d]
   | Addr6 bs zone \<Rightarrow> bs)"

definition Is4 :: "Addr \<Rightarrow> bool" where
  "Is4 ip = (case ip of Addr4 _ _ _ _ \<Rightarrow> True | _ \<Rightarrow> False)"

definition As4 :: "Addr \<Rightarrow> byte list" where
  "As4 ip = (case ip of Addr4 a b c d \<Rightarrow> [a, b, c, d] | _ \<Rightarrow> [])"

text \<open>An IPv4-mapped IPv6 address is looked at as the IPv4 address it maps.\<close>

definition IsLoopback :: "Addr \<Rightarrow> bool" where
  "IsLoopback ip = (case ip of
     AddrZero \<Rightarrow> False
   | Addr4 a _ _ _ \<Rightarrow> a = 127
   | Addr6 bs _ \<Rightarrow>
       if take 12 bs = replicate 10 0 @ [0xFF, 0xFF] then bs ! 12 = 127
       else bs = replicate 15 0 @ [1])"

text \<open>The loop of \<open>parseIPv4Fields\<close>: the current value, its digits, the finished fields.\<close>

fun parse_v4 :: "nat \<Rightarrow> nat \<Rightarrow> byte list \<Rightarrow> gostring \<Rightarrow> byte list option" where
  "parse_v4 val digLen fields [] =
     (if length fields < 3 then None else Some (fields @ [of_nat val]))"
| "parse_v4 val digLen fields (c # s) =
     (if 48 \<le> unat c \<and> unat c \<le> 57 then
        if digLen = 1 \<and> val = 0 then None
        else let val' = val * 10 + (unat c - 48)
             in if val' > 255 then None else parse_v4 val' (digLen + 1) fields s
      else if c = 46 then
        if digLen = 0 \<or> s = [] then None
        else if length fields = 3 then None
        else parse_v4 0 0 (fields @ [of_nat val]) s
      else None)"

definition ParseAddr :: "(gostring \<Rightarrow> Addr option) \<Rightarrow> gostring \<Rightarrow> Addr option" where
  "ParseAddr parse6 s = (case filter (\<lambda>c. c = 46 \<or> c = 58 \<or> c = 37) s of
     [] \<Rightarrow> None
   | c # _ \<Rightarrow>
       if c = 46 then
         (case parse_v4 0 0 [] s of Some [a, b, c, d] \<Rightarrow> Some (Addr4 a b c d) | _ \<Rightarrow> None)
       else if c = 58 then parse6 s else None)"

lemma parse_v4_length:
  "length fields \<le> 3 \<Longrightarrow> parse_v4 val digLen fields s = Some fs \<Longrightarrow> length fs = 4"
  by (induction val digLen fields s rule: parse_v4.induct) (auto simp: Let_def split: if_splits)

lemma parse_localhost: "ParseAddr p6 (lit ''127.0.0.1'') = Some (Addr4 127 0 0 1)"
  by (simp add: ParseAddr_def lit_def)

lemma length_As16: "(\<And>bs z. ip = Addr6 bs z \<Longrightarrow> length bs = 16) \<Longrightarrow> length (As16 ip) = 16"
  by (cases ip) (simp_all add: As16_def)

end
