(* ===== verification/Rate_Limiter.thy ===== *)
theory Rate_Limiter
  imports Sharding Netip
begin

unbundle bit_operations_syntax

text \<open>
  \<open>internal/middleware/rate_limiter.go\<close>: a fixed-window counter per address, in 64 shards chosen by
  the FNV-1a hash of the address. Time is Unix nanoseconds as unbounded integers: for clocks
  between 1970 and 2262 the code's 64-bit subtractions are exact. Counters and the limit are
  32-bit and compared as signed numbers.

  An entry that is missing reads as the zero entry, as Go's map does.
\<close>

record rlEntry =
  windowStart :: gotime
  rlcount :: int32

definition zeroEntry :: rlEntry where
  "zeroEntry = \<lparr>windowStart = 0, rlcount = 0\<rparr>"

record RateLimiter =
  rlshards :: "(Addr \<rightharpoonup> rlEntry) list"
  window :: int
  limit :: int32

definition rlShardCount :: nat where
  "rlShardCount = 64"

fun fnv1a :: "uint32 \<Rightarrow> byte list \<Rightarrow> uint32" where
  "fnv1a h [] = h"
| "fnv1a h (b # bs) = fnv1a ((h XOR ucast b) * 16777619) bs"

definition rl_shardFor :: "Addr \<Rightarrow> nat" where
  "rl_shardFor ip = unat (fnv1a 2166136261 (As16 ip) AND of_nat (rlShardCount - 1))"

definition NewRateLimiter :: "int \<Rightarrow> int \<Rightarrow> RateLimiter" where
  "NewRateLimiter lim win =
     \<lparr>rlshards = replicate rlShardCount Map.empty, window = win, limit = word_of_int lim\<rparr>"

definition entry_of :: "RateLimiter \<Rightarrow> Addr \<Rightarrow> rlEntry" where
  "entry_of r ip = (case shard_lookup rl_shardFor (rlshards r) ip of None \<Rightarrow> zeroEntry | Some e \<Rightarrow> e)"

definition Allow :: "gotime \<Rightarrow> Addr \<Rightarrow> RateLimiter \<Rightarrow> bool \<times> RateLimiter" where
  "Allow now ip r =
     (let e = entry_of r ip;
          e1 = (if now - windowStart e \<ge> window r then \<lparr>windowStart = now, rlcount = 0\<rparr> else e)
      in if sint (rlcount e1) \<ge> sint (limit r) then (False, r)
         else (True, r\<lparr>rlshards := shard_insert rl_shardFor ip
                 (e1\<lparr>rlcount := rlcount e1 + 1\<rparr>) (rlshards r)\<rparr>))"

definition cleanup :: "gotime \<Rightarrow> RateLimiter \<Rightarrow> RateLimiter" where
  "cleanup now r = (let cutoff = now - window r
     in r\<lparr>rlshards := shard_keep (\<lambda>ip e. \<not> windowStart e < cutoff) (rlshards r)\<rparr>)"

lemma rl_shardFor_less: "rl_shardFor ip < rlShardCount"
  unfolding rl_shardFor_def by (rule unat_and_mask_less) (simp add: rlShardCount_def)

interpretation limiter: sharding rl_shardFor rlShardCount
  by unfold_locales (rule rl_shardFor_less)

section \<open>Invariant\<close>

text \<open>No counter has passed the limit (which keeps the 32-bit increment from wrapping).\<close>

definition wf_limiter :: "RateLimiter \<Rightarrow> bool" where
  "wf_limiter r \<longleftrightarrow> shard_invar rl_shardFor rlShardCount (rlshards r)
     \<and> (\<forall>ip e. shard_lookup rl_shardFor (rlshards r) ip = Some e \<longrightarrow>
          0 \<le> sint (rlcount e) \<and> sint (rlcount e) \<le> max 0 (sint (limit r)))"

lemma entry_count:
  "wf_limiter r \<Longrightarrow> 0 \<le> sint (rlcount (entry_of r ip)) \<and> sint (rlcount (entry_of r ip)) \<le> max 0 (sint (limit r))"
  by (auto simp: wf_limiter_def entry_of_def zeroEntry_def split: option.split)

lemma sint_lt_max: "sint (w :: int32) \<le> 2147483647"
  using sint_lt [of w] by simp

lemma sint_inc:
  assumes "sint c < sint (l :: int32)"
  shows "sint (c + 1 :: int32) = sint c + 1"
proof -
  have "- 2147483648 \<le> sint c" using sint_ge [of c] by simp
  moreover have "sint c + 1 \<le> 2147483647" using assms sint_lt_max [of l] by linarith
  ultimately show ?thesis
    by (simp add: sint_word_ariths signed_take_bit_int_eq_self)
qed

lemma wf_NewRateLimiter [inv_intros]: "wf_limiter (NewRateLimiter lim win)"
  by (simp add: wf_limiter_def NewRateLimiter_def limiter.store_simps limiter.store_invars)

lemma Allow_params [simp]:
  "window (snd (Allow now ip r)) = window r" "limit (snd (Allow now ip r)) = limit r"
  by (simp_all add: Allow_def Let_def)

lemma wf_Allow [inv_intros]: "wf_limiter r \<Longrightarrow> wf_limiter (snd (Allow now ip r))"
proof -
  assume w: "wf_limiter r"
  define e1 where "e1 = (if now - windowStart (entry_of r ip) \<ge> window r
      then \<lparr>windowStart = now, rlcount = 0\<rparr> else entry_of r ip)"
  have e1: "0 \<le> sint (rlcount e1)" using entry_count [OF w, of ip] by (simp add: e1_def)
  show ?thesis
  proof (cases "sint (rlcount e1) < sint (limit r)")
    case False
    then show ?thesis using w by (simp add: Allow_def Let_def e1_def [symmetric])
  next
    case True
    with w e1 show ?thesis
      using sint_inc [OF True]
      by (auto simp: Allow_def Let_def e1_def [symmetric] wf_limiter_def limiter.store_simps
          limiter.store_invars split: if_splits)
  qed
qed

lemma wf_cleanup [inv_intros]: "wf_limiter r \<Longrightarrow> wf_limiter (cleanup now r)"
  by (auto simp: wf_limiter_def cleanup_def limiter.store_simps limiter.store_invars)

section \<open>Behaviour of one address\<close>

text \<open>The decision and the next entry depend on the address's own entry only.\<close>

definition rl_step :: "int \<Rightarrow> int32 \<Rightarrow> gotime \<Rightarrow> rlEntry \<Rightarrow> bool \<times> rlEntry" where
  "rl_step win lim now e =
     (let e1 = (if now - windowStart e \<ge> win then \<lparr>windowStart = now, rlcount = 0\<rparr> else e)
      in if sint (rlcount e1) \<ge> sint lim then (False, e) else (True, e1\<lparr>rlcount := rlcount e1 + 1\<rparr>))"

lemma Allow_entry:
  assumes "wf_limiter r"
  shows "fst (Allow now ip r) = fst (rl_step (window r) (limit r) now (entry_of r ip))"
    and "entry_of (snd (Allow now ip r)) ip = snd (rl_step (window r) (limit r) now (entry_of r ip))"
    and "ip' \<noteq> ip \<Longrightarrow> entry_of (snd (Allow now ip r)) ip' = entry_of r ip'"
  using assms by (auto simp: Allow_def rl_step_def Let_def entry_of_def wf_limiter_def limiter.store_simps)

lemma entry_of_cleanup:
  assumes "wf_limiter r"
  shows "entry_of (cleanup now r) ip = entry_of r ip
    \<or> (entry_of (cleanup now r) ip = zeroEntry \<and> windowStart (entry_of r ip) < now - window r)"
  using assms by (auto simp: entry_of_def cleanup_def Let_def wf_limiter_def limiter.store_simps
      map_filter_entries_def split: option.splits)

text \<open>A sequence of attempts from one address: how many are admitted.\<close>

fun admitted :: "gotime list \<Rightarrow> Addr \<Rightarrow> RateLimiter \<Rightarrow> nat" where
  "admitted [] ip r = 0"
| "admitted (t # ts) ip r =
     (case Allow t ip r of (ok, r') \<Rightarrow> (if ok then 1 else 0) + admitted ts ip r')"

definition slack :: "RateLimiter \<Rightarrow> Addr \<Rightarrow> int" where
  "slack r ip = max 0 (sint (limit r)) - sint (rlcount (entry_of r ip))"

lemma admitted_in_window:
  assumes "wf_limiter r" "\<forall>t \<in> set ts. t - windowStart (entry_of r ip) < window r"
  shows "int (admitted ts ip r) \<le> slack r ip"
  using assms
proof (induction ts arbitrary: r)
  case Nil
  then show ?case using entry_count [of r ip] by (simp add: slack_def)
next
  case (Cons t ts)
  let ?e = "entry_of r ip"
  obtain ok r' where a: "Allow t ip r = (ok, r')" by force
  note s = Allow_entry(1,2) [OF Cons.prems(1), where now = t and ip = ip, unfolded a fst_conv snd_conv]
  have r': "wf_limiter r'" "window r' = window r" "limit r' = limit r"
    using wf_Allow [OF Cons.prems(1), of t ip] Allow_params [of t ip r] by (simp_all add: a)
  have step: "rl_step (window r) (limit r) t ?e
      = (if sint (rlcount ?e) \<ge> sint (limit r) then (False, ?e) else (True, ?e\<lparr>rlcount := rlcount ?e + 1\<rparr>))"
    using Cons.prems(2) by (simp add: rl_step_def Let_def)
  have "int (admitted ts ip r') \<le> slack r' ip"
    by (rule Cons.IH) (use r' Cons.prems(2) s(2) step in auto)
  moreover have "slack r' ip + (if ok then 1 else 0) = slack r ip"
    using s(1,2) step sint_inc [of "rlcount ?e" "limit r"] r'(3) by (auto simp: slack_def)
  ultimately show ?case by (auto simp: a)
qed

lemma slack_nonneg: "wf_limiter r \<Longrightarrow> 0 \<le> slack r ip"
  using entry_count [of r ip] by (simp add: slack_def)

lemma Allow_reset:
  assumes "wf_limiter r" "t - windowStart (entry_of r ip) \<ge> window r" "0 < sint (limit r)"
  shows "fst (Allow t ip r)" "windowStart (entry_of (snd (Allow t ip r)) ip) = t"
    "slack (snd (Allow t ip r)) ip = sint (limit r) - 1"
  using Allow_entry(1,2) [OF assms(1), where now = t and ip = ip] assms(2,3) sint_inc [of 0 "limit r"]
  by (simp_all add: rl_step_def slack_def)

lemma admitted_span:
  assumes "wf_limiter r" "\<forall>t \<in> set ts. \<forall>t' \<in> set ts. t - t' < window r"
  shows "int (admitted ts ip r) \<le> slack r ip + max 0 (sint (limit r))"
  using assms
proof (induction ts arbitrary: r)
  case Nil
  then show ?case using slack_nonneg [of r ip] by simp
next
  case (Cons t ts)
  let ?e = "entry_of r ip"
  obtain ok r' where a: "Allow t ip r = (ok, r')" by force
  note s = Allow_entry(1,2) [OF Cons.prems(1), where now = t and ip = ip, unfolded a fst_conv snd_conv]
  have r': "wf_limiter r'" "window r' = window r" "limit r' = limit r"
    using wf_Allow [OF Cons.prems(1), of t ip] Allow_params [of t ip r] by (simp_all add: a)
  have IH: "int (admitted ts ip r') \<le> slack r' ip + max 0 (sint (limit r))"
    using Cons.IH [OF r'(1)] Cons.prems(2) r' by simp
  show ?case
  proof (cases "t - windowStart ?e \<ge> window r \<and> 0 < sint (limit r)")
    case True
    note res = Allow_reset [OF Cons.prems(1) True [THEN conjunct1] True [THEN conjunct2], unfolded a]
    have "int (admitted ts ip r') \<le> slack r' ip"
      by (rule admitted_in_window) (use r' Cons.prems(2) res(2) in auto)
    with res(3) slack_nonneg [OF Cons.prems(1), of ip] show ?thesis by (simp add: a)
  next
    case False
    have step: "rl_step (window r) (limit r) t ?e =
        (if sint (rlcount ?e) \<ge> sint (limit r) then (False, ?e) else (True, ?e\<lparr>rlcount := rlcount ?e + 1\<rparr>))"
      using False entry_count [OF Cons.prems(1), of ip] by (auto simp: rl_step_def Let_def)
    have "slack r' ip + (if ok then 1 else 0) = slack r ip"
      using s step sint_inc [of "rlcount ?e" "limit r"] r'(3) by (auto simp: slack_def)
    with IH show ?thesis by (auto simp: a)
  qed
qed

text \<open>Two limiters whose entries for the address are equal, or both out of their window, decide alike.\<close>

lemma admitted_cong:
  assumes "wf_limiter r" "wf_limiter r'" "window r = window r'" "limit r = limit r'"
    and "entry_of r ip = entry_of r' ip \<or>
      (\<forall>t \<in> set ts. t - windowStart (entry_of r ip) \<ge> window r \<and> t - windowStart (entry_of r' ip) \<ge> window r)"
  shows "admitted ts ip r = admitted ts ip r'"
  using assms
proof (induction ts arbitrary: r r')
  case Nil
  then show ?case by simp
next
  case (Cons t ts)
  obtain ok r1 ok' r1' where a: "Allow t ip r = (ok, r1)" "Allow t ip r' = (ok', r1')" by force
  note s = Allow_entry(1,2) [OF Cons.prems(1), where now = t and ip = ip, unfolded a fst_conv snd_conv]
    Allow_entry(1,2) [OF Cons.prems(2), where now = t and ip = ip, unfolded a fst_conv snd_conv]
  have "ok = ok'" using Cons.prems(3-5) s by (auto simp: rl_step_def Let_def)
  moreover have "admitted ts ip r1 = admitted ts ip r1'"
  proof (rule Cons.IH)
    show "wf_limiter r1" "wf_limiter r1'" "window r1 = window r1'" "limit r1 = limit r1'"
      using wf_Allow [OF Cons.prems(1), of t ip] wf_Allow [OF Cons.prems(2), of t ip]
        Allow_params [of t ip r] Allow_params [of t ip r'] Cons.prems(3,4) by (simp_all add: a)
    show "entry_of r1 ip = entry_of r1' ip \<or> (\<forall>t \<in> set ts. t - windowStart (entry_of r1 ip) \<ge> window r1
        \<and> t - windowStart (entry_of r1' ip) \<ge> window r1)"
      using Cons.prems(3-5) s Allow_params [of t ip r] by (auto simp: rl_step_def Let_def a split: if_splits)
  qed
  ultimately show ?case by (simp add: a)
qed

section \<open>Properties\<close>



text \<open>
  C36: the background cleanup is invisible. From the moment it runs (and for clocks at least one
  window after the epoch), every later sequence of attempts of every address is admitted exactly
  as if no entry had been evicted.
\<close>

theorem cleanup_transparent:
  assumes "wf_limiter r" "\<forall>t \<in> set ts. now \<le> t \<and> window r \<le> t"
  shows "admitted ts ip (cleanup now r) = admitted ts ip r"
proof (rule admitted_cong)
  show "wf_limiter (cleanup now r)" using assms(1) by (rule wf_cleanup)
  show "entry_of (cleanup now r) ip = entry_of r ip \<or> (\<forall>t \<in> set ts.
      t - windowStart (entry_of (cleanup now r) ip) \<ge> window (cleanup now r)
      \<and> t - windowStart (entry_of r ip) \<ge> window (cleanup now r))"
    using entry_of_cleanup [OF assms(1), of now ip] assms(2)
    by (fastforce simp: zeroEntry_def cleanup_def Let_def)
qed (use assms(1) in \<open>simp_all add: cleanup_def Let_def\<close>)

theorem cleanup_transparent_witness:
  "admitted [200, 201, 202] (Addr4 10 0 0 1) (cleanup 150 (snd (Allow 100 (Addr4 10 0 0 1) (NewRateLimiter 2 30))))
   = admitted [200, 201, 202] (Addr4 10 0 0 1) (snd (Allow 100 (Addr4 10 0 0 1) (NewRateLimiter 2 30)))"
  using cleanup_transparent [OF wf_Allow [OF wf_NewRateLimiter [of 2 30], of 100 "Addr4 10 0 0 1"],
      of "[200, 201, 202]" 150 "Addr4 10 0 0 1"]
  by (simp add: NewRateLimiter_def)

end
