(* ===== verification/Database.thy ===== *)
theory Database
  imports Netip
begin

text \<open>
  \<open>internal/db\<close> (with the statements of \<open>queries/l2auth.sql\<close> and the tables of
  \<open>schemas/l2auth.sql\<close>): every query the server issues, as an operation on the two tables. A query
  takes a flag \<open>fault\<close> that says whether the database failed to answer; then it reports an error and
  changes nothing. \<open>pglower\<close> is the database's \<open>lower\<close> function.

  The primary keys and the unique index on \<open>lower(name)\<close> are enforced by the operations that insert,
  and stated as the invariant \<open>wf_db\<close>.
\<close>

record L2authAccount =
  acc_id :: int64
  acc_name :: gostring
  acc_pwd :: gostring
  acc_access_level :: int32
  acc_last_server :: int32
  acc_banned :: bool
  acc_last_ip :: "Addr option"
  acc_modify_date :: gotime
  acc_creation_date :: gotime

record L2authIpBanned =
  ban_ip :: Addr
  ban_expiry :: gotime
  ban_reason :: gostring

record database =
  accounts :: "L2authAccount list"
  ip_banned :: "L2authIpBanned list"
  next_id :: int64

record FindAccountRow =
  row_ID :: int64
  row_Name :: gostring
  row_Pwd :: gostring
  row_AccessLevel :: int32
  row_LastServer :: int32
  row_Banned :: bool

section \<open>Queries\<close>

definition AddIPBan :: "bool \<Rightarrow> Addr \<Rightarrow> gotime \<Rightarrow> gostring \<Rightarrow> database \<Rightarrow> err option \<times> database" where
  "AddIPBan fault ip expiry reason db =
     (if fault then (Some ErrDatabase, db)
      else (None, db\<lparr>ip_banned := (
        if \<exists>b \<in> set (ip_banned db). ban_ip b = ip
        then map (\<lambda>b. if ban_ip b = ip then b\<lparr>ban_expiry := expiry, ban_reason := reason\<rparr> else b) (ip_banned db)
        else ip_banned db @ [\<lparr>ban_ip = ip, ban_expiry = expiry, ban_reason = reason\<rparr>])\<rparr>))"

definition row_of :: "L2authAccount \<Rightarrow> FindAccountRow" where
  "row_of a = \<lparr>row_ID = acc_id a, row_Name = acc_name a, row_Pwd = acc_pwd a,
     row_AccessLevel = acc_access_level a, row_LastServer = acc_last_server a, row_Banned = acc_banned a\<rparr>"

definition FindAccount :: "(gostring \<Rightarrow> gostring) \<Rightarrow> bool \<Rightarrow> gostring \<Rightarrow> database \<Rightarrow> FindAccountRow outcome" where
  "FindAccount pglower fault arg db =
     (if fault then Error ErrDatabase
      else case filter (\<lambda>a. acc_name a = pglower arg) (accounts db) of
        [] \<Rightarrow> Error ErrNoRows
      | a # _ \<Rightarrow> Ok (row_of a))"

definition GetActiveIPBans :: "bool \<Rightarrow> gotime \<Rightarrow> database \<Rightarrow> L2authIpBanned list outcome" where
  "GetActiveIPBans fault now db =
     (if fault then Error ErrDatabase else Ok (filter (\<lambda>b. ban_expiry b > now) (ip_banned db)))"

definition IsIPBanned :: "bool \<Rightarrow> gotime \<Rightarrow> Addr \<Rightarrow> database \<Rightarrow> bool outcome" where
  "IsIPBanned fault now ip db =
     (if fault then Error ErrDatabase
      else Ok (\<exists>b \<in> set (ip_banned db). ban_ip b = ip \<and> ban_expiry b > now))"

definition RegisterAccount ::
    "(gostring \<Rightarrow> gostring) \<Rightarrow> bool \<Rightarrow> gotime \<Rightarrow> gostring \<Rightarrow> gostring \<Rightarrow> Addr option \<Rightarrow> database \<Rightarrow> int64 outcome \<times> database" where
  "RegisterAccount pglower fault now nm pwd lastIp db =
     (if fault \<or> (\<exists>a \<in> set (accounts db). pglower (acc_name a) = pglower nm) then (Error ErrDatabase, db)
      else (Ok (next_id db),
        db\<lparr>accounts := accounts db @ [\<lparr>acc_id = next_id db, acc_name = nm, acc_pwd = pwd,
             acc_access_level = 0, acc_last_server = 0, acc_banned = False, acc_last_ip = lastIp,
             acc_modify_date = now, acc_creation_date = now\<rparr>],
           next_id := next_id db + 1\<rparr>))"

definition RemoveIPBan :: "bool \<Rightarrow> Addr \<Rightarrow> database \<Rightarrow> err option \<times> database" where
  "RemoveIPBan fault ip db =
     (if fault then (Some ErrDatabase, db)
      else (None, db\<lparr>ip_banned := filter (\<lambda>b. ban_ip b \<noteq> ip) (ip_banned db)\<rparr>))"

text \<open>The three updates of the accounts whose name equals the argument.\<close>

definition update_by_name ::
    "bool \<Rightarrow> gostring \<Rightarrow> (L2authAccount \<Rightarrow> L2authAccount) \<Rightarrow> database \<Rightarrow> err option \<times> database" where
  "update_by_name fault nm f db =
     (if fault then (Some ErrDatabase, db)
      else (None, db\<lparr>accounts := map (\<lambda>a. if acc_name a = nm then f a else a) (accounts db)\<rparr>))"

definition UpdateAccountLastIPByName ::
    "bool \<Rightarrow> gotime \<Rightarrow> gostring \<Rightarrow> Addr option \<Rightarrow> database \<Rightarrow> err option \<times> database" where
  "UpdateAccountLastIPByName fault now nm lastIp =
     update_by_name fault nm (\<lambda>a. a\<lparr>acc_last_ip := lastIp, acc_modify_date := now\<rparr>)"

definition UpdateAccountLastServer ::
    "bool \<Rightarrow> gotime \<Rightarrow> gostring \<Rightarrow> int32 \<Rightarrow> database \<Rightarrow> err option \<times> database" where
  "UpdateAccountLastServer fault now nm lastServer =
     update_by_name fault nm (\<lambda>a. a\<lparr>acc_last_server := lastServer, acc_modify_date := now\<rparr>)"

definition UpdateAccountPasswordByName ::
    "bool \<Rightarrow> gotime \<Rightarrow> gostring \<Rightarrow> gostring \<Rightarrow> database \<Rightarrow> err option \<times> database" where
  "UpdateAccountPasswordByName fault now nm pwd =
     update_by_name fault nm (\<lambda>a. a\<lparr>acc_pwd := pwd, acc_modify_date := now\<rparr>)"

section \<open>Invariant\<close>

definition wf_db :: "(gostring \<Rightarrow> gostring) \<Rightarrow> database \<Rightarrow> bool" where
  "wf_db pglower db \<longleftrightarrow>
     distinct (map (\<lambda>a. pglower (acc_name a)) (accounts db)) \<and> distinct (map ban_ip (ip_banned db))"

lemma wf_AddIPBan [inv_intros]: "wf_db l db \<Longrightarrow> wf_db l (snd (AddIPBan f ip e r db))"
proof -
  assume w: "wf_db l db"
  have "map ban_ip (map (\<lambda>b. if ban_ip b = ip then b\<lparr>ban_expiry := e, ban_reason := r\<rparr> else b) bs) = map ban_ip bs"
    for bs :: "L2authIpBanned list" by (induction bs) simp_all
  with w show ?thesis by (simp add: wf_db_def AddIPBan_def del: map_map) blast
qed

lemma wf_RemoveIPBan [inv_intros]: "wf_db l db \<Longrightarrow> wf_db l (snd (RemoveIPBan f ip db))"
  by (simp add: wf_db_def RemoveIPBan_def distinct_map_filter)

lemma wf_RegisterAccount [inv_intros]: "wf_db l db \<Longrightarrow> wf_db l (snd (RegisterAccount l f now nm p ip db))"
  by (auto simp: wf_db_def RegisterAccount_def)

lemma wf_update_by_name:
  assumes "\<And>a. acc_name (g a) = acc_name a" "wf_db l db"
  shows "wf_db l (snd (update_by_name f nm g db))"
proof -
  have "map (\<lambda>a. l (acc_name a)) (map (\<lambda>a. if acc_name a = nm then g a else a) as) = map (\<lambda>a. l (acc_name a)) as"
    for as using assms(1) by (induction as) simp_all
  with assms(2) show ?thesis by (simp add: wf_db_def update_by_name_def del: map_map)
qed

lemma wf_updates [inv_intros]:
  "wf_db l db \<Longrightarrow> wf_db l (snd (UpdateAccountLastIPByName f now nm ip db))"
  "wf_db l db \<Longrightarrow> wf_db l (snd (UpdateAccountLastServer f now nm srv db))"
  "wf_db l db \<Longrightarrow> wf_db l (snd (UpdateAccountPasswordByName f now nm p db))"
  by (simp_all add: UpdateAccountLastIPByName_def UpdateAccountLastServer_def
      UpdateAccountPasswordByName_def wf_update_by_name)

lemma IsIPBanned_after_AddIPBan:
  "IsIPBanned False now ip (snd (AddIPBan False ip e r db)) = Ok (e > now)"
proof (cases "\<exists>b \<in> set (ip_banned db). ban_ip b = ip")
  case True
  then obtain b where b: "b \<in> set (ip_banned db)" "ban_ip b = ip" by blast
  then have "b\<lparr>ban_expiry := e, ban_reason := r\<rparr> \<in> set (ip_banned (snd (AddIPBan False ip e r db)))"
    by (auto simp: AddIPBan_def intro!: image_eqI [of _ _ b])
  then have "e > now \<Longrightarrow> \<exists>b' \<in> set (ip_banned (snd (AddIPBan False ip e r db))). ban_ip b' = ip \<and> ban_expiry b' > now"
    using b(2) by (intro bexI [of _ "b\<lparr>ban_expiry := e, ban_reason := r\<rparr>"]) simp_all
  moreover have "\<forall>b' \<in> set (ip_banned (snd (AddIPBan False ip e r db))). ban_ip b' = ip \<longrightarrow> ban_expiry b' = e"
    using True by (auto simp: AddIPBan_def)
  ultimately show ?thesis unfolding IsIPBanned_def by auto
next
  case False
  then show ?thesis by (auto simp: IsIPBanned_def AddIPBan_def)
qed

lemma IsIPBanned_after_RemoveIPBan:
  "IsIPBanned False now ip (snd (RemoveIPBan False ip db)) = Ok False"
  by (auto simp: IsIPBanned_def RemoveIPBan_def)

section \<open>What the authenticator relies on\<close>

text \<open>
  The contract of the account queries: an account that was registered under a lower-case name is
  found under it, as a fresh one, and a registration needs a free name. The authenticator's lemmas
  are proved from these laws.
\<close>

locale account_queries =
  fixes lower :: "gostring \<Rightarrow> gostring"
    and find :: "gostring \<Rightarrow> 'd \<Rightarrow> FindAccountRow outcome"
    and register :: "gotime \<Rightarrow> gostring \<Rightarrow> gostring \<Rightarrow> Addr option \<Rightarrow> 'd \<Rightarrow> int64 outcome \<times> 'd"
    and update_ip :: "gotime \<Rightarrow> gostring \<Rightarrow> Addr option \<Rightarrow> 'd \<Rightarrow> err option \<times> 'd"
  assumes find_registered:
      "register now nm pwd ip d = (Ok i, d') \<Longrightarrow> lower nm = nm \<Longrightarrow>
       find nm d' = Ok \<lparr>row_ID = i, row_Name = nm, row_Pwd = pwd, row_AccessLevel = 0,
         row_LastServer = 0, row_Banned = False\<rparr>"
    and find_update_ip: "find nm (snd (update_ip now nm' ip d)) = find nm d"
begin

lemma find_after_login:
  assumes "register now nm pwd ip d = (Ok i, d')" "lower nm = nm"
  shows "find nm (snd (update_ip now' nm ip' d')) = find nm d'"
    and "\<exists>row. find nm d' = Ok row \<and> row_ID row = i \<and> row_Pwd row = pwd \<and> \<not> row_Banned row"
  using find_registered [OF assms] find_update_ip by auto

end

lemma filter_updated_rows:
  assumes "\<And>a. acc_name (g a) = acc_name a" "\<And>a. row_of (g a) = row_of a"
  shows "map row_of (filter (\<lambda>a. acc_name a = nm) (map (\<lambda>a. if acc_name a = nm' then g a else a) as))
    = map row_of (filter (\<lambda>a. acc_name a = nm) as)"
  using assms by (induction as) auto

lemma FindAccount_map:
  "FindAccount l f arg db = (if f then Error ErrDatabase
     else case map row_of (filter (\<lambda>a. acc_name a = l arg) (accounts db)) of [] \<Rightarrow> Error ErrNoRows | r # _ \<Rightarrow> Ok r)"
  by (auto simp: FindAccount_def split: list.split)

interpretation sql: account_queries l "FindAccount l False" "RegisterAccount l fr" "UpdateAccountLastIPByName fu"
  for l fr fu
proof
  fix now nm pwd ip db i db'
  assume reg: "RegisterAccount l fr now nm pwd ip db = (Ok i, db')" and low: "l nm = nm"
  then have "filter (\<lambda>a. acc_name a = nm) (accounts db) = []"
    by (auto simp: RegisterAccount_def filter_empty_conv split: if_splits)
  with reg low show "FindAccount l False nm db' = Ok \<lparr>row_ID = i, row_Name = nm, row_Pwd = pwd,
      row_AccessLevel = 0, row_LastServer = 0, row_Banned = False\<rparr>"
    by (auto simp: RegisterAccount_def FindAccount_def row_of_def split: if_splits)
next
  fix nm now nm' ip db
  show "FindAccount l False nm (snd (UpdateAccountLastIPByName fu now nm' ip db)) = FindAccount l False nm db"
    by (simp add: FindAccount_map UpdateAccountLastIPByName_def update_by_name_def filter_updated_rows row_of_def)
qed

end
