(* ===== verification/Ban_Manager.thy ===== *)
theory Ban_Manager
  imports Database
begin

text \<open>
  \<open>internal/service/ban_manager.go\<close>: failed logins per address and the bans they lead to. The state
  is the two maps and the two settings; the writes to the database, which the code hands to
  background goroutines, are returned as commands for \<open>run_ban_cmd\<close> to execute at any later time.

  \<open>IsBanned\<close> looks at the map under the read lock and, when the ban has expired, again under the
  write lock. The two critical sections are two definitions, so that another goroutine may act in
  between; \<open>IsBanned\<close> is their composition without such interference.
\<close>

record BanManager =
  ipBans :: "Addr \<rightharpoonup> gotime"
  loginFailures :: "Addr \<rightharpoonup> int"
  banDuration :: int
  maxAttempts :: int

datatype ban_cmd = CmdAddIPBan Addr gotime gostring | CmdRemoveIPBan Addr

definition run_ban_cmd :: "bool \<Rightarrow> ban_cmd \<Rightarrow> database \<Rightarrow> database" where
  "run_ban_cmd fault cmd db = (case cmd of
     CmdAddIPBan ip expiry reason \<Rightarrow> snd (AddIPBan fault ip expiry reason db)
   | CmdRemoveIPBan ip \<Rightarrow> snd (RemoveIPBan fault ip db))"

text \<open>Start-up: the active bans of the database are loaded in order; a failing query loads none.\<close>

definition NewBanManager :: "L2authIpBanned list outcome \<Rightarrow> int \<Rightarrow> int \<Rightarrow> BanManager" where
  "NewBanManager loaded maxAtt dur =
     \<lparr>ipBans = (case loaded of
        Ok bans \<Rightarrow> fold (\<lambda>ban m. m(ban_ip ban \<mapsto> ban_expiry ban)) bans Map.empty
      | _ \<Rightarrow> Map.empty),
      loginFailures = Map.empty, banDuration = dur, maxAttempts = maxAtt\<rparr>"

datatype ban_answer = Banned bool | Recheck

definition IsBanned_read :: "gotime \<Rightarrow> Addr \<Rightarrow> BanManager \<Rightarrow> ban_answer" where
  "IsBanned_read now ip m =
     (if IsLoopback ip then Banned False
      else case ipBans m ip of
        None \<Rightarrow> Banned False
      | Some expiry \<Rightarrow> if now > expiry then Recheck else Banned True)"

definition IsBanned_locked :: "gotime \<Rightarrow> Addr \<Rightarrow> BanManager \<Rightarrow> bool \<times> BanManager \<times> ban_cmd list" where
  "IsBanned_locked now ip m =
     (case ipBans m ip of
        Some expiry \<Rightarrow>
          if now > expiry then (False, m\<lparr>ipBans := (ipBans m)(ip := None)\<rparr>, [CmdRemoveIPBan ip])
          else (True, m, [])
      | None \<Rightarrow> (True, m, []))"

definition IsBanned :: "gotime \<Rightarrow> gotime \<Rightarrow> Addr \<Rightarrow> BanManager \<Rightarrow> bool \<times> BanManager \<times> ban_cmd list" where
  "IsBanned now1 now2 ip m =
     (case IsBanned_read now1 ip m of
        Banned b \<Rightarrow> (b, m, [])
      | Recheck \<Rightarrow> IsBanned_locked now2 ip m)"

definition ban_reason_text :: gostring where
  "ban_reason_text = lit ''Too many login attempts''"

definition RecordFailure :: "gotime \<Rightarrow> Addr \<Rightarrow> BanManager \<Rightarrow> BanManager \<times> ban_cmd list" where
  "RecordFailure now ip m =
     (if IsLoopback ip then (m, [])
      else let count = (case loginFailures m ip of None \<Rightarrow> 0 | Some c \<Rightarrow> c) + 1;
               m1 = m\<lparr>loginFailures := (loginFailures m)(ip \<mapsto> count)\<rparr>
           in if count \<ge> maxAttempts m1 then
                let expiry = now + banDuration m1
                in (m1\<lparr>ipBans := (ipBans m1)(ip \<mapsto> expiry), loginFailures := (loginFailures m1)(ip := None)\<rparr>,
                    [CmdAddIPBan ip expiry ban_reason_text])
              else (m1, []))"

definition ResetAttempts :: "Addr \<Rightarrow> BanManager \<Rightarrow> BanManager" where
  "ResetAttempts ip m = m\<lparr>loginFailures := (loginFailures m)(ip := None)\<rparr>"

section \<open>Invariant\<close>

text \<open>Recorded failures are positive and below the threshold; the host itself never appears.\<close>

definition wf_bans :: "BanManager \<Rightarrow> bool" where
  "wf_bans m \<longleftrightarrow>
     (\<forall>ip c. loginFailures m ip = Some c \<longrightarrow> 0 < c \<and> c < maxAttempts m \<and> \<not> IsLoopback ip)"

lemma wf_NewBanManager [inv_intros]: "wf_bans (NewBanManager l a d)"
  by (simp add: wf_bans_def NewBanManager_def)

lemma wf_RecordFailure [inv_intros]: "wf_bans m \<Longrightarrow> wf_bans (fst (RecordFailure now ip m))"
  by (auto simp: wf_bans_def RecordFailure_def Let_def split: option.split) fastforce

lemma wf_ResetAttempts [inv_intros]: "wf_bans m \<Longrightarrow> wf_bans (ResetAttempts ip m)"
  by (simp add: wf_bans_def ResetAttempts_def)

lemma wf_IsBanned [inv_intros]: "wf_bans m \<Longrightarrow> wf_bans (fst (snd (IsBanned n1 n2 ip m)))"
  by (auto simp: wf_bans_def IsBanned_def IsBanned_locked_def split: ban_answer.split option.split)

lemma ban_settings [simp]:
  "maxAttempts (fst (RecordFailure now ip m)) = maxAttempts m"
  "banDuration (fst (RecordFailure now ip m)) = banDuration m"
  by (simp_all add: RecordFailure_def Let_def)

section \<open>Failures in a row\<close>

fun record_failures :: "gotime list \<Rightarrow> Addr \<Rightarrow> BanManager \<Rightarrow> BanManager" where
  "record_failures [] ip m = m"
| "record_failures (t # ts) ip m = record_failures ts ip (fst (RecordFailure t ip m))"

definition failures :: "BanManager \<Rightarrow> Addr \<Rightarrow> int" where
  "failures m ip = (case loginFailures m ip of None \<Rightarrow> 0 | Some c \<Rightarrow> c)"

lemma RecordFailure_below:
  assumes "\<not> IsLoopback ip" "failures m ip + 1 < maxAttempts m"
  shows "ipBans (fst (RecordFailure t ip m)) = ipBans m" "failures (fst (RecordFailure t ip m)) ip = failures m ip + 1"
  using assms by (auto simp: RecordFailure_def failures_def Let_def)

lemma RecordFailure_ban:
  assumes "\<not> IsLoopback ip" "failures m ip + 1 \<ge> maxAttempts m"
  shows "ipBans (fst (RecordFailure t ip m)) = (ipBans m)(ip \<mapsto> t + banDuration m)"
    "failures (fst (RecordFailure t ip m)) ip = 0"
    "snd (RecordFailure t ip m) = [CmdAddIPBan ip (t + banDuration m) ban_reason_text]"
  using assms by (auto simp: RecordFailure_def failures_def Let_def)

lemma record_failures_below:
  assumes "\<not> IsLoopback ip" "failures m ip + int (length ts) < maxAttempts m"
  shows "ipBans (record_failures ts ip m) = ipBans m"
    "failures (record_failures ts ip m) ip = failures m ip + int (length ts)"
    "maxAttempts (record_failures ts ip m) = maxAttempts m"
    "banDuration (record_failures ts ip m) = banDuration m"
  using assms(2)
  by (induction ts arbitrary: m) (simp_all add: RecordFailure_below [OF assms(1)])

lemma record_failures_append:
  "record_failures (ts @ us) ip m = record_failures us ip (record_failures ts ip m)"
  by (induction ts arbitrary: m) simp_all

lemma IsBanned_active:
  assumes "\<not> IsLoopback ip" "ipBans m ip = Some e" "now \<le> e"
  shows "IsBanned now now2 ip m = (True, m, [])"
  using assms by (simp add: IsBanned_def IsBanned_read_def)

section \<open>Loading bans\<close>

lemma AddIPBan_row:
  "\<exists>b \<in> set (ip_banned (snd (AddIPBan False ip e r db))). ban_ip b = ip \<and> ban_expiry b = e"
proof (cases "\<exists>b \<in> set (ip_banned db). ban_ip b = ip")
  case True
  then obtain b where "b \<in> set (ip_banned db)" "ban_ip b = ip" by blast
  with True show ?thesis
    by (intro bexI [of _ "b\<lparr>ban_expiry := e, ban_reason := r\<rparr>"])
      (auto simp: AddIPBan_def intro!: image_eqI [of _ _ b])
next
  case False
  then show ?thesis by (simp add: AddIPBan_def)
qed

lemma fold_bans_other:
  "k \<notin> ban_ip ` set bs \<Longrightarrow> fold (\<lambda>ban m. m(ban_ip ban \<mapsto> ban_expiry ban)) bs m k = m k"
  by (induction bs arbitrary: m) auto

lemma fold_bans_lookup:
  "b \<in> set bs \<Longrightarrow> distinct (map ban_ip bs) \<Longrightarrow>
   fold (\<lambda>ban m. m(ban_ip ban \<mapsto> ban_expiry ban)) bs m (ban_ip b) = Some (ban_expiry b)"
  by (induction bs arbitrary: m) (auto simp: fold_bans_other)

section \<open>Properties\<close>

text \<open>
  C33: the threshold is exact. An address that starts without failures is not banned by fewer than
  \<open>maxAttempts\<close> failed logins; the \<open>maxAttempts\<close>-th bans it for \<open>banDuration\<close> from the moment of that
  failure, and every check until then reports it banned.
\<close>

theorem ban_after_max_attempts:
  assumes "\<not> IsLoopback ip" "failures m ip = 0" "ipBans m ip = None"
    and "int (length ts) + 1 = maxAttempts m" "now \<le> t + banDuration m"
  shows "ipBans (record_failures ts ip m) ip = None
    \<and> ipBans (record_failures (ts @ [t]) ip m) ip = Some (t + banDuration m)
    \<and> fst (IsBanned now now2 ip (record_failures (ts @ [t]) ip m))"
proof -
  have "failures m ip + int (length ts) < maxAttempts m" using assms(2,4) by simp
  note r = record_failures_below [OF assms(1) this]
  have "ipBans (record_failures ts ip m) ip = None" using r(1) assms(3) by simp
  moreover have ban: "ipBans (record_failures (ts @ [t]) ip m) ip = Some (t + banDuration m)"
    using RecordFailure_ban(1) [OF assms(1), of "record_failures ts ip m" t] r assms(2,4)
    by (simp add: record_failures_append)
  moreover have "fst (IsBanned now now2 ip (record_failures (ts @ [t]) ip m))"
    using IsBanned_active [OF assms(1) ban assms(5)] by simp
  ultimately show ?thesis by blast
qed

theorem ban_after_max_attempts_witness:
  "ipBans (record_failures [10, 20] (Addr4 10 0 0 1) (NewBanManager (Ok []) 3 300)) (Addr4 10 0 0 1) = None
   \<and> ipBans (record_failures [10, 20, 30] (Addr4 10 0 0 1) (NewBanManager (Ok []) 3 300)) (Addr4 10 0 0 1) = Some 330
   \<and> fst (IsBanned 330 331 (Addr4 10 0 0 1) (record_failures [10, 20, 30] (Addr4 10 0 0 1) (NewBanManager (Ok []) 3 300)))"
  using ban_after_max_attempts [of "Addr4 10 0 0 1" "NewBanManager (Ok []) 3 300" "[10, 20]" 330 30 331]
  by (simp add: IsLoopback_def failures_def NewBanManager_def)



text \<open>The host itself is exempt: no failure is recorded for it and no check refuses it.\<close>

lemma loopback_exempt:
  assumes "IsLoopback ip"
  shows "RecordFailure t ip m = (m, [])" "IsBanned now now2 ip m = (False, m, [])"
  using assms by (simp_all add: RecordFailure_def IsBanned_def IsBanned_read_def)

text \<open>
  Two connections of an address whose ban has just expired may both pass the read-locked check; the
  one that gets the write lock second finds the entry gone and still reports the address banned.
\<close>

lemma expired_ban_race:
  assumes "\<not> IsLoopback ip" "ipBans m ip = Some e" "e < now"
    and "IsBanned_locked now ip m = (b1, m1, c1)" "IsBanned_locked now ip m1 = (b2, m2, c2)"
  shows "IsBanned_read now ip m = Recheck" "\<not> b1" "b2" "ipBans m1 ip = None"
  using assms by (auto simp: IsBanned_read_def IsBanned_locked_def)

end
