(* ===== verification/Server_List.thy ===== *)
theory Server_List
  imports Go_Strings
begin

text \<open>
  \<open>internal/service/server_list.go\<close>: the table of game servers and the cached character counts. The
  two fixed-size arrays are lists of length 32; a server identifier is a signed 32-bit number and
  every operation checks it against the table's bounds before it indexes.
\<close>

definition MaxSupportedServers :: nat where
  "MaxSupportedServers = 32"

definition InfoTypeStatus :: int where
  "InfoTypeStatus = 0x01"

definition InfoTypeCurrentPlayers :: int where
  "InfoTypeCurrentPlayers = 0x02"

record Server =
  srv_IP :: gostring
  srv_Port :: int32
  srv_ID :: int32
  srv_ServerType :: int32
  srv_MaxPlayers :: int16
  srv_CurrentPlayers :: int16
  srv_Pvp :: bool
  srv_Brackets :: bool
  srv_Status :: byte

definition zeroServer :: Server where
  "zeroServer = \<lparr>srv_IP = [], srv_Port = 0, srv_ID = 0, srv_ServerType = 0, srv_MaxPlayers = 0,
     srv_CurrentPlayers = 0, srv_Pvp = False, srv_Brackets = False, srv_Status = 0\<rparr>"

record ServerSnapshot =
  snap_Servers :: "Server list"
  snap_Count :: nat

record ServerList =
  charCounts :: "gostring \<rightharpoonup> byte list"
  servers :: "Server list"
  isActive :: "bool list"

definition NewServerList :: ServerList where
  "NewServerList = \<lparr>charCounts = Map.empty, servers = replicate MaxSupportedServers zeroServer,
     isActive = replicate MaxSupportedServers False\<rparr>"

definition id_in_bounds :: "int32 \<Rightarrow> bool" where
  "id_in_bounds i \<longleftrightarrow> \<not> (sint i < 0 \<or> sint i \<ge> int MaxSupportedServers)"

definition RegisterServer :: "Server \<Rightarrow> ServerList \<Rightarrow> ServerList" where
  "RegisterServer srv s =
     (if \<not> id_in_bounds (srv_ID srv) then s
      else s\<lparr>servers := (servers s)[unat (srv_ID srv) := srv],
             isActive := (isActive s)[unat (srv_ID srv) := True]\<rparr>)"

definition UnregisterServer :: "int32 \<Rightarrow> ServerList \<Rightarrow> ServerList" where
  "UnregisterServer i s =
     (if \<not> id_in_bounds i then s
      else s\<lparr>isActive := (isActive s)[unat i := False],
             servers := (servers s)[unat i := zeroServer]\<rparr>)"

text \<open>\<open>byte(value)\<close> and \<open>int16(value)\<close> keep the low bits.\<close>

definition UpdateStatus :: "int32 \<Rightarrow> int \<Rightarrow> int32 \<Rightarrow> ServerList \<Rightarrow> ServerList" where
  "UpdateStatus i infoType val s =
     (if \<not> id_in_bounds i then s
      else if \<not> isActive s ! unat i then s
      else let srv = servers s ! unat i;
               srv' = (if infoType = InfoTypeStatus then srv\<lparr>srv_Status := ucast val\<rparr>
                       else if infoType = InfoTypeCurrentPlayers then srv\<lparr>srv_CurrentPlayers := ucast val\<rparr>
                       else srv)
           in s\<lparr>servers := (servers s)[unat i := srv']\<rparr>)"

text \<open>The copying loop over the indices that are left.\<close>

fun snapshot_from :: "ServerList \<Rightarrow> nat list \<Rightarrow> ServerSnapshot \<Rightarrow> ServerSnapshot" where
  "snapshot_from s [] snap = snap"
| "snapshot_from s (i # is) snap =
     snapshot_from s is
       (if isActive s ! i
        then \<lparr>snap_Servers = (snap_Servers snap)[snap_Count snap := servers s ! i],
              snap_Count = snap_Count snap + 1\<rparr>
        else snap)"

definition GetServers :: "ServerList \<Rightarrow> ServerSnapshot" where
  "GetServers s =
     snapshot_from s [0..<MaxSupportedServers]
       \<lparr>snap_Servers = replicate MaxSupportedServers zeroServer, snap_Count = 0\<rparr>"

text \<open>A missing account reads as 32 zero counts; the array is copied, changed and stored back.\<close>

definition SetCharCount :: "gostring \<Rightarrow> int32 \<Rightarrow> byte \<Rightarrow> ServerList \<Rightarrow> ServerList" where
  "SetCharCount accountName serverID cnt s =
     (if \<not> id_in_bounds serverID then s
      else let counts = (case charCounts s accountName of None \<Rightarrow> replicate MaxSupportedServers 0 | Some c \<Rightarrow> c)
           in s\<lparr>charCounts := (charCounts s)(accountName \<mapsto> counts[unat serverID := cnt])\<rparr>)"

definition GetCharCounts :: "gostring \<Rightarrow> ServerList \<Rightarrow> byte list \<times> bool" where
  "GetCharCounts accountName s =
     (case charCounts s accountName of
        None \<Rightarrow> (replicate MaxSupportedServers 0, False)
      | Some c \<Rightarrow> (c, True))"

definition RemoveAccount :: "gostring \<Rightarrow> ServerList \<Rightarrow> ServerList" where
  "RemoveAccount accountName s = s\<lparr>charCounts := (charCounts s)(accountName := None)\<rparr>"

section \<open>Invariant\<close>

text \<open>
  The arrays keep their size, an active slot holds the server with the slot's number, and an
  inactive slot is cleared.
\<close>

definition wf_servers :: "ServerList \<Rightarrow> bool" where
  "wf_servers s \<longleftrightarrow>
     length (servers s) = MaxSupportedServers \<and> length (isActive s) = MaxSupportedServers
     \<and> (\<forall>i < MaxSupportedServers. isActive s ! i \<longrightarrow> srv_ID (servers s ! i) = of_nat i)
     \<and> (\<forall>i < MaxSupportedServers. \<not> isActive s ! i \<longrightarrow> servers s ! i = zeroServer)
     \<and> (\<forall>a c. charCounts s a = Some c \<longrightarrow> length c = MaxSupportedServers)"

lemma id_in_bounds_unat: "id_in_bounds i \<Longrightarrow> unat i < MaxSupportedServers \<and> of_nat (unat i) = i"
proof -
  assume b: "id_in_bounds i"
  then have "0 \<le> sint i" "sint i < 32" by (simp_all add: id_in_bounds_def MaxSupportedServers_def)
  then have "take_bit LENGTH(32) (sint i) = sint i" by (intro take_bit_int_eq_self) simp_all
  then have "uint i = sint i" by (simp only: uint_sint)
  with b have "uint i < 32" by (simp add: id_in_bounds_def MaxSupportedServers_def)
  then have "unat i < 32" by (simp flip: nat_uint_eq)
  then show ?thesis by (simp add: MaxSupportedServers_def)
qed


lemma wf_NewServerList [inv_intros]: "wf_servers NewServerList"
  by (simp add: wf_servers_def NewServerList_def)

lemma wf_RegisterServer [inv_intros]: "wf_servers s \<Longrightarrow> wf_servers (RegisterServer srv s)"
  using id_in_bounds_unat [of "srv_ID srv"]
  by (auto simp: wf_servers_def RegisterServer_def nth_list_update)

lemma wf_UnregisterServer [inv_intros]: "wf_servers s \<Longrightarrow> wf_servers (UnregisterServer i s)"
  using id_in_bounds_unat [of i]
  by (auto simp: wf_servers_def UnregisterServer_def nth_list_update split: if_splits)

lemma wf_UpdateStatus [inv_intros]: "wf_servers s \<Longrightarrow> wf_servers (UpdateStatus i ty v s)"
  using id_in_bounds_unat [of i]
  by (auto simp: wf_servers_def UpdateStatus_def Let_def nth_list_update)

lemma wf_SetCharCount [inv_intros]: "wf_servers s \<Longrightarrow> wf_servers (SetCharCount a i c s)"
  by (auto simp: wf_servers_def SetCharCount_def Let_def split: option.split)

lemma wf_RemoveAccount [inv_intros]: "wf_servers s \<Longrightarrow> wf_servers (RemoveAccount a s)"
  by (simp add: wf_servers_def RemoveAccount_def)

section \<open>The snapshot\<close>

definition active_servers :: "ServerList \<Rightarrow> Server list" where
  "active_servers s = map (\<lambda>i. servers s ! i) (filter (\<lambda>i. isActive s ! i) [0..<MaxSupportedServers])"

definition snap_list :: "ServerSnapshot \<Rightarrow> Server list" where
  "snap_list snap = take (snap_Count snap) (snap_Servers snap)"

lemma snapshot_from_spec:
  assumes "snap_Count snap + length is \<le> length (snap_Servers snap)"
  shows "snap_list (snapshot_from s is snap) = snap_list snap @ map (\<lambda>i. servers s ! i) (filter (\<lambda>i. isActive s ! i) is)"
    and "snap_Count (snapshot_from s is snap) = snap_Count snap + length (filter (\<lambda>i. isActive s ! i) is)"
  using assms
proof (induction s "is" snap rule: snapshot_from.induct)
  case (1 s snap)
  {
    case 1
    then show ?case by simp
  next
    case 2
    then show ?case by simp
  }
next
  case (2 s i "is" snap)
  let ?snap = "if isActive s ! i then \<lparr>snap_Servers = (snap_Servers snap)[snap_Count snap := servers s ! i],
      snap_Count = snap_Count snap + 1\<rparr> else snap"
  {
    case 1
    have "snap_list ?snap = snap_list snap @ (if isActive s ! i then [servers s ! i] else [])"
      using 1 by (simp add: snap_list_def take_Suc_conv_app_nth)
    then show ?case using 2(1) 1 by simp
  next
    case 2
    then show ?case using "2.IH"(2) by simp
  }
qed

lemma GetServers_list: "snap_list (GetServers s) = active_servers s"
  using snapshot_from_spec(1) [of "\<lparr>snap_Servers = replicate MaxSupportedServers zeroServer, snap_Count = 0\<rparr>"
      "[0..<MaxSupportedServers]" s]
  by (simp add: GetServers_def active_servers_def snap_list_def)

lemma GetServers_count: "snap_Count (GetServers s) = length (active_servers s)"
  using snapshot_from_spec(2) [of "\<lparr>snap_Servers = replicate MaxSupportedServers zeroServer, snap_Count = 0\<rparr>"
      "[0..<MaxSupportedServers]" s]
  by (simp add: GetServers_def active_servers_def)

lemma active_servers_ids:
  assumes "wf_servers s"
  shows "map (\<lambda>srv. unat (srv_ID srv)) (active_servers s) = filter (\<lambda>i. isActive s ! i) [0..<MaxSupportedServers]"
proof -
  have "unat (srv_ID (servers s ! i)) = i" if "i < MaxSupportedServers" "isActive s ! i" for i
    using assms that by (simp add: wf_servers_def MaxSupportedServers_def unat_of_nat)
  then show ?thesis
    unfolding active_servers_def map_map by (intro map_idI) (auto simp: comp_def)
qed

section \<open>Properties\<close>

text \<open>The operations on the registered servers, and a run of them from the empty list.\<close>

datatype server_op =
    OpRegister Server | OpUnregister int32 | OpStatus int32 int int32
  | OpCount gostring int32 byte | OpRemove gostring

fun server_step :: "server_op \<Rightarrow> ServerList \<Rightarrow> ServerList" where
  "server_step (OpRegister srv) s = RegisterServer srv s"
| "server_step (OpUnregister i) s = UnregisterServer i s"
| "server_step (OpStatus i ty v) s = UpdateStatus i ty v s"
| "server_step (OpCount a i c) s = SetCharCount a i c s"
| "server_step (OpRemove a) s = RemoveAccount a s"

definition server_run :: "server_op list \<Rightarrow> ServerList" where
  "server_run ops = fold server_step ops NewServerList"

lemma wf_server_step [inv_intros]: "wf_servers s \<Longrightarrow> wf_servers (server_step oper s)"
  by (cases oper) (simp_all add: inv_intros)

lemma wf_server_run [inv_intros]: "wf_servers (server_run ops)"
proof -
  have "wf_servers s \<Longrightarrow> wf_servers (fold server_step ops s)" for s
    by (induction ops arbitrary: s) (simp_all add: wf_server_step)
  then show ?thesis by (simp add: server_run_def wf_NewServerList)
qed

text \<open>
  C40: the snapshot the server-list packet is built from is exact. After any sequence of
  registrations, removals, status updates and character counts, the first \<open>snap_Count\<close> entries are
  the servers of the active slots, each under its own identifier, without repetition and in
  increasing order of identifiers, and there are at most 32.
\<close>

theorem snapshot_exact:
  "let s = server_run ops; snap = GetServers s; ids = map (\<lambda>srv. unat (srv_ID srv)) (snap_list snap)
   in snap_Count snap = length (snap_list snap) \<and> snap_Count snap \<le> MaxSupportedServers
      \<and> sorted_wrt (<) ids
      \<and> set ids = {i. i < MaxSupportedServers \<and> isActive s ! i}
      \<and> list_all (\<lambda>srv. srv = servers s ! unat (srv_ID srv)) (snap_list snap)"
proof -
  define s where "s = server_run ops"
  have w: "wf_servers s" by (simp add: s_def inv_intros)
  note ids = active_servers_ids [OF w]
  have "sorted_wrt (<) (filter (\<lambda>i. isActive s ! i) [0..<MaxSupportedServers])"
    by (intro sorted_wrt_filter) simp
  moreover have "length (active_servers s) \<le> MaxSupportedServers"
    unfolding active_servers_def length_map by (rule order_trans [OF length_filter_le]) simp
  moreover have "srv = servers s ! unat (srv_ID srv)" if "srv \<in> set (active_servers s)" for srv
  proof -
    from that obtain i where i: "i < MaxSupportedServers" "isActive s ! i" "srv = servers s ! i"
      by (auto simp: active_servers_def)
    then have "srv_ID srv = of_nat i" using w by (simp add: wf_servers_def)
    then show ?thesis using i by (simp add: MaxSupportedServers_def unat_of_nat)
  qed
  ultimately show ?thesis
    unfolding s_def [symmetric] Let_def GetServers_list GetServers_count ids
    by (auto simp: list_all_iff)
qed

text \<open>
  An update reaches its server and no other. Registering, unregistering or updating a server
  whose identifier is outside the table changes nothing; inside it, the slot of the identifier
  changes as requested (an update only when the slot is active) and every other slot stays.
\<close>

theorem server_slot_update:
  fixes ops srv
  defines "s \<equiv> server_run ops"
  shows "(if id_in_bounds (srv_ID srv)
     then isActive (RegisterServer srv s) ! unat (srv_ID srv) \<and> servers (RegisterServer srv s) ! unat (srv_ID srv) = srv
       \<and> servers (UpdateStatus (srv_ID srv) InfoTypeStatus v (RegisterServer srv s)) ! unat (srv_ID srv) = srv\<lparr>srv_Status := ucast v\<rparr>
       \<and> UnregisterServer (srv_ID srv) (RegisterServer srv s) = UnregisterServer (srv_ID srv) s
     else RegisterServer srv s = s \<and> UnregisterServer (srv_ID srv) s = s \<and> UpdateStatus (srv_ID srv) ty v s = s)
    \<and> list_all (\<lambda>j. j = unat (srv_ID srv) \<or>
        servers (RegisterServer srv s) ! j = servers s ! j \<and> isActive (RegisterServer srv s) ! j = isActive s ! j
        \<and> servers (UpdateStatus (srv_ID srv) ty v s) ! j = servers s ! j
        \<and> servers (UnregisterServer (srv_ID srv) s) ! j = servers s ! j) [0..<MaxSupportedServers]"
proof -
  have "wf_servers s" by (simp add: s_def inv_intros)
  then have "length (servers s) = MaxSupportedServers" "length (isActive s) = MaxSupportedServers"
    by (simp_all add: wf_servers_def)
  then show ?thesis
    using id_in_bounds_unat [of "srv_ID srv"]
    by (auto simp: list_all_iff RegisterServer_def UpdateStatus_def UnregisterServer_def Let_def InfoTypeStatus_def)
qed

end
