(* ===== verification/Authenticator.thy ===== *)
theory Authenticator
  imports Database
begin

text \<open>
  \<open>internal/service/authenticator.go\<close>: credentials against the account table, with optional creation
  of unknown accounts. What lies outside the program is collected in \<open>AuthEnv\<close>: the database's
  \<open>lower\<close>, which of the queries fail, its clock, the two bcrypt functions (a package of its own: a
  hash is produced or an error, and a hash is compared with a password) and the IPv6 parser.
\<close>

record AuthEnv =
  pglower :: "gostring \<Rightarrow> gostring"
  faultFind :: bool
  faultRegister :: bool
  faultUpdate :: bool
  dbNow :: gotime
  bcryptHash :: "gostring \<Rightarrow> gostring option"
  bcryptCompare :: "gostring \<Rightarrow> gostring \<Rightarrow> bool"
  parse6 :: "gostring \<Rightarrow> Addr option"

record Authenticator =
  autoCreate :: bool

definition NewAuthenticator :: "bool \<Rightarrow> Authenticator" where
  "NewAuthenticator auto = \<lparr>autoCreate = auto\<rparr>"

definition createAccount ::
    "AuthEnv \<Rightarrow> gostring \<Rightarrow> gostring \<Rightarrow> gostring \<Rightarrow> database \<Rightarrow> (gostring \<times> int64) outcome \<times> database" where
  "createAccount env username password ip db =
     (case bcryptHash env password of
        None \<Rightarrow> (Error ErrBcrypt, db)
      | Some hashedStr \<Rightarrow>
          let targetIP = ParseAddr (parse6 env) ip
          in case RegisterAccount (pglower env) (faultRegister env) (dbNow env) username hashedStr targetIP db of
               (Ok accountID, db') \<Rightarrow> (Ok (hashedStr, accountID), db')
             | (Error e, db') \<Rightarrow> (Error e, db')
             | (Panic, db') \<Rightarrow> (Panic, db'))"

definition Authenticate ::
    "AuthEnv \<Rightarrow> Authenticator \<Rightarrow> gostring \<Rightarrow> gostring \<Rightarrow> gostring \<Rightarrow> database \<Rightarrow> FindAccountRow outcome \<times> database" where
  "Authenticate env a username password ip db =
     (case FindAccount (pglower env) (faultFind env) username db of
        Panic \<Rightarrow> (Panic, db)
      | Error e \<Rightarrow>
          if e = ErrNoRows then
            if autoCreate a then
              (case createAccount env username password ip db of
                 (Ok (hashedPwd, i), db') \<Rightarrow>
                   (Ok \<lparr>row_ID = i, row_Name = username, row_Pwd = hashedPwd, row_AccessLevel = 0,
                        row_LastServer = 0, row_Banned = False\<rparr>, db')
               | (Error cErr, db') \<Rightarrow> (Error cErr, db')
               | (Panic, db') \<Rightarrow> (Panic, db'))
            else (Error ErrAccountNotFound, db)
          else (Error e, db)
      | Ok account \<Rightarrow>
          if \<not> bcryptCompare env (row_Pwd account) password then (Error ErrInvalidPassword, db)
          else if row_Banned account \<or> sint (row_AccessLevel account) < 0 then (Error ErrAccountBanned, db)
          else let targetIP = ParseAddr (parse6 env) ip
               in (Ok account,
                   snd (UpdateAccountLastIPByName (faultUpdate env) (dbNow env) username targetIP db)))"

definition UpdateLastServer :: "AuthEnv \<Rightarrow> gostring \<Rightarrow> int32 \<Rightarrow> database \<Rightarrow> database" where
  "UpdateLastServer env username serverID db =
     snd (UpdateAccountLastServer (faultUpdate env) (dbNow env) username serverID db)"

section \<open>Lemmas\<close>

lemma RegisterAccount_not_Panic: "fst (RegisterAccount l f n u p i db) \<noteq> Panic"
  by (simp add: RegisterAccount_def)

lemma FindAccount_not_Panic: "FindAccount l f arg db \<noteq> Panic"
  by (simp add: FindAccount_def split: list.split)

lemma wf_createAccount [inv_intros]:
  "wf_db (pglower env) db \<Longrightarrow> wf_db (pglower env) (snd (createAccount env u p ip db))"
proof (cases "bcryptHash env p")
  case None
  then show "wf_db (pglower env) db \<Longrightarrow> ?thesis" by (simp add: createAccount_def)
next
  case (Some h)
  obtain r db' where reg: "RegisterAccount (pglower env) (faultRegister env) (dbNow env) u h
      (ParseAddr (parse6 env) ip) db = (r, db')" by (rule prod.exhaust)
  then have "wf_db (pglower env) db \<Longrightarrow> wf_db (pglower env) db'"
    using wf_RegisterAccount by (metis snd_conv)
  with Some reg show "wf_db (pglower env) db \<Longrightarrow> ?thesis"
    by (cases r) (simp_all add: createAccount_def)
qed

lemma createAccount_Ok:
  assumes "createAccount env u p ip db = (Ok (h, i), db')"
  shows "bcryptHash env p = Some h"
    and "RegisterAccount (pglower env) (faultRegister env) (dbNow env) u h (ParseAddr (parse6 env) ip) db = (Ok i, db')"
  using assms by (auto simp: createAccount_def Let_def split: option.splits prod.splits outcome.splits)

text \<open>What a successful answer means: the stored account with the right password and no ban, or a fresh one.\<close>

lemma Authenticate_Ok_cases:
  assumes "Authenticate env a u p ip db = (Ok row, db')"
  obtains (stored) "FindAccount (pglower env) (faultFind env) u db = Ok row" "bcryptCompare env (row_Pwd row) p"
      "\<not> row_Banned row" "0 \<le> sint (row_AccessLevel row)"
      "db' = snd (UpdateAccountLastIPByName (faultUpdate env) (dbNow env) u (ParseAddr (parse6 env) ip) db)"
    | (fresh) h i where "FindAccount (pglower env) (faultFind env) u db = Error ErrNoRows" "autoCreate a"
      "createAccount env u p ip db = (Ok (h, i), db')"
      "row = \<lparr>row_ID = i, row_Name = u, row_Pwd = h, row_AccessLevel = 0, row_LastServer = 0, row_Banned = False\<rparr>"
proof (cases "FindAccount (pglower env) (faultFind env) u db")
  case (Ok r)
  with assms show thesis
    by (intro stored) (auto simp: Authenticate_def Let_def split: if_splits)
next
  case (Error e)
  obtain r db'' where c: "createAccount env u p ip db = (r, db'')" by (rule prod.exhaust)
  with Error assms obtain h i where "r = Ok (h, i)"
    by (cases r) (auto simp: Authenticate_def split: if_splits)
  with Error c assms show thesis
    by (intro fresh [of h i]) (auto simp: Authenticate_def split: if_splits)
next
  case Panic
  then show thesis using FindAccount_not_Panic by blast
qed

lemma wf_Authenticate [inv_intros]:
  assumes "wf_db (pglower env) db"
  shows "wf_db (pglower env) (snd (Authenticate env a u p ip db))"
proof -
  obtain r db' where c: "createAccount env u p ip db = (r, db')" by (rule prod.exhaust)
  have "wf_db (pglower env) db'" using wf_createAccount [OF assms, of u p ip] by (simp add: c)
  with assms wf_updates(1) [OF assms] c show ?thesis
    by (auto simp: Authenticate_def Let_def split: outcome.split)
qed

section \<open>Properties\<close>


definition example_env :: AuthEnv where
  "example_env = \<lparr>pglower = id, faultFind = False, faultRegister = False, faultUpdate = False, dbNow = 0,
     bcryptHash = (\<lambda>p. Some (0 # p)), bcryptCompare = (\<lambda>h p. h = 0 # p), parse6 = (\<lambda>_. None)\<rparr>"

definition example_db :: database where
  "example_db = \<lparr>accounts = [\<lparr>acc_id = 1, acc_name = [98, 111, 98], acc_pwd = [0, 112], acc_access_level = 0,
     acc_last_server = 3, acc_banned = False, acc_last_ip = None, acc_modify_date = 0, acc_creation_date = 0\<rparr>],
     ip_banned = [], next_id = 2\<rparr>"

lemma example_login:
  "\<exists>db'. Authenticate example_env \<lparr>autoCreate = False\<rparr> [98, 111, 98] [112] [] example_db =
     (Ok \<lparr>row_ID = 1, row_Name = [98, 111, 98], row_Pwd = [0, 112], row_AccessLevel = 0, row_LastServer = 3,
         row_Banned = False\<rparr>, db')"
  by (simp add: Authenticate_def FindAccount_def example_env_def example_db_def row_of_def)


text \<open>
  C26: a login can be repeated. Once a name has been authenticated (its account found, or created on the
  spot), the same name and password are accepted again and lead to the same account, whatever became
  of the update of its last address.
\<close>

theorem authenticate_repeatable:
  assumes "Authenticate env a u p ip db = (Ok row, db')" "pglower env u = u"
    and "\<And>q h. bcryptHash env q = Some h \<Longrightarrow> bcryptCompare env h q"
  shows "fst (Authenticate env a' u p ip' db') = Ok row"
  using assms(1)
proof (cases rule: Authenticate_Ok_cases)
  case stored
  then have "FindAccount (pglower env) False u db = Ok row" "\<not> faultFind env"
    by (auto simp: FindAccount_def split: if_splits)
  then have "FindAccount (pglower env) (faultFind env) u db' = Ok row"
    by (simp add: stored(5) sql.find_update_ip)
  with stored show ?thesis by (simp add: Authenticate_def Let_def)
next
  case (fresh h i)
  note c = createAccount_Ok [OF fresh(3)]
  have "\<not> faultFind env" using fresh(1) by (auto simp: FindAccount_def)
  then have "FindAccount (pglower env) (faultFind env) u db' = Ok row"
    using sql.find_registered [OF c(2) assms(2)] fresh(4) by simp
  with assms(3) [OF c(1)] fresh(4) show ?thesis by (simp add: Authenticate_def Let_def)
qed

theorem authenticate_repeatable_witness:
  "\<exists>db'. fst (Authenticate example_env \<lparr>autoCreate = True\<rparr> [98, 111, 98] [112] [] db') =
     Ok \<lparr>row_ID = 1, row_Name = [98, 111, 98], row_Pwd = [0, 112], row_AccessLevel = 0, row_LastServer = 3,
         row_Banned = False\<rparr>"
proof -
  obtain db' where "Authenticate example_env \<lparr>autoCreate = False\<rparr> [98, 111, 98] [112] [] example_db =
     (Ok \<lparr>row_ID = 1, row_Name = [98, 111, 98], row_Pwd = [0, 112], row_AccessLevel = 0, row_LastServer = 3,
         row_Banned = False\<rparr>, db')"
    using example_login by blast
  from authenticate_repeatable [OF this, of "\<lparr>autoCreate = True\<rparr>" "[]"] show ?thesis
    by (intro exI [of _ db']) (simp add: example_env_def)
qed

end
