(* ===== verification/Config.thy ===== *)
theory Config
  imports Go_Strings
begin

text \<open>
  \<open>config/config.go\<close> and the settings of \<open>pkg/database/database.go\<close>: the environment variables, the two
  parsers of \<open>strconv\<close> they go through, and the connection string and limits of the database pool.
  The environment is a function from names to values, empty for a variable that is not set. A
  failed parse is logged by the source and its value used all the same.
\<close>

section \<open>Integers and booleans\<close>

datatype uint_result = UVal nat | USyntax | URange

text \<open>The loop of \<open>ParseUint\<close> for base ten and 64 bits: an overflow ends it before the rest is looked at.\<close>

fun ParseUint_loop :: "nat \<Rightarrow> gostring \<Rightarrow> uint_result" where
  "ParseUint_loop n [] = UVal n"
| "ParseUint_loop n (c # s) =
     (if unat c < 48 \<or> unat c > 57 then USyntax
      else if n \<ge> (2 ^ 64 - 1) div 10 + 1 then URange
      else let n1 = n * 10 + (unat c - 48)
           in if n1 > 2 ^ 64 - 1 then URange else ParseUint_loop n1 s)"

definition ParseInt :: "gostring \<Rightarrow> int \<times> bool" where
  "ParseInt s =
     (if s = [] then (0, False)
      else let neg = (hd s = 45);
               digits = (if hd s = 43 \<or> hd s = 45 then tl s else s);
               res = (if digits = [] then USyntax else ParseUint_loop 0 digits)
           in case res of
                USyntax \<Rightarrow> (0, False)
              | URange \<Rightarrow> (if neg then - (2 ^ 63) else 2 ^ 63 - 1, False)
              | UVal un \<Rightarrow>
                  if \<not> neg \<and> un \<ge> 2 ^ 63 then (2 ^ 63 - 1, False)
                  else if neg \<and> un > 2 ^ 63 then (- (2 ^ 63), False)
                  else (if neg then - int un else int un, True))"

definition Atoi :: "gostring \<Rightarrow> int \<times> bool" where
  "Atoi s = ParseInt s"

definition ParseBool :: "gostring \<Rightarrow> bool \<times> bool" where
  "ParseBool s =
     (if s \<in> {lit ''1'', lit ''t'', lit ''T'', lit ''true'', lit ''TRUE'', lit ''True''} then (True, True)
      else if s \<in> {lit ''0'', lit ''f'', lit ''F'', lit ''false'', lit ''FALSE'', lit ''False''} then (False, True)
      else (False, False))"

type_synonym environ = "gostring \<Rightarrow> gostring"

definition mustAtoi :: "environ \<Rightarrow> gostring \<Rightarrow> int" where
  "mustAtoi getenv key = fst (Atoi (getenv key))"

definition mustBool :: "environ \<Rightarrow> gostring \<Rightarrow> bool" where
  "mustBool getenv key = fst (ParseBool (getenv key))"

section \<open>The configuration\<close>

record DatabaseSettings =
  db_Host :: gostring
  db_User :: gostring
  db_Pwd :: gostring
  db_Name :: gostring
  db_SSLMode :: gostring
  db_Port :: gostring
  db_MaxConn :: int
  db_IdleConn :: int
  db_MaxLifeTime :: int
  db_MaxConnIdleTime :: int

record AccountSettings =
  AttemptsLoginCount :: int
  AutoCreateAcc :: bool

record Config =
  cfg_Database :: DatabaseSettings
  cfg_Account :: AccountSettings
  cfg_GameServerListenerPort :: gostring
  cfg_ClientListenerPort :: gostring
  cfg_LoginRateLimit :: int

definition getAccountSettings :: "environ \<Rightarrow> AccountSettings" where
  "getAccountSettings getenv =
     \<lparr>AttemptsLoginCount = mustAtoi getenv (lit ''ATTEMPTS_LOGIN_COUNT''),
      AutoCreateAcc = mustBool getenv (lit ''AUTO_CREATE_ACCOUNT'')\<rparr>"

definition getDatabaseSettings :: "environ \<Rightarrow> DatabaseSettings" where
  "getDatabaseSettings getenv =
     \<lparr>db_Host = getenv (lit ''DB_HOST''), db_User = getenv (lit ''DB_USER''), db_Pwd = getenv (lit ''DB_PWD''),
      db_Name = getenv (lit ''DB_NAME''), db_SSLMode = getenv (lit ''DB_SSL_MODE''), db_Port = getenv (lit ''DB_PORT''),
      db_MaxConn = mustAtoi getenv (lit ''DB_MAX_CONN''), db_IdleConn = mustAtoi getenv (lit ''DB_IDLE_CONN''),
      db_MaxLifeTime = mustAtoi getenv (lit ''DB_MAX_LIFETIME''),
      db_MaxConnIdleTime = mustAtoi getenv (lit ''DB_MAX_CONN_IDLE_TIME'')\<rparr>"

definition NewConfig :: "environ \<Rightarrow> Config" where
  "NewConfig getenv =
     \<lparr>cfg_Database = getDatabaseSettings getenv, cfg_Account = getAccountSettings getenv,
      cfg_GameServerListenerPort = getenv (lit ''GAMESERVER_LISTENER_PORT''),
      cfg_ClientListenerPort = getenv (lit ''CLIENT_LISTENER_PORT''),
      cfg_LoginRateLimit = mustAtoi getenv (lit ''LOGIN_RATE_LIMIT'')\<rparr>"

section \<open>The database pool\<close>

text \<open>Durations are in nanoseconds. What the driver makes of the settings is outside the source.\<close>

definition minutes :: "int \<Rightarrow> int" where
  "minutes n = n * 60 * 1000000000"

record PoolConfig =
  pool_connStr :: gostring
  pool_MaxConns :: int32
  pool_MinConns :: int32
  pool_MaxConnLifetime :: int
  pool_MaxConnIdleTime :: int
  pool_HealthCheckPeriod :: int
  pool_DefaultQueryExecMode :: gostring
  pool_RuntimeParams :: "(gostring \<times> gostring) list"

text \<open>The execution mode is a constant of the driver and stands here by its name.\<close>

definition pool_config ::
    "gostring \<Rightarrow> gostring \<Rightarrow> gostring \<Rightarrow> gostring \<Rightarrow> gostring \<Rightarrow> gostring \<Rightarrow> gostring \<Rightarrow> int \<Rightarrow> int \<Rightarrow> int \<Rightarrow> int \<Rightarrow> PoolConfig" where
  "pool_config host port user pwd name sslMode appName maxConnections maxConnIdleTime idleConnections maxLifeConnections =
     \<lparr>pool_connStr = lit ''host='' @ host @ lit '' port='' @ port @ lit '' user='' @ user
        @ lit '' password='' @ pwd @ lit '' dbname='' @ name @ lit '' sslmode='' @ sslMode,
      pool_MaxConns = word_of_int maxConnections, pool_MinConns = word_of_int idleConnections,
      pool_MaxConnLifetime = minutes maxLifeConnections, pool_MaxConnIdleTime = minutes maxConnIdleTime,
      pool_HealthCheckPeriod = 30 * 1000000000, pool_DefaultQueryExecMode = lit ''QueryExecModeCacheStatement'',
      pool_RuntimeParams = [(lit ''application_name'', appName), (lit ''lock_timeout'', lit ''3s''),
        (lit ''statement_timeout'', lit ''30s''), (lit ''idle_in_transaction_session_timeout'', lit ''30s'')]\<rparr>"

text \<open>
  The driver: parsing a connection string, making a pool from settings, and the initial ping either
  succeed or give an error text. \<open>'p\<close> is its type of pools.
\<close>

record 'p PoolDriver =
  drv_ParseConfig :: "gostring \<Rightarrow> gostring option"
  drv_NewWithConfig :: "PoolConfig \<Rightarrow> gostring + 'p"
  drv_Ping :: "'p \<Rightarrow> gostring option"

text \<open>\<open>errors.Join\<close>: the messages on lines of their own.\<close>

definition errors_Join :: "gostring \<Rightarrow> gostring \<Rightarrow> gostring" where
  "errors_Join a b = a @ [10] @ b"

text \<open>\<open>OpenPool\<close>: the pool or the error, and the pools that were closed on the way.\<close>

definition OpenPool ::
    "'p PoolDriver \<Rightarrow> gostring \<Rightarrow> gostring \<Rightarrow> gostring \<Rightarrow> gostring \<Rightarrow> gostring \<Rightarrow> gostring \<Rightarrow> gostring
     \<Rightarrow> int \<Rightarrow> int \<Rightarrow> int \<Rightarrow> int \<Rightarrow> (gostring + 'p) \<times> 'p list" where
  "OpenPool drv host port user pwd name sslMode appName maxConnections maxConnIdleTime idleConnections maxLifeConnections =
     (let cfg = pool_config host port user pwd name sslMode appName maxConnections maxConnIdleTime
                  idleConnections maxLifeConnections
      in case drv_ParseConfig drv (pool_connStr cfg) of
           Some e \<Rightarrow> (Inl (errors_Join (lit ''failed to parse'') e), [])
         | None \<Rightarrow>
             (case drv_NewWithConfig drv cfg of
                Inl e \<Rightarrow> (Inl (errors_Join (lit ''create pool'') e), [])
              | Inr pool \<Rightarrow>
                  (case drv_Ping drv pool of
                     Some e \<Rightarrow> (Inl (errors_Join (lit ''database ping failed'') e), [pool])
                   | None \<Rightarrow> (Inr pool, []))))"

lemma OpenPool_outcomes:
  "OpenPool drv host port user pwd name sslMode appName a b c d = (Inr pool, shut) \<Longrightarrow>
     shut = [] \<and> drv_Ping drv pool = None"
  "OpenPool drv host port user pwd name sslMode appName a b c d = (Inl e, shut) \<Longrightarrow>
     drv_NewWithConfig drv (pool_config host port user pwd name sslMode appName a b c d) = Inr pool \<Longrightarrow>
     drv_ParseConfig drv (pool_connStr (pool_config host port user pwd name sslMode appName a b c d)) = None \<Longrightarrow>
     shut = [pool]"
  by (auto simp: OpenPool_def Let_def split: option.splits sum.splits)

text \<open>The call in \<open>main\<close>, and the settings it amounts to.\<close>

definition main_pool_config :: "Config \<Rightarrow> PoolConfig" where
  "main_pool_config cfg = (let d = cfg_Database cfg in
     pool_config (db_Host d) (db_Port d) (db_User d) (db_Pwd d) (db_Name d) (db_SSLMode d) (lit ''l2auth'')
       (db_MaxConn d) (db_MaxConnIdleTime d) (db_IdleConn d) (db_MaxLifeTime d))"

definition main_pool :: "'p PoolDriver \<Rightarrow> Config \<Rightarrow> (gostring + 'p) \<times> 'p list" where
  "main_pool drv cfg = (let d = cfg_Database cfg in
     OpenPool drv (db_Host d) (db_Port d) (db_User d) (db_Pwd d) (db_Name d) (db_SSLMode d) (lit ''l2auth'')
       (db_MaxConn d) (db_MaxConnIdleTime d) (db_IdleConn d) (db_MaxLifeTime d))"

section \<open>Decimal numbers are read back\<close>

function decimal :: "nat \<Rightarrow> gostring" where
  "decimal n = (if n < 10 then [of_nat (48 + n)] else decimal (n div 10) @ [of_nat (48 + n mod 10)])"
  by pat_completeness auto
termination
  by (relation "measure id") auto

declare decimal.simps [simp del]

lemma ParseUint_loop_mono: "ParseUint_loop n s = UVal v \<Longrightarrow> n \<le> v"
  by (induction n s rule: ParseUint_loop.induct) (fastforce simp: Let_def split: if_splits)+

lemma ParseUint_loop_append:
  "ParseUint_loop n s = UVal v \<Longrightarrow> ParseUint_loop n (s @ t) = ParseUint_loop v t"
  by (induction n s rule: ParseUint_loop.induct) (auto simp: Let_def split: if_splits)

lemma digit_byte: "d < 10 \<Longrightarrow> unat (of_nat (48 + d) :: byte) = 48 + d"
  by (rule unat_byte) simp

lemma ParseUint_decimal: "n < 2 ^ 64 \<Longrightarrow> ParseUint_loop 0 (decimal n) = UVal n"
proof (induction n rule: decimal.induct)
  case (1 n)
  show ?case
  proof (cases "n < 10")
    case True
    then show ?thesis by (simp add: decimal.simps [of n] digit_byte del: of_nat_add)
  next
    case False
    have "ParseUint_loop 0 (decimal (n div 10)) = UVal (n div 10)"
      using False 1 by simp
    moreover have "ParseUint_loop (n div 10) [of_nat (48 + n mod 10)] = UVal n"
    proof -
      have "n div 10 * 10 + n mod 10 = n" by (rule div_mult_mod_eq)
      moreover have "n div 10 < (2 ^ 64 - 1) div 10 + 1" using "1.prems" by simp
      ultimately show ?thesis using "1.prems" digit_byte [of "n mod 10"] by (simp add: Let_def del: of_nat_add)
    qed
    ultimately show ?thesis
      using False by (simp add: decimal.simps [of n] ParseUint_loop_append del: of_nat_add)
  qed
qed

lemma decimal_digits: "\<exists>c s. decimal n = c # s \<and> c \<noteq> 43 \<and> c \<noteq> 45"
proof (induction n rule: decimal.induct)
  case (1 n)
  show ?case
  proof (cases "n < 10")
    case True
    have "unat (of_nat (48 + n) :: byte) \<noteq> unat (43 :: byte)" "unat (of_nat (48 + n) :: byte) \<noteq> unat (45 :: byte)"
      unfolding digit_byte [OF True] by simp_all
    then have "(of_nat (48 + n) :: byte) \<noteq> 43" "(of_nat (48 + n) :: byte) \<noteq> 45" by metis+
    with True show ?thesis by (subst decimal.simps) (simp del: of_nat_add)
  next
    case False
    with 1 show ?thesis by (subst decimal.simps) fastforce
  qed
qed

text \<open>
  Numbers in the environment are read as written. The decimal notation of every number below
  \<open>2^63\<close>, with or without a minus sign, is parsed to that number without an error; a variable that is
  not set is 0 or false, and a number too large is cut to the largest integer.
\<close>

theorem config_numbers:
  assumes "n < 2 ^ 63"
  shows "Atoi (decimal n) = (int n, True) \<and> Atoi (45 # decimal n) = (- int n, True)
    \<and> mustAtoi (\<lambda>_. []) key = 0 \<and> \<not> mustBool (\<lambda>_. []) key
    \<and> fst (Atoi (decimal (2 ^ 63 + n))) = 2 ^ 63 - 1"
proof -
  have p: "ParseUint_loop 0 (decimal m) = UVal m" if "m < 2 ^ 64" for m
    using that by (rule ParseUint_decimal)
  have pos: "ParseInt (decimal m) = (if m \<ge> 2 ^ 63 then (2 ^ 63 - 1, False) else (int m, True))"
    if "m < 2 ^ 64" for m
  proof -
    obtain c s where "decimal m = c # s" "c \<noteq> 43" "c \<noteq> 45" using decimal_digits by blast
    with p [OF that] show ?thesis by (simp add: ParseInt_def)
  qed
  obtain c s where "decimal n = c # s" using decimal_digits by blast
  then have "ParseInt (45 # decimal n) = (- int n, True)"
    using p [of n] assms by (simp add: ParseInt_def)
  then show ?thesis
    using pos [of n] pos [of "2 ^ 63 + n"] assms
    by (simp add: Atoi_def mustAtoi_def mustBool_def ParseInt_def ParseBool_def lit_def)
qed

theorem config_numbers_witness:
  "Atoi (decimal 300) = (300, True) \<and> decimal 300 = lit ''300''"
  using config_numbers [of 300] by (simp add: decimal.simps lit_def)

end
