(* ===== verification/Kicker.thy ===== *)
theory Kicker
  imports L2_Prelude
begin

text \<open>
  \<open>internal/service/kicker.go\<close>: the indirection through which the login controller and the server
  list controller reach the two listeners. A callback is a state transformer of the server, or not
  set; calling an unset callback does nothing.
\<close>

record 's KickManager =
  OnKickLS :: "(gostring \<Rightarrow> 's \<Rightarrow> 's outcome) option"
  OnKickGS :: "(gostring \<Rightarrow> int32 \<Rightarrow> 's \<Rightarrow> 's outcome) option"
  OnRequestChars :: "(gostring \<Rightarrow> int64 \<Rightarrow> 's \<Rightarrow> 's outcome) option"

definition NewKickManager :: "'s KickManager" where
  "NewKickManager = \<lparr>OnKickLS = None, OnKickGS = None, OnRequestChars = None\<rparr>"

definition KickAccount :: "'s KickManager \<Rightarrow> gostring \<Rightarrow> 's \<Rightarrow> 's outcome" where
  "KickAccount m username s = (case OnKickLS m of None \<Rightarrow> Ok s | Some fn \<Rightarrow> fn username s)"

definition KickFromGame :: "'s KickManager \<Rightarrow> gostring \<Rightarrow> int32 \<Rightarrow> 's \<Rightarrow> 's outcome" where
  "KickFromGame m username serverID s = (case OnKickGS m of None \<Rightarrow> Ok s | Some fn \<Rightarrow> fn username serverID s)"

definition RequestCharacters :: "'s KickManager \<Rightarrow> gostring \<Rightarrow> int64 \<Rightarrow> 's \<Rightarrow> 's outcome" where
  "RequestCharacters m username accountID s = (case OnRequestChars m of None \<Rightarrow> Ok s | Some fn \<Rightarrow> fn username accountID s)"

end
