(* ===== verification/Server_State.thy ===== *)
theory Server_State
  imports Crypt Scrambled_Key Session_Store Session_Registry Rate_Limiter Ban_Manager Server_List Authenticator Kicker
begin

text \<open>
  \<open>internal/client\<close> and the state of the whole server. A connection is a number. \<open>objs\<close> is the
  context object of a connection (a \<open>*client.Client\<close> of the source; it stays reachable as long as
  the connection or a login goroutine holds it), \<open>clients\<close> the listener's map of open
  connections, and likewise \<open>gsobjs\<close> and \<open>gservers\<close> for game servers. \<open>wire\<close> lists what has been
  handed to the network, oldest first.

  \<open>Env\<close> collects what an event reads from outside: the clock, the writer the pool hands out, the
  random XOR key, whether writing to and closing a connection fail, the world of the authenticator,
  the Unicode tables, and the order in which the runtime iterates over the two connection maps.
\<close>

datatype State = StateConnected | StateAuthedGG | StateAuthedLogin | StateServerList

record Client =
  c_Crypt :: Crypt
  c_ScrambledKey :: ScrambledKey
  c_RemoteAddr :: Addr
  c_RemoteIP :: gostring
  c_Account :: gostring
  c_lastActivity :: gotime
  c_AccountID :: int64
  c_SessionKey :: SessionKey
  c_LastServer :: int32
  c_SessionID :: int32
  c_State :: State

record GameServerClient =
  g_RemoteIP :: gostring
  g_lastActivity :: gotime
  g_ServerID :: int32

type_synonym conn = nat

datatype wire_event =
    Sent conn "byte list"
  | SentThenClose conn "byte list"
  | Closed conn
  | GsSent conn "byte list"
  | GsClosed conn

text \<open>Where a login goroutine stands: what it does next and the data it carries there.\<close>

datatype login_pc =
    LQueued "byte list" "byte list option"
  | LDecode "byte list" "byte list option"
  | LAuthenticate gostring gostring
  | LRegister gostring FindAccountRow
  | LKick gostring FindAccountRow
  | LFinish gostring FindAccountRow
  | LDone

record Metrics =
  ActiveConnections :: int
  ConnectionTotal :: nat
  LoginSuccess :: nat
  LoginFailInvalidPwd :: nat
  LoginFailNotFound :: nat
  LoginFailBanned :: nat
  LoginFailSystem :: nat

record LoginServer =
  objs :: "conn \<rightharpoonup> Client"
  clients :: "conn set"
  gsobjs :: "conn \<rightharpoonup> GameServerClient"
  gservers :: "conn set"
  serverList :: ServerList
  registry :: registry
  bans :: BanManager
  limiter :: RateLimiter
  handoffs :: session_shards
  db :: database
  banCmds :: "ban_cmd list"
  pendingLogins :: "(conn \<times> login_pc) list"
  globalSessionID :: int32
  rsaPool :: "ScrambledKey list"
  rsaIdx :: uint32
  loginCryptKeys :: "byte list list"
  metrics :: Metrics
  wire :: "wire_event list"

record Env =
  now :: gotime
  pooled :: PacketWriter
  xorKey :: uint32
  writeFails :: bool
  closeFails :: bool
  authEnv :: AuthEnv
  uniLower :: "rune \<Rightarrow> rune"
  uniFold :: "rune \<Rightarrow> rune \<Rightarrow> bool"
  clientOrder :: "conn list"
  serverOrder :: "conn list"

section \<open>Clients\<close>

definition Touch :: "gotime \<Rightarrow> Client \<Rightarrow> Client" where
  "Touch t c = c\<lparr>c_lastActivity := t\<rparr>"

definition LastActivityNanos :: "Client \<Rightarrow> gotime" where
  "LastActivityNanos c = c_lastActivity c"

definition SetAccount :: "gostring \<Rightarrow> Client \<Rightarrow> Client" where
  "SetAccount account c = c\<lparr>c_Account := account\<rparr>"

definition AccountName :: "Client \<Rightarrow> gostring" where
  "AccountName c = c_Account c"

definition set_client :: "conn \<Rightarrow> Client \<Rightarrow> LoginServer \<Rightarrow> LoginServer" where
  "set_client k c s = s\<lparr>objs := (objs s)(k \<mapsto> c)\<rparr>"

definition emit :: "wire_event \<Rightarrow> LoginServer \<Rightarrow> LoginServer" where
  "emit e s = s\<lparr>wire := wire s @ [e]\<rparr>"

text \<open>
  The packet a client is sent: opcode and body behind the length bytes, encrypted, with the length
  filled in. The result is the packet and the client's cipher state after it.
\<close>

definition build_packet ::
    "Env \<Rightarrow> byte \<Rightarrow> (PacketWriter \<Rightarrow> PacketWriter) \<Rightarrow> Client \<Rightarrow> (byte list \<times> Client) outcome" where
  "build_packet env opcode build c =
     (let w = GetPacketWriter (pooled env);
          w1 = WriteByte opcode w;
          w2 = build w1;
          (crypt', w3) = Encrypt (xorKey env) (c_Crypt c) w2
      in bind_outcome (PrependLength w3) (\<lambda>w4. Ok (wbuf w4, c\<lparr>c_Crypt := crypt'\<rparr>)))"

definition SendAsync ::
    "Env \<Rightarrow> conn \<Rightarrow> byte \<Rightarrow> (PacketWriter \<Rightarrow> PacketWriter) \<Rightarrow> Client \<Rightarrow> LoginServer \<Rightarrow> (err option \<times> LoginServer) outcome" where
  "SendAsync env k opcode build c s =
     bind_outcome (build_packet env opcode build c) (\<lambda>(out, c').
       let s' = set_client k c' s
       in if writeFails env then Ok (Some ErrConn, s') else Ok (None, emit (Sent k out) s'))"

definition SendAndCloseAsync ::
    "Env \<Rightarrow> conn \<Rightarrow> byte \<Rightarrow> (PacketWriter \<Rightarrow> PacketWriter) \<Rightarrow> Client \<Rightarrow> LoginServer \<Rightarrow> (err option \<times> LoginServer) outcome" where
  "SendAndCloseAsync env k opcode build c s =
     bind_outcome (build_packet env opcode build c) (\<lambda>(out, c').
       let s' = set_client k c' s
       in if writeFails env then Ok (Some ErrConn, s') else Ok (None, emit (SentThenClose k out) s'))"

definition CloseClient :: "Env \<Rightarrow> conn \<Rightarrow> LoginServer \<Rightarrow> err option \<times> LoginServer" where
  "CloseClient env k s = (if closeFails env then (Some ErrConn, s) else (None, emit (Closed k) s))"

section \<open>Game servers\<close>

definition GsTouch :: "gotime \<Rightarrow> GameServerClient \<Rightarrow> GameServerClient" where
  "GsTouch t g = g\<lparr>g_lastActivity := t\<rparr>"

definition GsLastActivityNanos :: "GameServerClient \<Rightarrow> gotime" where
  "GsLastActivityNanos g = g_lastActivity g"

definition set_gs :: "conn \<Rightarrow> GameServerClient \<Rightarrow> LoginServer \<Rightarrow> LoginServer" where
  "set_gs k g s = s\<lparr>gsobjs := (gsobjs s)(k \<mapsto> g)\<rparr>"

text \<open>Packets between the servers are not encrypted. A failed write leaves the activity stamp alone.\<close>

definition GsSend ::
    "Env \<Rightarrow> conn \<Rightarrow> byte \<Rightarrow> (PacketWriter \<Rightarrow> PacketWriter) \<Rightarrow> GameServerClient \<Rightarrow> LoginServer \<Rightarrow> (err option \<times> LoginServer) outcome" where
  "GsSend env k opcode build g s =
     (let w = GetPacketWriter (pooled env);
          w1 = WriteByte opcode w;
          w2 = build w1
      in bind_outcome (PrependLength w2) (\<lambda>w3.
           if writeFails env then Ok (Some ErrConn, s)
           else Ok (None, set_gs k (GsTouch (now env) g) (emit (GsSent k (wbuf w3)) s))))"

definition GsSendAndClose ::
    "Env \<Rightarrow> conn \<Rightarrow> byte \<Rightarrow> (PacketWriter \<Rightarrow> PacketWriter) \<Rightarrow> GameServerClient \<Rightarrow> LoginServer \<Rightarrow> (err option \<times> LoginServer) outcome" where
  "GsSendAndClose env k opcode build g s =
     bind_outcome (GsSend env k opcode build g s) (\<lambda>(_, s').
       if closeFails env then Ok (Some ErrConn, s') else Ok (None, emit (GsClosed k) s'))"

definition GsClose :: "Env \<Rightarrow> conn \<Rightarrow> LoginServer \<Rightarrow> err option \<times> LoginServer" where
  "GsClose env k s = (if closeFails env then (Some ErrConn, s) else (None, emit (GsClosed k) s))"

end
