(* ===== verification/Client_Handlers.thy ===== *)
theory Client_Handlers
  imports Server_State
begin

text \<open>
  \<open>internal/packet/client\<close>: the packet handlers of game clients and the table that routes to them. A
  handler gets the connection, the client object, the reader and the server state, and yields the
  error it returns (if any) with the new state; a panic is the outcome \<open>Panic\<close>.

  A login request starts a goroutine. It is an entry of \<open>pendingLogins\<close>, and \<open>login_step\<close> lets the
  goroutine at a position perform its next phase: each phase ends where the goroutine next touches
  state that others share, so every interleaving of logins, packets and ticks is a sequence of steps.
  \<open>processLogin\<close> is the whole function run without interruption.
\<close>

section \<open>Opcodes and routing\<close>

definition ClientLogin :: byte where "ClientLogin = 0x00"
definition ClientGameServerLogin :: byte where "ClientGameServerLogin = 0x02"
definition ClientServerList :: byte where "ClientServerList = 0x05"
definition ClientAuthGG :: byte where "ClientAuthGG = 0x07"
definition ServerInit :: byte where "ServerInit = 0x00"
definition ServerLoginFail :: byte where "ServerLoginFail = 0x01"
definition ServerLoginBanned :: byte where "ServerLoginBanned = 0x02"
definition ServerLoginOK :: byte where "ServerLoginOK = 0x03"
definition ServerServerList :: byte where "ServerServerList = 0x04"
definition ServerPlayOK :: byte where "ServerPlayOK = 0x07"
definition ServerAuthGG :: byte where "ServerAuthGG = 0x0B"

type_synonym handled = "(err option \<times> LoginServer) outcome"
type_synonym handler = "conn \<Rightarrow> Client \<Rightarrow> PacketReader \<Rightarrow> LoginServer \<Rightarrow> handled"

definition NewRegistry :: "handler option list" where
  "NewRegistry = replicate 256 None"

definition RegisterHandler :: "byte \<Rightarrow> handler \<Rightarrow> handler option list \<Rightarrow> handler option list" where
  "RegisterHandler opcode h reg = reg[unat opcode := Some h]"

definition Handle :: "handler option list \<Rightarrow> conn \<Rightarrow> Client \<Rightarrow> byte \<Rightarrow> PacketReader \<Rightarrow> LoginServer \<Rightarrow> handled" where
  "Handle reg k c opcode r s =
     (case reg ! unat opcode of
        None \<Rightarrow> Ok (Some ErrUnknownOpcode, s)
      | Some h \<Rightarrow> h k c r s)"

text \<open>A read in a handler: its error is returned as the handler's, with the state as it is.\<close>

definition reading :: "('a \<times> PacketReader) outcome \<Rightarrow> LoginServer \<Rightarrow> ('a \<times> PacketReader \<Rightarrow> handled) \<Rightarrow> handled" where
  "reading m s f = (case m of Ok x \<Rightarrow> f x | Error e \<Rightarrow> Ok (Some e, s) | Panic \<Rightarrow> Panic)"

text \<open>A send whose error is ignored.\<close>

definition ignore_err :: "handled \<Rightarrow> handled" where
  "ignore_err m = bind_outcome m (\<lambda>(_, s). Ok (None, s))"

definition client_of :: "conn \<Rightarrow> LoginServer \<Rightarrow> Client" where
  "client_of k s = the (objs s k)"

section \<open>GameGuard\<close>

definition AuthGG :: "Env \<Rightarrow> handler" where
  "AuthGG env k c r s =
     reading (ReadInt32 r) s (\<lambda>(sessionID, r1).
       if sessionID \<noteq> c_SessionID c
       then ignore_err (SendAndCloseAsync env k ServerLoginFail (WriteByte 0x01) c s)
       else let c' = c\<lparr>c_State := StateAuthedGG\<rparr>
            in ignore_err (SendAsync env k ServerAuthGG (WriteInt32 (c_SessionID c')) c' (set_client k c' s)))"

section \<open>Login\<close>

definition sendLoginFail :: "Env \<Rightarrow> conn \<Rightarrow> byte \<Rightarrow> Client \<Rightarrow> LoginServer \<Rightarrow> handled" where
  "sendLoginFail env k reason c s = SendAndCloseAsync env k ServerLoginFail (WriteByte reason) c s"

definition readLoginBlocks :: "PacketReader \<Rightarrow> ((byte list \<times> byte list option) \<times> PacketReader) outcome" where
  "readLoginBlocks r =
     bind_outcome (ReadBytes 128 r) (\<lambda>(block1, r1).
       if ReadableBytes r1 \<ge> 128
       then bind_outcome (ReadBytes 128 r1) (\<lambda>(block2, r2). Ok ((block1, Some block2), r2))
       else Ok ((block1, None), r1))"

definition HandleLogin :: "Env \<Rightarrow> handler" where
  "HandleLogin env k c r s =
     (if c_State c \<noteq> StateAuthedGG then sendLoginFail env k 0x01 c s
      else case readLoginBlocks r of
        Panic \<Rightarrow> Panic
      | Error _ \<Rightarrow> sendLoginFail env k 0x01 c s
      | Ok ((block1, block2), r1) \<Rightarrow>
          Ok (None, s\<lparr>pendingLogins := pendingLogins s @ [(k, LQueued block1 block2)]\<rparr>))"

definition blank :: "byte \<Rightarrow> bool" where
  "blank b \<longleftrightarrow> b = 0 \<or> b = 32"

definition cleanBytesToString :: "byte list \<Rightarrow> gostring" where
  "cleanBytesToString b = (let front = dropWhile blank b in rev (dropWhile blank (rev front)))"

definition bytes_at :: "nat \<Rightarrow> nat \<Rightarrow> byte list \<Rightarrow> byte list" where
  "bytes_at i n d = take n (drop i d)"

definition decodeCredentials ::
    "(rune \<Rightarrow> rune) \<Rightarrow> ScrambledKey \<Rightarrow> byte list \<Rightarrow> byte list option \<Rightarrow> (gostring \<times> gostring) outcome" where
  "decodeCredentials ul key block1 block2 =
     bind_outcome (RSADecrypt key block1) (\<lambda>part1.
       let d1 = put_at (replicate 256 0) 0 (take 128 part1) in
       case block2 of
         Some b2 \<Rightarrow>
           bind_outcome (RSADecrypt key b2) (\<lambda>part2.
             let d = put_at d1 128 part2;
                 username = cleanBytesToString (bytes_at 0x4E 50 d) @ cleanBytesToString (bytes_at 0xCE 14 d);
                 password = cleanBytesToString (bytes_at 0xDC 16 d)
             in Ok (ToLower ul username, password))
       | None \<Rightarrow>
           let username = cleanBytesToString (bytes_at 0x5E 14 d1);
               password = cleanBytesToString (bytes_at 0x6C 16 d1)
           in Ok (ToLower ul username, password))"

definition failCounter :: "err \<Rightarrow> Metrics \<Rightarrow> Metrics" where
  "failCounter e m =
     (if e = ErrInvalidPassword then m\<lparr>LoginFailInvalidPwd := LoginFailInvalidPwd m + 1\<rparr>
      else if e = ErrAccountNotFound then m\<lparr>LoginFailNotFound := LoginFailNotFound m + 1\<rparr>
      else if e = ErrAccountBanned then m\<lparr>LoginFailBanned := LoginFailBanned m + 1\<rparr>
      else m\<lparr>LoginFailSystem := LoginFailSystem m + 1\<rparr>)"

definition getFailReasonFromError :: "err \<Rightarrow> byte" where
  "getFailReasonFromError e = (if e = ErrInvalidPassword then 0x02 else if e = ErrAccountNotFound then 0x01 else 0x01)"

text \<open>The goroutine ends with the send of \<open>m\<close>, whose error is ignored.\<close>

definition finally_send :: "handled \<Rightarrow> (login_pc \<times> LoginServer) outcome" where
  "finally_send m = bind_outcome m (\<lambda>(_, s). Ok (LDone, s))"

definition login_decode :: "Env \<Rightarrow> conn \<Rightarrow> byte list \<Rightarrow> byte list option \<Rightarrow> LoginServer \<Rightarrow> (login_pc \<times> LoginServer) outcome" where
  "login_decode env k block1 block2 s =
     (case decodeCredentials (uniLower env) (c_ScrambledKey (client_of k s)) block1 block2 of
        Panic \<Rightarrow> Panic
      | Error _ \<Rightarrow> finally_send (sendLoginFail env k 0x01 (client_of k s) s)
      | Ok (username, password) \<Rightarrow> Ok (LAuthenticate username password, s))"

definition login_authenticate ::
    "Env \<Rightarrow> Authenticator \<Rightarrow> conn \<Rightarrow> gostring \<Rightarrow> gostring \<Rightarrow> LoginServer \<Rightarrow> (login_pc \<times> LoginServer) outcome" where
  "login_authenticate env auth k username password s =
     (let c = client_of k s in
      case Authenticate (authEnv env) auth username password (c_RemoteIP c) (db s) of
        (Panic, _) \<Rightarrow> Panic
      | (Error e, db') \<Rightarrow>
          let (bans', cmds) = RecordFailure (now env) (c_RemoteAddr c) (bans s);
              s1 = s\<lparr>db := db', metrics := failCounter e (metrics s), bans := bans', banCmds := banCmds s @ cmds\<rparr>
          in finally_send
               (if e = ErrAccountBanned then SendAndCloseAsync env k ServerLoginBanned (WriteByte 0x20) c s1
                else sendLoginFail env k (getFailReasonFromError e) c s1)
      | (Ok account, db') \<Rightarrow>
          Ok (LRegister username account,
              s\<lparr>db := db', metrics := (metrics s)\<lparr>LoginSuccess := LoginSuccess (metrics s) + 1\<rparr>\<rparr>))"

definition login_register ::
    "Env \<Rightarrow> conn \<Rightarrow> gostring \<Rightarrow> FindAccountRow \<Rightarrow> LoginServer \<Rightarrow> (login_pc \<times> LoginServer) outcome" where
  "login_register env k username account s =
     (case TryRegister (now env) username (registry s) of ((kickOld, allow), R') \<Rightarrow>
        let s1 = s\<lparr>registry := R'\<rparr>
        in if \<not> allow then finally_send (sendLoginFail env k 0x07 (client_of k s1) s1)
           else if kickOld then Ok (LKick username account, s1)
           else Ok (LFinish username account, s1))"

definition login_kick ::
    "LoginServer KickManager \<Rightarrow> gostring \<Rightarrow> FindAccountRow \<Rightarrow> LoginServer \<Rightarrow> (login_pc \<times> LoginServer) outcome" where
  "login_kick km username account s =
     (case Get username (registry s) of
        None \<Rightarrow> Ok (LFinish username account, s)
      | Some sess \<Rightarrow>
          bind_outcome (if ServerID sess = 0 then KickAccount km username s else KickFromGame km username (ServerID sess) s)
            (\<lambda>s1. Ok (LFinish username account, s1)))"

fun write_zeros :: "nat \<Rightarrow> PacketWriter \<Rightarrow> PacketWriter" where
  "write_zeros 0 w = w"
| "write_zeros (Suc n) w = write_zeros n (WriteInt32 0x00 w)"

definition build_login_ok :: "SessionKey \<Rightarrow> PacketWriter \<Rightarrow> PacketWriter" where
  "build_login_ok key w =
     (let w1 = WriteInt32 (LoginOkID1 key) w;
          w2 = WriteInt32 (LoginOkID2 key) w1;
          w3 = WriteInt32 0x00 w2;
          w4 = WriteInt32 0x00 w3;
          w5 = WriteInt32 0x000003ea w4;
          w6 = WriteInt32 0x00 w5;
          w7 = WriteInt32 0x00 w6;
          w8 = WriteInt32 0x00 w7
      in write_zeros 4 w8)"

definition login_finish ::
    "Env \<Rightarrow> conn \<Rightarrow> gostring \<Rightarrow> FindAccountRow \<Rightarrow> LoginServer \<Rightarrow> (login_pc \<times> LoginServer) outcome" where
  "login_finish env k username account s =
     (let c = client_of k s;
          s1 = s\<lparr>bans := ResetAttempts (c_RemoteAddr c) (bans s),
                 registry := Register (now env) username (c_SessionID c) (registry s)\<rparr>;
          c1 = (SetAccount username (c\<lparr>c_AccountID := row_ID account\<rparr>))
                 \<lparr>c_State := StateAuthedLogin, c_LastServer := row_LastServer account\<rparr>
      in finally_send (SendAsync env k ServerLoginOK (build_login_ok (c_SessionKey c1)) c1 (set_client k c1 s1)))"

text \<open>One phase of a goroutine. Leaving the queue is the acquisition of the semaphore.\<close>

definition login_advance ::
    "Env \<Rightarrow> Authenticator \<Rightarrow> LoginServer KickManager \<Rightarrow> conn \<Rightarrow> login_pc \<Rightarrow> LoginServer \<Rightarrow> (login_pc \<times> LoginServer) outcome" where
  "login_advance env auth km k pc s = (case pc of
     LQueued b1 b2 \<Rightarrow> Ok (LDecode b1 b2, s)
   | LDecode b1 b2 \<Rightarrow> login_decode env k b1 b2 s
   | LAuthenticate username password \<Rightarrow> login_authenticate env auth k username password s
   | LRegister username account \<Rightarrow> login_register env k username account s
   | LKick username account \<Rightarrow> login_kick km username account s
   | LFinish username account \<Rightarrow> login_finish env k username account s
   | LDone \<Rightarrow> Ok (LDone, s))"

fun login_run ::
    "nat \<Rightarrow> Env \<Rightarrow> Authenticator \<Rightarrow> LoginServer KickManager \<Rightarrow> conn \<Rightarrow> login_pc \<Rightarrow> LoginServer \<Rightarrow> (login_pc \<times> LoginServer) outcome" where
  "login_run 0 env auth km k pc s = Ok (pc, s)"
| "login_run (Suc n) env auth km k pc s =
     bind_outcome (login_advance env auth km k pc s) (\<lambda>(pc', s'). login_run n env auth km k pc' s')"

definition processLogin ::
    "Env \<Rightarrow> Authenticator \<Rightarrow> LoginServer KickManager \<Rightarrow> conn \<Rightarrow> byte list \<Rightarrow> byte list option \<Rightarrow> LoginServer \<Rightarrow> LoginServer outcome" where
  "processLogin env auth km k block1 block2 s =
     bind_outcome (login_run 6 env auth km k (LQueued block1 block2) s) (\<lambda>(_, s'). Ok s')"

text \<open>The controller's semaphore bounds the goroutines that have left the queue.\<close>

definition login_workers :: "nat \<Rightarrow> nat" where
  "login_workers numCPU = (let workers = numCPU * 2 in if workers < 8 then 8 else workers)"

fun is_queued :: "login_pc \<Rightarrow> bool" where
  "is_queued (LQueued b1 b2) = True"
| "is_queued _ = False"

definition running :: "LoginServer \<Rightarrow> nat" where
  "running s = length (filter (\<lambda>(k, pc). \<not> is_queued pc) (pendingLogins s))"

definition login_step ::
    "nat \<Rightarrow> Env \<Rightarrow> Authenticator \<Rightarrow> LoginServer KickManager \<Rightarrow> nat \<Rightarrow> LoginServer \<Rightarrow> LoginServer outcome" where
  "login_step workers env auth km i s =
     (if i \<ge> length (pendingLogins s) then Ok s
      else case pendingLogins s ! i of (k, pc) \<Rightarrow>
        if is_queued pc \<and> running s \<ge> workers then Ok s
        else bind_outcome (login_advance env auth km k pc s) (\<lambda>(pc', s').
          let logins = pendingLogins s'
          in Ok (s'\<lparr>pendingLogins := (if pc' = LDone then take i logins @ drop (i + 1) logins else logins[i := (k, pc')])\<rparr>)))"

section \<open>Server list\<close>

definition write_server :: "(gostring \<Rightarrow> Addr option) \<Rightarrow> Server \<Rightarrow> PacketWriter \<Rightarrow> PacketWriter" where
  "write_server p6 srv w =
     (let w1 = WriteByte (ucast (srv_ID srv)) w;
          w2 = (case ParseAddr p6 (srv_IP srv) of
                  None \<Rightarrow> w1
                | Some ipAddr \<Rightarrow>
                    if Is4 ipAddr
                    then let octets = As4 ipAddr
                         in WriteByte (octets ! 3) (WriteByte (octets ! 2) (WriteByte (octets ! 1) (WriteByte (octets ! 0) w1)))
                    else w1);
          w3 = WriteInt32 (srv_Port srv) w2;
          w4 = WriteByte 0x00 w3;
          w5 = WriteByte (if srv_Pvp srv then 0x01 else 0x00) w4;
          w6 = WriteInt16 (srv_CurrentPlayers srv) w5;
          w7 = WriteInt16 (srv_MaxPlayers srv) w6;
          status = (if sint (srv_CurrentPlayers srv) \<ge> sint (srv_MaxPlayers srv) then 0 else srv_Status srv);
          w8 = WriteByte status w7;
          w9 = WriteInt32 (srv_ServerType srv) w8
      in WriteByte (if srv_Brackets srv then 0x01 else 0x00) w9)"

fun write_servers :: "(gostring \<Rightarrow> Addr option) \<Rightarrow> Server list \<Rightarrow> PacketWriter \<Rightarrow> PacketWriter" where
  "write_servers p6 [] w = w"
| "write_servers p6 (srv # srvs) w = write_servers p6 srvs (write_server p6 srv w)"

fun write_char_counts :: "byte list \<Rightarrow> bool \<Rightarrow> Server list \<Rightarrow> PacketWriter \<Rightarrow> PacketWriter" where
  "write_char_counts counts hasChars [] w = w"
| "write_char_counts counts hasChars (srv # srvs) w =
     (let srvID = srv_ID srv;
          w1 = WriteByte (ucast srvID) w
      in write_char_counts counts hasChars srvs
           (if hasChars \<and> id_in_bounds srvID then WriteByte (counts ! unat srvID) w1 else WriteByte 0x00 w1))"

definition build_server_list ::
    "(gostring \<Rightarrow> Addr option) \<Rightarrow> ServerSnapshot \<Rightarrow> byte list \<Rightarrow> bool \<Rightarrow> int32 \<Rightarrow> PacketWriter \<Rightarrow> PacketWriter" where
  "build_server_list p6 snap counts hasChars lastServer w =
     (let srvs = take (snap_Count snap) (snap_Servers snap);
          w1 = WriteByte (of_nat (snap_Count snap)) w;
          w2 = WriteByte (ucast lastServer) w1;
          w3 = write_servers p6 srvs w2;
          w4 = WriteInt16 0x00 w3;
          w5 = WriteInt16 0xA4 w4
      in write_char_counts counts hasChars srvs w5)"

definition HandleServerList :: "Env \<Rightarrow> LoginServer KickManager \<Rightarrow> handler" where
  "HandleServerList env km k c r s =
     (if c_State c \<noteq> StateAuthedLogin then Ok (Some ErrUnauthorizedState, s)
      else reading (ReadInt32 r) s (\<lambda>(loginOK1, r1).
        reading (ReadInt32 r1) s (\<lambda>(loginOK2, r2).
          if \<not> CheckLoginPair (c_SessionKey c) loginOK1 loginOK2
          then Ok (Some ErrInvalidPassword, snd (CloseClient env k s))
          else
            let c1 = c\<lparr>c_State := StateServerList\<rparr>;
                s1 = set_client k c1 s;
                snap = GetServers (serverList s1);
                (charCounts, hasChars) = GetCharCounts (c_Account c1) (serverList s1)
            in bind_outcome (if \<not> hasChars then RequestCharacters km (c_Account c1) (c_AccountID c1) s1 else Ok s1) (\<lambda>s2.
                 ignore_err (SendAsync env k ServerServerList
                   (build_server_list (parse6 (authEnv env)) snap charCounts hasChars (c_LastServer c1)) c1 s2)))))"

section \<open>Game server login\<close>

text \<open>The second half of the handler: the chosen server is stored, the session put, the client told.\<close>

definition grant_handoff :: "int \<Rightarrow> Env \<Rightarrow> conn \<Rightarrow> Client \<Rightarrow> int32 \<Rightarrow> LoginServer \<Rightarrow> handled" where
  "grant_handoff handoffTTL env k c serverID s =
     (let c1 = (if c_LastServer c \<noteq> serverID then c\<lparr>c_LastServer := serverID\<rparr> else c);
          db1 = (if c_LastServer c \<noteq> serverID then UpdateLastServer (authEnv env) (c_Account c) serverID (db s) else db s);
          sess = \<lparr>ExpiresAt = now env + handoffTTL, SKey = c_SessionKey c1, SAccount = c_Account c1,
                  SAccountID = c_AccountID c1, SServerID = serverID\<rparr>;
          s1 = (set_client k c1 s)\<lparr>db := db1, handoffs := Put (LoginOkID1 (c_SessionKey c1)) sess (handoffs s)\<rparr>
      in SendAsync env k ServerPlayOK
           (\<lambda>w. WriteInt32 (PlayOkID2 (c_SessionKey c1)) (WriteInt32 (PlayOkID1 (c_SessionKey c1)) w)) c1 s1)"

definition GameServerLogin :: "int \<Rightarrow> Env \<Rightarrow> handler" where
  "GameServerLogin handoffTTL env k c r s =
     (if c_State c \<noteq> StateServerList then Ok (None, s)
      else reading (ReadInt32 r) s (\<lambda>(loginOK1, r1).
        reading (ReadInt32 r1) s (\<lambda>(loginOK2, r2).
          reading (ReadInt32 r2) s (\<lambda>(serverID, r3).
            if sint serverID < 0 \<or> sint serverID \<ge> int MaxSupportedServers then Ok (CloseClient env k s)
            else if \<not> CheckLoginPair (c_SessionKey c) loginOK1 loginOK2 then Ok (CloseClient env k s)
            else grant_handoff handoffTTL env k c serverID s))))"

end
