(* ===== verification/Gs_Handlers.thy ===== *)
theory Gs_Handlers
  imports Client_Handlers
begin

text \<open>
  \<open>internal/packet/gs\<close>: the handlers of the packets game servers send, and their routing table. They
  work on the same server state as the client handlers; a packet without a handler is ignored.
  A handler that fails halfway keeps what it has done: the batch handlers stop at the first entry
  they cannot read, with the entries before it applied.
\<close>

section \<open>Opcodes and routing\<close>

definition GameServerAuth :: byte where "GameServerAuth = 0x01"
definition PlayerInGame :: byte where "PlayerInGame = 0x02"
definition PlayerLogout :: byte where "PlayerLogout = 0x03"
definition PlayerAuthRequest :: byte where "PlayerAuthRequest = 0x05"
definition ServerStatusUpdate :: byte where "ServerStatusUpdate = 0x06"
definition ReplyCharacters :: byte where "ReplyCharacters = 0x08"
definition AuthResponse :: byte where "AuthResponse = 0x02"
definition PlayerAuthResponse :: byte where "PlayerAuthResponse = 0x03"
definition KickPlayer :: byte where "KickPlayer = 0x04"
definition RequestCharactersOp :: byte where "RequestCharactersOp = 0x05"

type_synonym gs_handler = "conn \<Rightarrow> GameServerClient \<Rightarrow> PacketReader \<Rightarrow> LoginServer \<Rightarrow> handled"

definition NewGsRegistry :: "gs_handler option list" where
  "NewGsRegistry = replicate 256 None"

definition RegisterGsHandler :: "byte \<Rightarrow> gs_handler \<Rightarrow> gs_handler option list \<Rightarrow> gs_handler option list" where
  "RegisterGsHandler opcode h reg = reg[unat opcode := Some h]"

definition GsHandle :: "gs_handler option list \<Rightarrow> conn \<Rightarrow> GameServerClient \<Rightarrow> byte \<Rightarrow> PacketReader \<Rightarrow> LoginServer \<Rightarrow> handled" where
  "GsHandle reg k g opcode r s =
     (case reg ! unat opcode of
        None \<Rightarrow> Ok (None, s)
      | Some h \<Rightarrow> h k g r s)"

section \<open>Registration of a game server\<close>

definition MaxHexKeySize :: int where
  "MaxHexKeySize = 512"

definition MaxHostCountCeil :: int where
  "MaxHostCountCeil = 8"

fun skip_strings :: "nat \<Rightarrow> PacketReader \<Rightarrow> (unit \<times> PacketReader) outcome" where
  "skip_strings 0 r = Ok ((), r)"
| "skip_strings (Suc n) r = bind_outcome (SkipString r) (\<lambda>(_, r'). skip_strings n r')"

text \<open>The host of the announcement: the first of \<open>hostCount\<close> strings, the others are skipped.\<close>

definition read_hosts :: "int \<Rightarrow> gostring read" where
  "read_hosts hostCount r =
     (if hostCount > 0
      then bind_outcome (ReadString r) (\<lambda>(serverHost, r1).
        bind_outcome (skip_strings (nat hostCount - 1) r1) (\<lambda>(_, r2). Ok (serverHost, r2)))
      else Ok ([], r))"

definition HandleInit :: "Env \<Rightarrow> gs_handler" where
  "HandleInit env k g r s =
     reading (ReadByte r) s (\<lambda>(serverID, r1).
     reading (ReadByte r1) s (\<lambda>(_, r2).
     reading (ReadByte r2) s (\<lambda>(_, r3).
     reading (ReadInt16 r3) s (\<lambda>(serverPort, r4).
     reading (ReadInt32 r4) s (\<lambda>(maxPlayers, r5).
     reading (ReadInt32 r5) s (\<lambda>(hexSize, r6).
       if sint hexSize < 0 \<or> sint hexSize > MaxHexKeySize then Ok (Some ErrPayloadTooLarge, s)
       else
     reading (ReadBytes (sint hexSize) r6) s (\<lambda>(_, r7).
     reading (ReadInt32 r7) s (\<lambda>(hostCount, r8).
       if sint hostCount < 0 \<or> sint hostCount > MaxHostCountCeil then Ok (Some ErrPayloadTooLarge, s)
       else
     reading (read_hosts (sint hostCount) r8) s (\<lambda>(serverHost, r9).
     reading (ReadByte r9) s (\<lambda>(pvp, r10).
     reading (ReadByte r10) s (\<lambda>(brackets, r11).
     reading (ReadInt32 r11) s (\<lambda>(serverType, r12).
       let sid = ucast serverID;
           g1 = g\<lparr>g_ServerID := sid\<rparr>;
           srvConfig = \<lparr>srv_IP = serverHost, srv_Port = scast serverPort, srv_ID = sid, srv_ServerType = serverType,
             srv_MaxPlayers = ucast maxPlayers, srv_CurrentPlayers = 0, srv_Pvp = (pvp = 1),
             srv_Brackets = (brackets = 1), srv_Status = 1\<rparr>;
           s1 = (set_gs k g1 s)\<lparr>serverList := RegisterServer srvConfig (serverList s)\<rparr>
       in ignore_err (GsSend env k AuthResponse (WriteByte serverID) g1 s1)))))))))))))"

section \<open>Players entering and leaving\<close>

definition MaxPlayerSyncBatch :: int where
  "MaxPlayerSyncBatch = 256"

fun players_in_game :: "nat \<Rightarrow> int32 \<Rightarrow> PacketReader \<Rightarrow> LoginServer \<Rightarrow> handled" where
  "players_in_game 0 serverID r s = Ok (None, s)"
| "players_in_game (Suc n) serverID r s =
     reading (ReadString r) s (\<lambda>(account, r').
       players_in_game n serverID r' (s\<lparr>registry := SetGS account serverID (registry s)\<rparr>))"

definition HandlePlayerInGame :: gs_handler where
  "HandlePlayerInGame k g r s =
     reading (ReadInt16 r) s (\<lambda>(sz, r1).
       if sint sz < 0 \<or> sint sz > MaxPlayerSyncBatch then Ok (Some ErrExceededBatchLimit, s)
       else players_in_game (nat (sint sz)) (g_ServerID g) r1 s)"

definition HandlePlayerLogout :: gs_handler where
  "HandlePlayerLogout k g r s =
     reading (ReadString r) s (\<lambda>(account, r1).
       case Get account (registry s) of
         None \<Rightarrow> Ok (None, s)
       | Some sess \<Rightarrow>
           if ServerID sess \<noteq> g_ServerID g then Ok (None, s)
           else Ok (None, s\<lparr>registry := snd (Unregister account (SessionID sess) (registry s))\<rparr>))"

section \<open>Validation of a handoff\<close>

definition build_auth_response :: "gostring \<Rightarrow> bool \<Rightarrow> int32 \<Rightarrow> int64 \<Rightarrow> PacketWriter \<Rightarrow> PacketWriter" where
  "build_auth_response account success loginOkID1 accountID w =
     (let w1 = WriteString account w;
          w2 = WriteByte (if success then 1 else 0) w1;
          w3 = WriteInt32 loginOkID1 w2
      in WriteInt64 (if success then accountID else 0) w3)"

definition HandleValidate :: "Env \<Rightarrow> gs_handler" where
  "HandleValidate env k g r s =
     reading (ReadString r) s (\<lambda>(account, r1).
     reading (ReadInt32 r1) s (\<lambda>(playOkID1, r2).
     reading (ReadInt32 r2) s (\<lambda>(playOkID2, r3).
     reading (ReadInt32 r3) s (\<lambda>(loginOkID1, r4).
     reading (ReadInt32 r4) s (\<lambda>(loginOkID2, r5).
       let (found, H') = ValidateAndDelete (now env) loginOkID1 (handoffs s);
           s1 = s\<lparr>handoffs := H'\<rparr>;
           success = (case found of
               None \<Rightarrow> False
             | Some sess \<Rightarrow> EqualFold (uniFold env) (SAccount sess) account
                 \<and> CheckPlayPair (SKey sess) loginOkID1 loginOkID2 playOkID1 playOkID2);
           accountID = (case found of None \<Rightarrow> 0 | Some sess \<Rightarrow> SAccountID sess)
       in ignore_err (GsSend env k PlayerAuthResponse
            (build_auth_response account success loginOkID1 accountID) g s1))))))"

section \<open>Character counts and status\<close>

definition HandleReplyCharacters :: gs_handler where
  "HandleReplyCharacters k g r s =
     reading (ReadString r) s (\<lambda>(account, r1).
     reading (ReadByte r1) s (\<lambda>(chars, r2).
     reading (ReadByte r2) s (\<lambda>(_, r3).
       Ok (None, s\<lparr>serverList := SetCharCount account (g_ServerID g) chars (serverList s)\<rparr>))))"

definition MaxStatusAttributes :: int where
  "MaxStatusAttributes = 16"

fun status_updates :: "nat \<Rightarrow> int32 \<Rightarrow> PacketReader \<Rightarrow> LoginServer \<Rightarrow> handled" where
  "status_updates 0 serverID r s = Ok (None, s)"
| "status_updates (Suc n) serverID r s =
     reading (ReadInt32 r) s (\<lambda>(infoType, r1).
     reading (ReadInt32 r1) s (\<lambda>(val, r2).
       status_updates n serverID r2
         (s\<lparr>serverList := UpdateStatus serverID (sint infoType) val (serverList s)\<rparr>)))"

definition HandleStatus :: gs_handler where
  "HandleStatus k g r s =
     reading (ReadInt32 r) s (\<lambda>(sz, r1).
       if sint sz < 0 \<or> sint sz > MaxStatusAttributes then Ok (Some ErrMalformedPacketSize, s)
       else status_updates (nat (sint sz)) (g_ServerID g) r1 s)"

end
