(* ===== verification/Client_Listener.thy ===== *)
theory Client_Listener
  imports Client_Handlers
begin

text \<open>
  \<open>internal/listener/client_listener.go\<close>: what the network engine calls for game clients, and the
  kick callback. The routing table is built once by the source; here it is a function of the
  environment, since handlers read the clock and the network through it.
\<close>

datatype Action = ActNone | ActClose

record ListenerConfig =
  lc_auth :: Authenticator
  lc_timeout :: int
  lc_handoffTTL :: int

definition client_registry :: "ListenerConfig \<Rightarrow> LoginServer KickManager \<Rightarrow> Env \<Rightarrow> handler option list" where
  "client_registry cfg km env =
     (let r1 = RegisterHandler ClientAuthGG (AuthGG env) NewRegistry;
          r2 = RegisterHandler ClientLogin (HandleLogin env) r1;
          r3 = RegisterHandler ClientServerList (HandleServerList env km) r2
      in RegisterHandler ClientGameServerLogin (GameServerLogin (lc_handoffTTL cfg) env) r3)"

section \<open>Opening a connection\<close>

text \<open>The counter wraps; the clock's low 32 bits are mixed in.\<close>

definition generateSessionID :: "gotime \<Rightarrow> LoginServer \<Rightarrow> int32 \<times> LoginServer" where
  "generateSessionID t s = (let i = globalSessionID s + 1 in (i XOR word_of_int t, s\<lparr>globalSessionID := i\<rparr>))"

definition build_init :: "int32 \<Rightarrow> byte list \<Rightarrow> byte list \<Rightarrow> PacketWriter \<Rightarrow> PacketWriter" where
  "build_init sessionID modulus secretKey w =
     (let w1 = WriteByte ServerInit w;
          w2 = WriteInt32 sessionID w1;
          w3 = WriteInt32 0x0000c621 w2;
          w4 = WriteBytes modulus w3;
          w5 = WriteUint32 0x29DD954E w4;
          w6 = WriteUint32 0x77C39CFC w5;
          w7 = WriteUint32 0x97ADB620 w6;
          w8 = WriteUint32 0x07BDE0F7 w7;
          w9 = WriteBytes secretKey w8
      in WriteByte 0x00 w9)"

text \<open>
  The accepted connection: the client object is made and registered, then its Init packet, built in
  a pooled buffer and encrypted with the static key, goes out.
\<close>

definition new_client :: "gostring \<Rightarrow> Addr \<Rightarrow> int32 \<Rightarrow> SessionKey \<Rightarrow> ScrambledKey \<Rightarrow> byte list \<Rightarrow> Client" where
  "new_client ip ipAddr sessionID sessionKey scrambledKey secretKey =
     \<lparr>c_Crypt = NewCrypt secretKey, c_ScrambledKey = scrambledKey, c_RemoteAddr = ipAddr,
      c_RemoteIP = ip, c_Account = [], c_lastActivity = 0, c_AccountID = 0,
      c_SessionKey = sessionKey, c_LastServer = 0, c_SessionID = sessionID, c_State = StateConnected\<rparr>"

definition open_client ::
    "Env \<Rightarrow> conn \<Rightarrow> gostring \<Rightarrow> Addr \<Rightarrow> int32 \<Rightarrow> SessionKey \<Rightarrow> ScrambledKey \<Rightarrow> LoginServer \<Rightarrow> (Action \<times> LoginServer) outcome" where
  "open_client env k ip ipAddr sessionID sessionKey scrambledKey s =
     (let secretKey = GetRandomBlowFishKey (loginCryptKeys s) (scast sessionID);
          cl = Touch (now env) (new_client ip ipAddr sessionID sessionKey scrambledKey secretKey);
          m = metrics s;
          s1 = (set_client k cl s)\<lparr>clients := insert k (clients s),
                 metrics := m\<lparr>ActiveConnections := ActiveConnections m + 1, ConnectionTotal := ConnectionTotal m + 1\<rparr>\<rparr>;
          w = build_init sessionID (Modulus scrambledKey) secretKey (GetPacketWriter (pooled env));
          w1 = EncryptStatic (xorKey env) w
      in bind_outcome (PrependLength w1) (\<lambda>w2. Ok (ActNone, emit (Sent k (wbuf w2)) s1)))"

text \<open>
  \<open>rnd\<close> is what the random source delivers for the session key. A refused connection leaves no
  client behind.
\<close>

definition OnOpen :: "Env \<Rightarrow> conn \<Rightarrow> gostring \<Rightarrow> byte list option \<Rightarrow> LoginServer \<Rightarrow> (Action \<times> LoginServer) outcome" where
  "OnOpen env k ip rnd s =
     (let ipAddr = (case ParseAddr (parse6 (authEnv env)) ip of None \<Rightarrow> AddrZero | Some a \<Rightarrow> a);
          (allowed, lim') = Allow (now env) ipAddr (limiter s);
          s1 = s\<lparr>limiter := lim'\<rparr>
      in if \<not> allowed then Ok (ActClose, s1)
         else
           let (banned, bans', cmds) = IsBanned (now env) (now env) ipAddr (bans s1);
               s2 = s1\<lparr>bans := bans', banCmds := banCmds s1 @ cmds\<rparr>
           in if banned then Ok (ActClose, s2)
         else
           let (sessionID, s3) = generateSessionID (now env) s2 in
           case GenerateSessionKey rnd of
             Panic \<Rightarrow> Panic
           | Error _ \<Rightarrow> Ok (ActClose, s3)
           | Ok sessionKey \<Rightarrow>
               (case GetScrambledKey (rsaPool s3) (rsaIdx s3) of
                  Panic \<Rightarrow> Panic
                | Error _ \<Rightarrow> Ok (ActClose, s3)
                | Ok (scrambledKey, idx') \<Rightarrow>
                    open_client env k ip ipAddr sessionID sessionKey scrambledKey (s3\<lparr>rsaIdx := idx'\<rparr>)))"

section \<open>Incoming data\<close>

text \<open>
  The framing loop over what the connection delivered. A frame's length counts its own two bytes;
  \<open>buf[2:size]\<close> panics for a size below two, which no check excludes. \<open>ERR\<close>: a handler's error
  closes the connection. After a successful packet the client is touched and the loop goes on.
\<close>

definition frame_size :: "byte list \<Rightarrow> nat" where
  "frame_size buf = unat ((ucast (buf ! 0) OR push_bit 8 (ucast (buf ! 1))) :: uint16)"

function client_frames ::
    "Env \<Rightarrow> handler option list \<Rightarrow> conn \<Rightarrow> byte list \<Rightarrow> LoginServer \<Rightarrow> (Action \<times> LoginServer) outcome" where
  "client_frames env reg k buf s =
     (if length buf < 2 then Ok (ActNone, s)
      else let sz = frame_size buf in
        if sz < MinPacketSize \<or> sz > MaxPacketSize then Ok (ActClose, s)
        else if length buf < sz then Ok (ActNone, s)
        else if sz < 2 then Panic
        else let payload = take (sz - 2) (drop 2 buf);
                 (decrypted, payload') = Decrypt (c_Crypt (client_of k s)) payload (int (length payload))
             in if \<not> decrypted then Ok (ActClose, s)
                else if length payload' < 1 then Ok (ActClose, s)
                else let opcode = payload' ! 0 in
                  case GetPacketReader (drop 1 payload') of
                    Panic \<Rightarrow> Panic
                  | Error _ \<Rightarrow> Ok (ActClose, s)
                  | Ok reader \<Rightarrow>
                      (case Handle reg k (client_of k s) opcode reader s of
                         Panic \<Rightarrow> Panic
                       | Error e \<Rightarrow> Error e
                       | Ok (Some e, s1) \<Rightarrow> Ok (ActClose, s1)
                       | Ok (None, s1) \<Rightarrow>
                           client_frames env reg k (drop sz buf) (set_client k (Touch (now env) (client_of k s1)) s1)))"
  by pat_completeness auto
termination
  by (relation "measure (\<lambda>(env, reg, k, buf, s). length buf)") auto

declare client_frames.simps [simp del]

text \<open>\<open>c.Context()\<close> of a connection that was refused is nil: the type assertion panics.\<close>

definition OnTraffic ::
    "ListenerConfig \<Rightarrow> LoginServer KickManager \<Rightarrow> Env \<Rightarrow> conn \<Rightarrow> byte list option \<Rightarrow> LoginServer \<Rightarrow> (Action \<times> LoginServer) outcome" where
  "OnTraffic cfg km env k next s =
     (if objs s k = None then Panic
      else case next of
        None \<Rightarrow> Ok (ActClose, s)
      | Some buf \<Rightarrow> client_frames env (client_registry cfg km env) k buf s)"

section \<open>Closing, ticking, kicking\<close>

definition OnClose :: "conn \<Rightarrow> LoginServer \<Rightarrow> LoginServer" where
  "OnClose k s =
     (if k \<notin> clients s then s
      else let cl = client_of k s;
               s1 = s\<lparr>clients := clients s - {k}\<rparr>;
               account = AccountName cl;
               s2 = (if account \<noteq> [] then
                       (case Get account (registry s1) of
                          None \<Rightarrow> s1
                        | Some sess \<Rightarrow>
                            if SessionID sess = c_SessionID cl then
                              if ServerID sess = 0 then
                                s1\<lparr>registry := snd (Unregister account (c_SessionID cl) (registry s1)),
                                   serverList := RemoveAccount account (serverList s1)\<rparr>
                              else s1
                            else s1)
                     else s1);
               m = metrics s2
           in s2\<lparr>metrics := m\<lparr>ActiveConnections := ActiveConnections m - 1\<rparr>\<rparr>)"

text \<open>A range loop over the map of clients, in the order the runtime picks; entries go one by one.\<close>

fun tick_clients :: "int \<Rightarrow> Env \<Rightarrow> conn list \<Rightarrow> LoginServer \<Rightarrow> LoginServer" where
  "tick_clients timeout env [] s = s"
| "tick_clients timeout env (k # ks) s =
     tick_clients timeout env ks
       (if k \<in> clients s \<and> now env - LastActivityNanos (client_of k s) > timeout
        then let s1 = snd (CloseClient env k s); m = metrics s1
             in s1\<lparr>clients := clients s1 - {k}, metrics := m\<lparr>ActiveConnections := ActiveConnections m - 1\<rparr>\<rparr>
        else s)"

definition OnTick :: "ListenerConfig \<Rightarrow> Env \<Rightarrow> LoginServer \<Rightarrow> LoginServer" where
  "OnTick cfg env s = tick_clients (lc_timeout cfg) env (clientOrder env) s"

fun kick_first :: "Env \<Rightarrow> gostring \<Rightarrow> conn list \<Rightarrow> LoginServer \<Rightarrow> LoginServer" where
  "kick_first env username [] s = s"
| "kick_first env username (k # ks) s =
     (if k \<in> clients s \<and> AccountName (client_of k s) = username
      then let s1 = snd (CloseClient env k s) in s1\<lparr>clients := clients s1 - {k}\<rparr>
      else kick_first env username ks s)"

definition KickAccount_LS :: "Env \<Rightarrow> gostring \<Rightarrow> LoginServer \<Rightarrow> LoginServer outcome" where
  "KickAccount_LS env username s = Ok (kick_first env username (clientOrder env) s)"

end
