(* ===== verification/Gs_Listener.thy ===== *)
theory Gs_Listener
  imports Gs_Handlers Client_Listener
begin

text \<open>
  \<open>internal/listener/gs_listener.go\<close>: what the network engine calls for game servers, and the two
  callbacks by which the login side reaches them.
\<close>

definition gs_registry :: "Env \<Rightarrow> gs_handler option list" where
  "gs_registry env =
     (let r1 = RegisterGsHandler GameServerAuth (HandleInit env) NewGsRegistry;
          r2 = RegisterGsHandler PlayerInGame HandlePlayerInGame r1;
          r3 = RegisterGsHandler PlayerLogout HandlePlayerLogout r2;
          r4 = RegisterGsHandler PlayerAuthRequest (HandleValidate env) r3;
          r5 = RegisterGsHandler ReplyCharacters HandleReplyCharacters r4
      in RegisterGsHandler ServerStatusUpdate HandleStatus r5)"

definition GsOnOpen :: "Env \<Rightarrow> conn \<Rightarrow> gostring \<Rightarrow> LoginServer \<Rightarrow> Action \<times> LoginServer" where
  "GsOnOpen env k ip s =
     (let gsc = GsTouch (now env) \<lparr>g_RemoteIP = ip, g_lastActivity = 0, g_ServerID = 0\<rparr>
      in (ActNone, (set_gs k gsc s)\<lparr>gservers := insert k (gservers s)\<rparr>))"

definition gs_of :: "conn \<Rightarrow> LoginServer \<Rightarrow> GameServerClient" where
  "gs_of k s = the (gsobjs s k)"

text \<open>The framing loop; \<open>payload[0]\<close> panics for an empty payload, \<open>buf[2:size]\<close> below two.\<close>

function gs_frames ::
    "Env \<Rightarrow> gs_handler option list \<Rightarrow> conn \<Rightarrow> byte list \<Rightarrow> LoginServer \<Rightarrow> (Action \<times> LoginServer) outcome" where
  "gs_frames env reg k buf s =
     (if length buf < 2 then Ok (ActNone, s)
      else let sz = frame_size buf in
        if sz < MinPacketSize \<or> sz > MaxPacketSize then Ok (ActClose, s)
        else if length buf < sz then Ok (ActNone, s)
        else if sz < 2 then Panic
        else let payload = take (sz - 2) (drop 2 buf)
             in if payload = [] then Panic
                else let opcode = payload ! 0 in
                  case GetPacketReader (drop 1 payload) of
                    Panic \<Rightarrow> Panic
                  | Error _ \<Rightarrow> Ok (ActClose, s)
                  | Ok reader \<Rightarrow>
                      (case GsHandle reg k (gs_of k s) opcode reader s of
                         Panic \<Rightarrow> Panic
                       | Error e \<Rightarrow> Error e
                       | Ok (Some e, s1) \<Rightarrow> Ok (ActClose, s1)
                       | Ok (None, s1) \<Rightarrow>
                           gs_frames env reg k (drop sz buf) (set_gs k (GsTouch (now env) (gs_of k s1)) s1)))"
  by pat_completeness auto
termination
  by (relation "measure (\<lambda>(env, reg, k, buf, s). length buf)") auto

declare gs_frames.simps [simp del]

definition GsOnTraffic :: "Env \<Rightarrow> conn \<Rightarrow> byte list option \<Rightarrow> LoginServer \<Rightarrow> (Action \<times> LoginServer) outcome" where
  "GsOnTraffic env k next s =
     (if gsobjs s k = None then Panic
      else case next of
        None \<Rightarrow> Ok (ActClose, s)
      | Some buf \<Rightarrow> gs_frames env (gs_registry env) k buf s)"

definition GsOnClose :: "conn \<Rightarrow> LoginServer \<Rightarrow> LoginServer" where
  "GsOnClose k s =
     (if k \<notin> gservers s then s
      else let gsc = gs_of k s;
               s1 = s\<lparr>gservers := gservers s - {k}\<rparr>
           in if g_ServerID gsc \<noteq> 0
              then s1\<lparr>serverList := UnregisterServer (g_ServerID gsc) (serverList s1),
                      registry := ClearServer (g_ServerID gsc) (registry s1)\<rparr>
              else s1)"

fun gs_tick :: "int \<Rightarrow> Env \<Rightarrow> conn list \<Rightarrow> LoginServer \<Rightarrow> LoginServer" where
  "gs_tick timeout env [] s = s"
| "gs_tick timeout env (k # ks) s =
     gs_tick timeout env ks
       (if k \<in> gservers s \<and> now env - GsLastActivityNanos (gs_of k s) > timeout
        then let s1 = snd (GsClose env k s) in s1\<lparr>gservers := gservers s1 - {k}\<rparr>
        else s)"

definition GsOnTick :: "int \<Rightarrow> Env \<Rightarrow> LoginServer \<Rightarrow> LoginServer" where
  "GsOnTick timeout env s = gs_tick timeout env (serverOrder env) s"

text \<open>The kick request goes to the first connection of that server; a failed send is ignored.\<close>

fun kick_player :: "Env \<Rightarrow> gostring \<Rightarrow> int32 \<Rightarrow> conn list \<Rightarrow> LoginServer \<Rightarrow> LoginServer outcome" where
  "kick_player env username serverID [] s = Ok s"
| "kick_player env username serverID (k # ks) s =
     (if k \<in> gservers s \<and> g_ServerID (gs_of k s) = serverID
      then bind_outcome (GsSend env k KickPlayer (WriteString username) (gs_of k s) s) (\<lambda>(_, s1). Ok s1)
      else kick_player env username serverID ks s)"

definition KickAccount_GS :: "Env \<Rightarrow> gostring \<Rightarrow> int32 \<Rightarrow> LoginServer \<Rightarrow> LoginServer outcome" where
  "KickAccount_GS env username serverID s = kick_player env username serverID (serverOrder env) s"

fun request_characters :: "Env \<Rightarrow> gostring \<Rightarrow> int64 \<Rightarrow> conn list \<Rightarrow> LoginServer \<Rightarrow> LoginServer outcome" where
  "request_characters env username accountID [] s = Ok s"
| "request_characters env username accountID (k # ks) s =
     (if k \<in> gservers s
      then bind_outcome (GsSend env k RequestCharactersOp (\<lambda>w. WriteInt64 accountID (WriteString username w)) (gs_of k s) s)
             (\<lambda>(_, s1). request_characters env username accountID ks s1)
      else request_characters env username accountID ks s)"

definition RequestCharacters_GS :: "Env \<Rightarrow> gostring \<Rightarrow> int64 \<Rightarrow> LoginServer \<Rightarrow> LoginServer outcome" where
  "RequestCharacters_GS env username accountID s = request_characters env username accountID (serverOrder env) s"

text \<open>\<open>cmd/main.go\<close> wires the callbacks of the two listeners into the kick manager.\<close>

definition main_kicker :: "Env \<Rightarrow> LoginServer KickManager" where
  "main_kicker env = NewKickManager\<lparr>OnKickLS := Some (KickAccount_LS env), OnKickGS := Some (KickAccount_GS env),
     OnRequestChars := Some (RequestCharacters_GS env)\<rparr>"

end
