(* ===== verification/Login_Server.thy ===== *)
theory Login_Server
  imports Gs_Listener Config
begin

text \<open>
  The server as a whole: its initial state, the events it reacts to (engine callbacks, steps of login
  goroutines, timers, queued database writes), runs of events, and an invariant of all reachable
  states. The history \<open>H\<close> records who authenticated: it grows exactly when a login goroutine's call
  of \<open>Authenticate\<close> succeeds, and the code never reads it.
\<close>

record Setup =
  su_listener :: ListenerConfig
  su_workers :: nat
  su_gsTimeout :: int
  su_lower :: "gostring \<Rightarrow> gostring"

datatype event =
    EvOpen conn gostring "byte list option"
  | EvTraffic conn "byte list option"
  | EvClose conn
  | EvTick
  | EvGsOpen conn gostring
  | EvGsTraffic conn "byte list option"
  | EvGsClose conn
  | EvGsTick
  | EvLogin nat
  | EvBanCmd nat bool
  | EvLimiterCleanup
  | EvSessionGC

definition run_banCmd :: "nat \<Rightarrow> bool \<Rightarrow> LoginServer \<Rightarrow> LoginServer" where
  "run_banCmd i fault s =
     (if i < length (banCmds s)
      then s\<lparr>db := run_ban_cmd fault (banCmds s ! i) (db s), banCmds := take i (banCmds s) @ drop (i + 1) (banCmds s)\<rparr>
      else s)"

fun handle_event :: "Setup \<Rightarrow> Env \<Rightarrow> event \<Rightarrow> LoginServer \<Rightarrow> LoginServer outcome" where
  "handle_event su env (EvOpen k ip rnd) s = bind_outcome (OnOpen env k ip rnd s) (\<lambda>(_, s'). Ok s')"
| "handle_event su env (EvTraffic k buf) s =
     bind_outcome (OnTraffic (su_listener su) (main_kicker env) env k buf s) (\<lambda>(_, s'). Ok s')"
| "handle_event su env (EvClose k) s = Ok (OnClose k s)"
| "handle_event su env EvTick s = Ok (OnTick (su_listener su) env s)"
| "handle_event su env (EvGsOpen k ip) s = Ok (snd (GsOnOpen env k ip s))"
| "handle_event su env (EvGsTraffic k buf) s = bind_outcome (GsOnTraffic env k buf s) (\<lambda>(_, s'). Ok s')"
| "handle_event su env (EvGsClose k) s = Ok (GsOnClose k s)"
| "handle_event su env EvGsTick s = Ok (GsOnTick (su_gsTimeout su) env s)"
| "handle_event su env (EvLogin i) s =
     login_step (su_workers su) env (lc_auth (su_listener su)) (main_kicker env) i s"
| "handle_event su env (EvBanCmd i fault) s = Ok (run_banCmd i fault s)"
| "handle_event su env EvLimiterCleanup s = Ok (s\<lparr>limiter := cleanup (now env) (limiter s)\<rparr>)"
| "handle_event su env EvSessionGC s = Ok (s\<lparr>handoffs := gc_tick (now env) (handoffs s)\<rparr>)"

text \<open>A new connection is a new object; the database does not change its collation while it runs.\<close>

definition enabled :: "Setup \<Rightarrow> Env \<Rightarrow> event \<Rightarrow> LoginServer \<Rightarrow> bool" where
  "enabled su env ev s \<longleftrightarrow> pglower (authEnv env) = su_lower su \<and>
     (case ev of EvOpen k ip rnd \<Rightarrow> objs s k = None | EvGsOpen k ip \<Rightarrow> gsobjs s k = None | _ \<Rightarrow> True)"

type_synonym history = "(conn \<times> gostring \<times> FindAccountRow) set"

text \<open>What an event adds to the history.\<close>

definition accepted :: "Setup \<Rightarrow> Env \<Rightarrow> event \<Rightarrow> LoginServer \<Rightarrow> history" where
  "accepted su env ev s = (case ev of
     EvLogin i \<Rightarrow>
       if i < length (pendingLogins s) then
         (case pendingLogins s ! i of
            (k, LAuthenticate u p) \<Rightarrow>
              (case fst (Authenticate (authEnv env) (lc_auth (su_listener su)) u p (c_RemoteIP (client_of k s)) (db s)) of
                 Ok row \<Rightarrow> {(k, u, row)}
               | _ \<Rightarrow> {})
          | _ \<Rightarrow> {})
       else {}
   | _ \<Rightarrow> {})"

text \<open>The state \<open>main\<close> sets up.\<close>

definition boot :: "Config \<Rightarrow> L2authIpBanned list outcome \<Rightarrow> ScrambledKey list \<Rightarrow> byte list list \<Rightarrow> database \<Rightarrow> LoginServer" where
  "boot cfg loaded pool keys d =
     \<lparr>objs = Map.empty, clients = {}, gsobjs = Map.empty, gservers = {}, serverList = NewServerList,
      registry = NewSessionRegistry,
      bans = NewBanManager loaded (AttemptsLoginCount (cfg_Account cfg)) (seconds 300),
      limiter = NewRateLimiter (cfg_LoginRateLimit cfg) (seconds 30),
      handoffs = init_sessions, db = d, banCmds = [], pendingLogins = [], globalSessionID = 0,
      rsaPool = pool, rsaIdx = 0, loginCryptKeys = keys,
      metrics = \<lparr>ActiveConnections = 0, ConnectionTotal = 0, LoginSuccess = 0, LoginFailInvalidPwd = 0,
        LoginFailNotFound = 0, LoginFailBanned = 0, LoginFailSystem = 0\<rparr>,
      wire = []\<rparr>"

definition main_setup :: "Config \<Rightarrow> nat \<Rightarrow> (gostring \<Rightarrow> gostring) \<Rightarrow> Setup" where
  "main_setup cfg numCPU lower =
     \<lparr>su_listener = \<lparr>lc_auth = NewAuthenticator (AutoCreateAcc (cfg_Account cfg)), lc_timeout = seconds 30,
        lc_handoffTTL = seconds 30\<rparr>,
      su_workers = login_workers numCPU, su_gsTimeout = seconds 30, su_lower = lower\<rparr>"

text \<open>
  Start-up: the configuration, the bans the database holds, 32 RSA keys and the Blowfish keys. The
  pools are filled before the engines start, and a failure there is a panic.
\<close>

definition main_start ::
    "environ \<Rightarrow> bool \<Rightarrow> gotime \<Rightarrow> (nat \<Rightarrow> PrivateKey option) \<Rightarrow> byte list option \<Rightarrow> database \<Rightarrow> LoginServer outcome" where
  "main_start getenv fault t gen entropy d =
     (let cfg = NewConfig getenv; loaded = GetActiveIPBans fault t d
      in bind_outcome (InitRSAPool 32 gen) (\<lambda>pool.
           bind_outcome (GenerateLoginBlowFishKeys entropy) (\<lambda>keys. Ok (boot cfg loaded pool keys d))))"

inductive reach :: "Setup \<Rightarrow> LoginServer \<Rightarrow> history \<Rightarrow> LoginServer \<Rightarrow> bool"
  for su :: Setup and s0 :: LoginServer where
  start: "reach su s0 {} s0"
| step: "reach su s0 H s \<Longrightarrow> enabled su env ev s \<Longrightarrow> handle_event su env ev s = Ok s' \<Longrightarrow>
    reach su s0 (H \<union> accepted su env ev s) s'"

inductive_cases reach_stepE: "reach su s0 H s"

end
