(* ===== verification/Server_Invariant.thy ===== *)
theory Server_Invariant
  imports Login_Server
begin

text \<open>
  The invariant of the running server and its preservation by every event. It says which connection
  objects exist, that a client in a logged-in state and every stored handoff session go back to an
  accepted login of the history, and that every service is well-formed. A step is verified with
  \<open>post\<close>: what holds of the state it returns, if it returns one. \<open>keeps\<close> is the postcondition all
  operations share; the lemmas follow the calls from the sends up to \<open>handle_event\<close>.
\<close>

section \<open>The invariant\<close>

definition authed :: "State \<Rightarrow> bool" where
  "authed st \<longleftrightarrow> st = StateAuthedLogin \<or> st = StateServerList"

definition auth_ok :: "history \<Rightarrow> conn \<Rightarrow> Client \<Rightarrow> bool" where
  "auth_ok H k c \<longleftrightarrow> (authed (c_State c) \<longrightarrow> (\<exists>row. (k, c_Account c, row) \<in> H \<and> c_AccountID c = row_ID row))"

fun pc_ok :: "history \<Rightarrow> conn \<Rightarrow> login_pc \<Rightarrow> bool" where
  "pc_ok H k (LRegister u row) = ((k, u, row) \<in> H)"
| "pc_ok H k (LKick u row) = ((k, u, row) \<in> H)"
| "pc_ok H k (LFinish u row) = ((k, u, row) \<in> H)"
| "pc_ok H k _ = True"

definition handoff_ok :: "history \<Rightarrow> (conn \<rightharpoonup> Client) \<Rightarrow> int32 \<Rightarrow> Session \<Rightarrow> bool" where
  "handoff_ok H ob i sess \<longleftrightarrow> (\<exists>k row c. (k, SAccount sess, row) \<in> H \<and> SAccountID sess = row_ID row
     \<and> ob k = Some c \<and> c_SessionKey c = SKey sess \<and> i = LoginOkID1 (SKey sess))"

definition conns_ok :: "history \<Rightarrow> LoginServer \<Rightarrow> bool" where
  "conns_ok H s \<longleftrightarrow>
     clients s \<subseteq> dom (objs s) \<and> gservers s \<subseteq> dom (gsobjs s)
     \<and> (\<forall>k c. objs s k = Some c \<longrightarrow> auth_ok H k c)
     \<and> (\<forall>(k, pc) \<in> set (pendingLogins s). pc_ok H k pc \<and> k \<in> dom (objs s))
     \<and> (\<forall>i sess. sessions (handoffs s) i = Some sess \<longrightarrow> handoff_ok H (objs s) i sess)"

definition services_ok :: "(gostring \<Rightarrow> gostring) \<Rightarrow> LoginServer \<Rightarrow> bool" where
  "services_ok lower s \<longleftrightarrow>
     wf_sessions (handoffs s) \<and> wf_registry (registry s) \<and> wf_servers (serverList s)
     \<and> wf_bans (bans s) \<and> wf_limiter (limiter s) \<and> wf_db lower (db s)"

definition server_inv :: "Setup \<Rightarrow> history \<Rightarrow> LoginServer \<Rightarrow> bool" where
  "server_inv su H s \<longleftrightarrow> conns_ok H s \<and> services_ok (su_lower su) s"

text \<open>What a step must establish: the invariant, and that connection objects and session keys stay.\<close>

definition keys_of :: "LoginServer \<Rightarrow> conn \<rightharpoonup> SessionKey" where
  "keys_of s = (\<lambda>k. map_option c_SessionKey (objs s k))"

definition same_key :: "LoginServer \<Rightarrow> conn \<Rightarrow> Client \<Rightarrow> bool" where
  "same_key s k c \<longleftrightarrow> (\<forall>c0. objs s k = Some c0 \<longrightarrow> c_SessionKey c = c_SessionKey c0)"

definition keeps :: "Setup \<Rightarrow> history \<Rightarrow> LoginServer \<Rightarrow> LoginServer \<Rightarrow> bool" where
  "keeps su H s s' \<longleftrightarrow> server_inv su H s' \<and> keys_of s \<subseteq>\<^sub>m keys_of s' \<and> dom (gsobjs s) \<subseteq> dom (gsobjs s')"

lemmas inv_defs = server_inv_def conns_ok_def services_ok_def

lemma keeps_refl: "server_inv su H s \<Longrightarrow> keeps su H s s"
  by (simp add: keeps_def)

lemma keeps_inv: "keeps su H s s' \<Longrightarrow> server_inv su H s'"
  by (simp add: keeps_def)

lemma keeps_trans: "keeps su H s s' \<Longrightarrow> keeps su H s' s'' \<Longrightarrow> keeps su H s s''"
  unfolding keeps_def by (meson subset_trans map_le_trans)

lemma inv_emit [simp]: "server_inv su H (emit e s) = server_inv su H s"
  by (simp add: inv_defs emit_def)

lemma keys_of_cong: "objs s' = objs s \<Longrightarrow> keys_of s' = keys_of s"
  by (simp add: keys_of_def)

lemma keys_of_fields [simp]:
  "keys_of (s\<lparr>clients := x0\<rparr>) = keys_of s"
  "keys_of (s\<lparr>gsobjs := x1\<rparr>) = keys_of s"
  "keys_of (s\<lparr>gservers := x2\<rparr>) = keys_of s"
  "keys_of (s\<lparr>serverList := x3\<rparr>) = keys_of s"
  "keys_of (s\<lparr>registry := x4\<rparr>) = keys_of s"
  "keys_of (s\<lparr>bans := x5\<rparr>) = keys_of s"
  "keys_of (s\<lparr>limiter := x6\<rparr>) = keys_of s"
  "keys_of (s\<lparr>handoffs := x7\<rparr>) = keys_of s"
  "keys_of (s\<lparr>db := x8\<rparr>) = keys_of s"
  "keys_of (s\<lparr>banCmds := x9\<rparr>) = keys_of s"
  "keys_of (s\<lparr>pendingLogins := x10\<rparr>) = keys_of s"
  "keys_of (s\<lparr>globalSessionID := x11\<rparr>) = keys_of s"
  "keys_of (s\<lparr>rsaIdx := x12\<rparr>) = keys_of s"
  "keys_of (s\<lparr>metrics := x13\<rparr>) = keys_of s"
  "keys_of (s\<lparr>wire := x14\<rparr>) = keys_of s"
  by (simp_all add: keys_of_def)

lemma keeps_same_key: "keeps su H s s' \<Longrightarrow> objs s k \<noteq> None \<Longrightarrow> same_key s k c \<Longrightarrow> same_key s' k c"
  by (auto simp: keeps_def keys_of_def map_le_def same_key_def dom_def)

lemma keeps_dom: "keeps su H s s' \<Longrightarrow> objs s k = Some c \<Longrightarrow>
   \<exists>c'. objs s' k = Some c' \<and> c_SessionKey c' = c_SessionKey c"
  unfolding keeps_def keys_of_def map_le_def dom_def by (cases "objs s' k") fastforce+

lemma keeps_gs_dom: "keeps su H s s' \<Longrightarrow> gsobjs s k = Some g \<Longrightarrow> \<exists>g'. gsobjs s' k = Some g'"
  by (auto simp: keeps_def)

lemma objs_emit [simp]: "objs (emit e s) = objs s" "gsobjs (emit e s) = gsobjs s"
  by (simp_all add: emit_def)

lemma objs_set_client [simp]: "objs (set_client k c s) = (objs s)(k \<mapsto> c)" "gsobjs (set_client k c s) = gsobjs s"
  by (simp_all add: set_client_def)

lemma handoff_ok_update:
  "handoff_ok H ob i sess \<Longrightarrow> (\<And>c0. ob k = Some c0 \<Longrightarrow> c_SessionKey c = c_SessionKey c0) \<Longrightarrow>
   handoff_ok H (ob(k \<mapsto> c)) i sess"
  unfolding handoff_ok_def by (metis fun_upd_apply option.inject)

lemma inv_set_client:
  assumes "server_inv su H s" "auth_ok H k c" "same_key s k c"
  shows "server_inv su H (set_client k c s)"
proof -
  have "sessions (handoffs s) i = Some sess \<Longrightarrow> handoff_ok H ((objs s)(k \<mapsto> c)) i sess" for i sess
    using assms(1,3) by (intro handoff_ok_update) (auto simp: inv_defs same_key_def)
  then show ?thesis
    using assms(1,2) by (auto simp: inv_defs set_client_def)
qed

lemma inv_set_gs [simp]: "server_inv su H s \<Longrightarrow> server_inv su H (set_gs k g s)"
  by (auto simp: inv_defs set_gs_def)

lemma keys_of_simps [simp]:
  "keys_of (emit e s) = keys_of s" "keys_of (set_gs k g s) = keys_of s"
  by (simp_all add: keys_of_def set_gs_def)

lemma keys_of_set_client: "same_key s k c \<Longrightarrow> keys_of s \<subseteq>\<^sub>m keys_of (set_client k c s)"
  by (auto simp: keys_of_def same_key_def map_le_def)

lemma objs_set_gs [simp]: "objs (set_gs k g s) = objs s" "gsobjs (set_gs k g s) = (gsobjs s)(k \<mapsto> g)"
  by (simp_all add: set_gs_def)

lemma inv_fields [simp]:
  "server_inv su H (s\<lparr>metrics := m\<rparr>) = server_inv su H s"
  "server_inv su H (s\<lparr>banCmds := bc\<rparr>) = server_inv su H s"
  "server_inv su H (s\<lparr>globalSessionID := g\<rparr>) = server_inv su H s"
  "server_inv su H (s\<lparr>rsaIdx := x\<rparr>) = server_inv su H s"
  by (simp_all add: inv_defs)

lemma inv_services:
  "server_inv su H s \<Longrightarrow> wf_registry R \<Longrightarrow> server_inv su H (s\<lparr>registry := R\<rparr>)"
  "server_inv su H s \<Longrightarrow> wf_servers L \<Longrightarrow> server_inv su H (s\<lparr>serverList := L\<rparr>)"
  "server_inv su H s \<Longrightarrow> wf_bans B \<Longrightarrow> server_inv su H (s\<lparr>bans := B\<rparr>)"
  "server_inv su H s \<Longrightarrow> wf_limiter M \<Longrightarrow> server_inv su H (s\<lparr>limiter := M\<rparr>)"
  "server_inv su H s \<Longrightarrow> wf_db (su_lower su) D \<Longrightarrow> server_inv su H (s\<lparr>db := D\<rparr>)"
  by (simp_all add: inv_defs)

lemma inv_wf:
  assumes "server_inv su H s"
  shows "wf_sessions (handoffs s)" "wf_registry (registry s)" "wf_servers (serverList s)"
    "wf_bans (bans s)" "wf_limiter (limiter s)" "wf_db (su_lower su) (db s)"
  using assms by (simp_all add: inv_defs)

section \<open>Sends and handlers keep the invariant\<close>

lemma auth_ok_crypt [simp]:
  "auth_ok H k (c\<lparr>c_Crypt := x\<rparr>) = auth_ok H k c" "same_key s k (c\<lparr>c_Crypt := x\<rparr>) = same_key s k c"
  by (simp_all add: auth_ok_def same_key_def)

lemma build_packet_client:
  "post (build_packet env opcode build c) (\<lambda>(out, c'). \<exists>x. c' = c\<lparr>c_Crypt := x\<rparr>)"
  by (auto simp: build_packet_def Let_def split: prod.split intro: post_mono [OF post_True])

lemma keeps_set_client:
  "server_inv su H s \<Longrightarrow> auth_ok H k c \<Longrightarrow> same_key s k c \<Longrightarrow> keeps su H s (set_client k c s)"
  by (auto simp: keeps_def inv_set_client keys_of_set_client)

lemma keeps_emit: "keeps su H s s' \<Longrightarrow> keeps su H s (emit e s')"
  by (simp add: keeps_def)

lemma SendAsync_keeps:
  assumes "server_inv su H s" "auth_ok H k c" "same_key s k c"
  shows "post (SendAsync env k opcode build c s) (\<lambda>(e, s'). keeps su H s s')"
    "post (SendAndCloseAsync env k opcode build c s) (\<lambda>(e, s'). keeps su H s s')"
proof -
  have k: "keeps su H s (set_client k (c\<lparr>c_Crypt := x\<rparr>) s)" for x
    using assms by (intro keeps_set_client) simp_all
  show "post (SendAsync env k opcode build c s) (\<lambda>(e, s'). keeps su H s s')"
    "post (SendAndCloseAsync env k opcode build c s) (\<lambda>(e, s'). keeps su H s s')"
    unfolding SendAsync_def SendAndCloseAsync_def post_simps
    by (rule post_mono [OF build_packet_client]; use k keeps_emit in \<open>auto simp: Let_def\<close>)+
qed

lemma sendLoginFail_keeps:
  "server_inv su H s \<Longrightarrow> auth_ok H k c \<Longrightarrow> same_key s k c \<Longrightarrow>
   post (sendLoginFail env k reason c s) (\<lambda>(e, s'). keeps su H s s')"
  unfolding sendLoginFail_def by (rule SendAsync_keeps(2))

lemma ignore_err_post: "post m (\<lambda>(e, s'). P s') \<Longrightarrow> post (ignore_err m) (\<lambda>(e, s'). P s')"
  unfolding ignore_err_def by (cases m) auto

lemma finally_send_post: "post m (\<lambda>(e, s'). P s') \<Longrightarrow> post (finally_send m) (\<lambda>(pc, s'). pc = LDone \<and> P s')"
  unfolding finally_send_def by (cases m) auto

lemma CloseClient_keeps: "server_inv su H s \<Longrightarrow> keeps su H s (snd (CloseClient env k s))"
  by (simp add: CloseClient_def keeps_def)

lemma GsSend_keeps:
  "server_inv su H s \<Longrightarrow> post (GsSend env k opcode build g s) (\<lambda>(e, s'). keeps su H s s')"
  unfolding GsSend_def Let_def post_simps
  by (rule post_mono [OF post_True]) (auto simp: keeps_def)

lemma reading_post:
  "P (Some OutOfBounds, s) \<Longrightarrow> P (Some MissingTerminator, s) \<Longrightarrow> (\<And>e. P (Some e, s)) \<Longrightarrow>
   (\<And>x. m = Ok x \<Longrightarrow> post (f x) P) \<Longrightarrow> post (reading m s f) P"
  unfolding reading_def by (cases m) auto

lemma reading_keeps:
  "server_inv su H s \<Longrightarrow> (\<And>x. post (f x) (\<lambda>(e, s'). keeps su H s s')) \<Longrightarrow>
   post (reading m s f) (\<lambda>(e, s'). keeps su H s s')"
  by (rule reading_post) (auto simp: keeps_refl)

definition handler_keeps :: "Setup \<Rightarrow> history \<Rightarrow> handler \<Rightarrow> bool" where
  "handler_keeps su H h \<longleftrightarrow> (\<forall>k c r s. objs s k = Some c \<longrightarrow> server_inv su H s \<longrightarrow>
     post (h k c r s) (\<lambda>(e, s'). keeps su H s s'))"

definition gs_handler_keeps :: "Setup \<Rightarrow> history \<Rightarrow> gs_handler \<Rightarrow> bool" where
  "gs_handler_keeps su H h \<longleftrightarrow> (\<forall>k g r s. gsobjs s k = Some g \<longrightarrow> server_inv su H s \<longrightarrow>
     post (h k g r s) (\<lambda>(e, s'). keeps su H s s'))"

lemma inv_auth_ok: "server_inv su H s \<Longrightarrow> objs s k = Some c \<Longrightarrow> auth_ok H k c \<and> same_key s k c"
  by (simp add: inv_defs same_key_def)

lemma AuthGG_keeps: "handler_keeps su H (AuthGG env)"
  unfolding handler_keeps_def
proof (intro allI impI)
  fix k c r s assume o: "objs s k = Some c" and i: "server_inv su H s"
  note a = inv_auth_ok [OF i o]
  let ?c = "c\<lparr>c_State := StateAuthedGG\<rparr>"
  have c: "auth_ok H k ?c" "same_key s k ?c" using a by (simp_all add: auth_ok_def authed_def same_key_def)
  then have k1: "keeps su H s (set_client k ?c s)" using i by (intro keeps_set_client)
  have s: "post (SendAsync env k ServerAuthGG b ?c (set_client k ?c s)) (\<lambda>(e, s'). keeps su H s s')" for b
    by (rule post_mono [OF SendAsync_keeps(1) [OF keeps_inv [OF k1] c(1)]])
      (use k1 in \<open>auto simp: same_key_def intro: keeps_trans\<close>)
  show "post (AuthGG env k c r s) (\<lambda>(e, s'). keeps su H s s')"
    unfolding AuthGG_def
    by (rule reading_keeps [OF i])
      (use s a i in \<open>auto simp: Let_def intro!: ignore_err_post intro: SendAsync_keeps(2)\<close>)
qed

lemma HandleLogin_keeps: "handler_keeps su H (HandleLogin env)"
  unfolding handler_keeps_def
proof (intro allI impI)
  fix k c r s assume o: "objs s k = Some c" and i: "server_inv su H s"
  have q: "keeps su H s (s\<lparr>pendingLogins := pendingLogins s @ [(k, LQueued b1 b2)]\<rparr>)" for b1 b2
    using i o by (auto simp: keeps_def inv_defs)
  note f = sendLoginFail_keeps [OF i, of k c] inv_auth_ok [OF i o]
  show "post (HandleLogin env k c r s) (\<lambda>(e, s'). keeps su H s s')"
    unfolding HandleLogin_def using q f by (auto split: outcome.split)
qed

lemma kick_player_keeps:
  "server_inv su H s \<Longrightarrow> post (kick_player env u sid ks s) (keeps su H s)"
  by (induction env u sid ks s rule: kick_player.induct)
    (auto simp: keeps_refl intro: post_mono [OF GsSend_keeps])

lemma request_characters_keeps:
  "server_inv su H s \<Longrightarrow> post (request_characters env u aid ks s) (keeps su H s)"
proof (induction ks arbitrary: s)
  case Nil
  then show ?case by (simp add: keeps_refl)
next
  case (Cons k ks)
  have "post (request_characters env u aid ks s1) (keeps su H s)" if "keeps su H s s1" for s1
    using Cons.IH [OF keeps_inv [OF that]] that by (auto intro: post_mono keeps_trans)
  then show ?case
    using Cons by (auto intro!: post_mono [OF GsSend_keeps])
qed

lemma kick_first_keeps: "server_inv su H s \<Longrightarrow> keeps su H s (kick_first env u ks s)"
  by (induction env u ks s rule: kick_first.induct)
    (auto simp: keeps_def CloseClient_def inv_defs emit_def)

lemma main_kicker_keeps:
  assumes "server_inv su H s"
  shows "post (KickAccount (main_kicker env) u s) (keeps su H s)"
    "post (KickFromGame (main_kicker env) u sid s) (keeps su H s)"
    "post (RequestCharacters (main_kicker env) u aid s) (keeps su H s)"
  using assms
  by (simp_all add: main_kicker_def NewKickManager_def KickAccount_def KickFromGame_def RequestCharacters_def
      KickAccount_LS_def KickAccount_GS_def RequestCharacters_GS_def kick_first_keeps kick_player_keeps
      request_characters_keeps)

lemma HandleServerList_keeps: "handler_keeps su H (HandleServerList env (main_kicker env))"
  unfolding handler_keeps_def
proof (intro allI impI)
  fix k c r s assume o: "objs s k = Some c" and i: "server_inv su H s"
  note a = inv_auth_ok [OF i o]
  show "post (HandleServerList env (main_kicker env) k c r s) (\<lambda>(e, s'). keeps su H s s')"
  proof (cases "c_State c = StateAuthedLogin")
    case False
    then show ?thesis using i by (simp add: HandleServerList_def keeps_refl)
  next
    case True
    let ?c = "c\<lparr>c_State := StateServerList\<rparr>"
    have c: "auth_ok H k ?c" "same_key s k ?c"
      using a True by (simp_all add: auth_ok_def authed_def same_key_def)
    then have k1: "keeps su H s (set_client k ?c s)" using i by (intro keeps_set_client)
    have send: "post (SendAsync env k ServerServerList b ?c s2) (\<lambda>(e, s'). keeps su H s s')"
      if "keeps su H (set_client k ?c s) s2" for b s2
    proof -
      have k2: "keeps su H s s2" using k1 that by (rule keeps_trans)
      have "same_key s2 k ?c" by (rule keeps_same_key [OF k2 _ c(2)]) (simp add: o)
      then show ?thesis
        by (rule post_mono [OF SendAsync_keeps(1) [OF keeps_inv [OF k2] c(1)]]) (auto intro: keeps_trans [OF k2])
    qed
    note req = main_kicker_keeps(3) [OF keeps_inv [OF k1]] and refl1 = keeps_refl [OF keeps_inv [OF k1]]
    show ?thesis
      unfolding HandleServerList_def using True i
      by (auto simp: Let_def CloseClient_keeps split: prod.split
          intro!: reading_keeps ignore_err_post post_mono [OF req] send refl1)
  qed
qed

lemma inv_put_handoff:
  assumes "server_inv su H s" "handoff_ok H (objs s) i sess"
  shows "server_inv su H (s\<lparr>handoffs := Put i sess (handoffs s)\<rparr>)"
  using assms by (auto simp: inv_defs sessions_ops wf_session_ops)

lemma wf_UpdateLastServer: "wf_db (pglower env) d \<Longrightarrow> wf_db (pglower env) (UpdateLastServer env u sid d)"
  by (simp add: UpdateLastServer_def inv_intros)

lemma grant_handoff_keeps:
  assumes "pglower (authEnv env) = su_lower su" "objs s k = Some c" "server_inv su H s" "c_State c = StateServerList"
  shows "post (grant_handoff ttl env k c sid s) (\<lambda>(e, s'). keeps su H s s')"
proof -
  note a = inv_auth_ok [OF assms(3,2)]
  then obtain row where row: "(k, c_Account c, row) \<in> H" "c_AccountID c = row_ID row"
    using assms(4) by (auto simp: auth_ok_def authed_def)
  define c1 where "c1 = (if c_LastServer c \<noteq> sid then c\<lparr>c_LastServer := sid\<rparr> else c)"
  define d where "d = (if c_LastServer c \<noteq> sid then UpdateLastServer (authEnv env) (c_Account c) sid (db s) else db s)"
  define sess where "sess = \<lparr>ExpiresAt = now env + ttl, SKey = c_SessionKey c1, SAccount = c_Account c1,
    SAccountID = c_AccountID c1, SServerID = sid\<rparr>"
  define s1 where "s1 = (set_client k c1 s)\<lparr>db := d, handoffs := Put (LoginOkID1 (c_SessionKey c1)) sess (handoffs s)\<rparr>"
  have d: "wf_db (su_lower su) d"
    using inv_wf(6) [OF assms(3)] wf_UpdateLastServer [of "authEnv env"] assms(1) by (simp add: d_def)
  have c: "auth_ok H k c1" "same_key s k c1" using a by (simp_all add: c1_def auth_ok_def same_key_def)
  have k1: "keeps su H s (set_client k c1 s)" using c assms(3) by (intro keeps_set_client)
  have "handoff_ok H (objs (set_client k c1 s)) (LoginOkID1 (c_SessionKey c1)) sess"
    using row unfolding handoff_ok_def sess_def c1_def
    by (intro exI [of _ k] exI [of _ row] exI [of _ c1]) (auto simp: c1_def)
  from inv_put_handoff [OF inv_services(5) [OF keeps_inv [OF k1] d], of "LoginOkID1 (c_SessionKey c1)" sess] this
  have k2: "keeps su H s s1"
    using k1 by (simp add: keeps_def s1_def set_client_def)
  have "same_key s1 k c1" by (simp add: same_key_def s1_def)
  note send = SendAsync_keeps(1) [OF keeps_inv [OF k2] c(1) this]
  show ?thesis
    unfolding grant_handoff_def Let_def c1_def [symmetric] d_def [symmetric] sess_def [symmetric] s1_def [symmetric]
    by (rule post_mono [OF send]) (auto intro: keeps_trans [OF k2])
qed

lemma post_CloseClient: "server_inv su H s \<Longrightarrow> post (Ok (CloseClient env k s)) (\<lambda>(e, s'). keeps su H s s')"
  using CloseClient_keeps [of su H s env k] by (cases "CloseClient env k s") simp

lemma GameServerLogin_keeps:
  assumes "pglower (authEnv env) = su_lower su"
  shows "handler_keeps su H (GameServerLogin ttl env)"
  unfolding handler_keeps_def
proof (intro allI impI)
  fix k c r s assume o: "objs s k = Some c" and i: "server_inv su H s"
  show "post (GameServerLogin ttl env k c r s) (\<lambda>(e, s'). keeps su H s s')"
    unfolding GameServerLogin_def
    using grant_handoff_keeps [OF assms o i] post_CloseClient [OF i, of env k] keeps_refl [OF i]
    by (auto simp del: post_simps simp: post_simps(1) [of "(None, s)"] intro!: reading_keeps [OF i] split: prod.split)
qed

lemma Handle_keeps:
  assumes "pglower (authEnv env) = su_lower su" "objs s k = Some c" "server_inv su H s"
  shows "post (Handle (client_registry cfg (main_kicker env) env) k c opcode r s) (\<lambda>(e, s'). keeps su H s s')"
proof -
  have "client_registry cfg (main_kicker env) env ! unat opcode \<in>
      {None, Some (AuthGG env), Some (HandleLogin env), Some (HandleServerList env (main_kicker env)),
       Some (GameServerLogin (lc_handoffTTL cfg) env)}"
    using unat_byte_lt [of opcode]
    by (auto simp: client_registry_def RegisterHandler_def NewRegistry_def nth_list_update Let_def)
  then show ?thesis
    using assms AuthGG_keeps HandleLogin_keeps HandleServerList_keeps GameServerLogin_keeps [OF assms(1)]
    unfolding Handle_def handler_keeps_def by (auto simp: keeps_refl)
qed

section \<open>Events keep the invariant\<close>

lemma keeps_touch:
  assumes "keeps su H s s1" "objs s k \<noteq> None"
  shows "keeps su H s (set_client k (Touch t (client_of k s1)) s1)"
proof -
  obtain c1 where c1: "objs s1 k = Some c1" using keeps_dom [OF assms(1)] assms(2) by blast
  have "auth_ok H k (Touch t c1)" "same_key s1 k (Touch t c1)"
    using inv_auth_ok [OF keeps_inv [OF assms(1)] c1] by (simp_all add: auth_ok_def same_key_def Touch_def)
  then show ?thesis
    using keeps_trans [OF assms(1) keeps_set_client [OF keeps_inv [OF assms(1)]]] c1 by (simp add: client_of_def)
qed

lemma client_frames_keeps:
  assumes "pglower (authEnv env) = su_lower su"
  shows "server_inv su H s \<Longrightarrow> objs s k \<noteq> None \<Longrightarrow>
    post (client_frames env (client_registry cfg (main_kicker env) env) k buf s) (\<lambda>(a, s'). keeps su H s s')"
proof (induction "length buf" arbitrary: buf s rule: less_induct)
  case less
  let ?reg = "client_registry cfg (main_kicker env) env"
  obtain c where c: "objs s k = Some c" using less.prems(2) by auto
  note h = Handle_keeps [OF assms c less.prems(1), of cfg]
  have again: "post (client_frames env ?reg k (drop (frame_size buf) buf) (set_client k (Touch (now env) (client_of k s1)) s1))
      (\<lambda>(a, s'). keeps su H s s')"
    if "keeps su H s s1" "2 \<le> length buf" "2 \<le> frame_size buf" for s1
  proof -
    let ?s = "set_client k (Touch (now env) (client_of k s1)) s1"
    have t: "keeps su H s ?s" using that(1) less.prems(2) by (rule keeps_touch)
    have "post (client_frames env ?reg k (drop (frame_size buf) buf) ?s) (\<lambda>(a, s'). keeps su H ?s s')"
      by (rule less.hyps) (use that keeps_inv [OF t] in auto)
    then show ?thesis by (rule post_mono) (auto intro: keeps_trans [OF t])
  qed
  have done_ok: "post (Ok (a, s)) (\<lambda>(a, s'). keeps su H s s')" for a :: Action
    using less.prems(1) by (simp add: keeps_refl)
  have handled: "post (case Handle ?reg k (client_of k s) opcode reader s of
        Panic \<Rightarrow> Panic | Error e \<Rightarrow> Error e | Ok (Some e, s1) \<Rightarrow> Ok (ActClose, s1)
      | Ok (None, s1) \<Rightarrow> client_frames env ?reg k (drop (frame_size buf) buf) (set_client k (Touch (now env) (client_of k s1)) s1))
      (\<lambda>(a, s'). keeps su H s s')"
    if "2 \<le> length buf" "2 \<le> frame_size buf" for opcode reader
    using h [of opcode reader] again [OF _ that] c
    by (auto simp: client_of_def split: outcome.split option.split prod.split)
  show ?case
    unfolding client_frames.simps [of env ?reg k buf s] Let_def
    using handled done_ok
    by (auto simp: not_less split: prod.split outcome.split simp del: post_simps(1) simp: post_simps(3))
qed

lemma OnTraffic_keeps:
  assumes "pglower (authEnv env) = su_lower su" "server_inv su H s"
  shows "post (OnTraffic cfg (main_kicker env) env k buf s) (\<lambda>(a, s'). keeps su H s s')"
  using client_frames_keeps [OF assms(1,2), of k cfg] assms(2)
  by (auto simp: OnTraffic_def keeps_refl split: option.split)

lemma OnClose_keeps: "server_inv su H s \<Longrightarrow> keeps su H s (OnClose k s)"
  by (auto simp: keeps_def OnClose_def Let_def inv_defs inv_intros split: option.split)

lemma tick_clients_keeps: "server_inv su H s \<Longrightarrow> keeps su H s (tick_clients timeout env ks s)"
proof (induction timeout env ks s rule: tick_clients.induct)
  case (1 timeout env s)
  then show ?case by (simp add: keeps_refl)
next
  case (2 timeout env k ks s)
  let ?s = "if k \<in> clients s \<and> now env - LastActivityNanos (client_of k s) > timeout
    then let s1 = snd (CloseClient env k s); m = metrics s1
         in s1\<lparr>clients := clients s1 - {k}, metrics := m\<lparr>ActiveConnections := ActiveConnections m - 1\<rparr>\<rparr>
    else s"
  have "keeps su H s ?s"
    using 2(2) by (auto simp: keeps_def CloseClient_def Let_def inv_defs emit_def)
  then show ?case
    using 2(1) [OF keeps_inv] by (auto intro: keeps_trans)
qed

lemma gs_tick_keeps: "server_inv su H s \<Longrightarrow> keeps su H s (gs_tick timeout env ks s)"
proof (induction timeout env ks s rule: gs_tick.induct)
  case (1 timeout env s)
  then show ?case by (simp add: keeps_refl)
next
  case (2 timeout env k ks s)
  let ?s = "if k \<in> gservers s \<and> now env - GsLastActivityNanos (gs_of k s) > timeout
    then let s1 = snd (GsClose env k s) in s1\<lparr>gservers := gservers s1 - {k}\<rparr> else s"
  have "keeps su H s ?s"
    using 2(2) by (auto simp: keeps_def GsClose_def Let_def inv_defs emit_def)
  then show ?case
    using 2(1) [OF keeps_inv] by (auto intro: keeps_trans)
qed

lemma GsOnClose_keeps: "server_inv su H s \<Longrightarrow> keeps su H s (GsOnClose k s)"
  by (auto simp: keeps_def GsOnClose_def Let_def inv_defs inv_intros)

lemma open_client_keeps:
  assumes "objs s k = None" "server_inv su H s"
  shows "post (open_client env k ip a sid key sk s) (\<lambda>(a, s'). keeps su H s s')"
proof -
  have "keeps su H s (emit e ((set_client k c s)\<lparr>clients := insert k (clients s), metrics := m\<rparr>))"
    if "c_State c = StateConnected" for c m e
  proof -
    have "keeps su H s (set_client k c s)"
      using that assms by (intro keeps_set_client) (simp_all add: auth_ok_def authed_def same_key_def)
    then show ?thesis
      by (intro keeps_emit) (auto simp: keeps_def inv_defs set_client_def)
  qed
  then show ?thesis
    unfolding open_client_def Let_def post_simps
    by (intro post_mono [OF post_True]) (simp add: Touch_def new_client_def)
qed

lemma OnOpen_keeps:
  assumes "objs s k = None" "server_inv su H s"
  shows "post (OnOpen env k ip rnd s) (\<lambda>(a, s'). keeps su H s s')"
proof -
  define ipAddr where "ipAddr = (case ParseAddr (parse6 (authEnv env)) ip of None \<Rightarrow> AddrZero | Some a \<Rightarrow> a)"
  obtain allowed L where al: "Allow (now env) ipAddr (limiter s) = (allowed, L)" by force
  define s1 where "s1 = s\<lparr>limiter := L\<rparr>"
  obtain banned B cmds where ib: "IsBanned (now env) (now env) ipAddr (bans s1) = (banned, B, cmds)"
    by (metis prod_cases3)
  define s2 where "s2 = s1\<lparr>bans := B, banCmds := banCmds s1 @ cmds\<rparr>"
  obtain sid s3 where g: "generateSessionID (now env) s2 = (sid, s3)" by force
  have "wf_limiter L" using wf_Allow [of "limiter s" "now env" ipAddr] inv_wf(5) [OF assms(2)] by (simp add: al)
  then have k1: "keeps su H s s1" using assms(2) by (auto simp: keeps_def inv_defs s1_def)
  have "wf_bans B" using wf_IsBanned [of "bans s1" "now env" "now env" ipAddr] inv_wf(4) [OF keeps_inv [OF k1]] by (simp add: ib)
  then have k2: "keeps su H s s2" using k1 by (auto simp: keeps_def inv_defs s2_def)
  then have k3: "keeps su H s s3" and o: "objs s3 = objs s"
    using g by (auto simp: keeps_def inv_defs generateSessionID_def Let_def s2_def s1_def)
  have k4: "keeps su H s (s3\<lparr>rsaIdx := x\<rparr>)" for x using k3 by (simp add: keeps_def)
  have acc: "post (open_client env k ip ipAddr sid key sk (s3\<lparr>rsaIdx := x\<rparr>)) (\<lambda>(a, s'). keeps su H s s')" for key sk x
    by (rule post_mono [OF open_client_keeps [OF _ keeps_inv [OF k4]]])
      (auto simp: o assms(1) intro: keeps_trans [OF k4])
  show ?thesis
    unfolding OnOpen_def ipAddr_def [symmetric] Let_def al case_prod_conv s1_def [symmetric] ib s2_def [symmetric] g
    using k1 k2 k3 acc by (auto split: outcome.split)
qed

subsection \<open>Login goroutines\<close>

lemma pc_ok_mono: "pc_ok H k pc \<Longrightarrow> H \<subseteq> H' \<Longrightarrow> pc_ok H' k pc"
  by (cases pc) auto

lemma inv_mono: "server_inv su H s \<Longrightarrow> H \<subseteq> H' \<Longrightarrow> server_inv su H' s"
  unfolding inv_defs auth_ok_def handoff_ok_def
  by (fastforce intro: pc_ok_mono)

text \<open>A phase keeps the invariant and leaves the goroutine at a point the history accounts for.\<close>

definition phase_ok :: "Setup \<Rightarrow> history \<Rightarrow> conn \<Rightarrow> LoginServer \<Rightarrow> (login_pc \<times> LoginServer) outcome \<Rightarrow> bool" where
  "phase_ok su H k s m \<longleftrightarrow> post m (\<lambda>(pc', s'). keeps su H s s' \<and> pc_ok H k pc')"

lemma phase_send:
  "post m (\<lambda>(e, s'). keeps su H s s') \<Longrightarrow> phase_ok su H k s (finally_send m)"
  unfolding phase_ok_def by (rule post_mono [OF finally_send_post]) auto

lemma post_send_from:
  assumes "keeps su H s s1" "auth_ok H k c" "same_key s1 k c"
  shows "post (SendAsync env k opcode build c s1) (\<lambda>(e, s'). keeps su H s s')"
    "post (SendAndCloseAsync env k opcode build c s1) (\<lambda>(e, s'). keeps su H s s')"
  by (rule post_mono [OF SendAsync_keeps(1) [OF keeps_inv [OF assms(1)] assms(2,3)]],
        auto intro: keeps_trans [OF assms(1)])
    (rule post_mono [OF SendAsync_keeps(2) [OF keeps_inv [OF assms(1)] assms(2,3)]],
        auto intro: keeps_trans [OF assms(1)])

lemma login_decode_ok:
  assumes "server_inv su H s" "objs s k = Some c"
  shows "phase_ok su H k s (login_decode env k b1 b2 s)"
proof -
  note a = inv_auth_ok [OF assms]
  have "phase_ok su H k s (finally_send (sendLoginFail env k 1 c s))"
    by (intro phase_send sendLoginFail_keeps assms(1)) (simp_all add: a)
  then show ?thesis
    unfolding login_decode_def client_of_def
    using assms by (auto simp: phase_ok_def keeps_refl split: outcome.split)
qed

lemma login_authenticate_ok:
  assumes "pglower (authEnv env) = su_lower su" "server_inv su H s" "objs s k = Some c"
    and "\<And>row. fst (Authenticate (authEnv env) auth u p (c_RemoteIP c) (db s)) = Ok row \<Longrightarrow> (k, u, row) \<in> H"
  shows "phase_ok su H k s (login_authenticate env auth k u p s)"
proof -
  obtain res d where au: "Authenticate (authEnv env) auth u p (c_RemoteIP c) (db s) = (res, d)" by force
  have d: "wf_db (su_lower su) d"
    using wf_Authenticate [of "authEnv env" "db s" auth u p "c_RemoteIP c"] inv_wf(6) [OF assms(2)] assms(1)
    by (simp add: au)
  show ?thesis
  proof (cases res)
    case (Ok row)
    have "keeps su H s (s\<lparr>db := d, metrics := m\<rparr>)" for m
      using assms(2) d by (auto simp: keeps_def inv_defs)
    then show ?thesis
      using assms(3,4) Ok by (simp add: login_authenticate_def client_of_def au phase_ok_def)
  next
    case (Error e)
    obtain B cmds where rf: "RecordFailure (now env) (c_RemoteAddr c) (bans s) = (B, cmds)" by force
    have "wf_bans B"
      using wf_RecordFailure [of "bans s" "now env" "c_RemoteAddr c"] inv_wf(4) [OF assms(2)] by (simp add: rf)
    then have k1: "keeps su H s (s\<lparr>db := d, metrics := m, bans := B, banCmds := bc\<rparr>)" for m bc
      using assms(2) d by (auto simp: keeps_def inv_defs)
    have sk: "auth_ok H k c" "same_key (s\<lparr>db := d, metrics := m, bans := B, banCmds := bc\<rparr>) k c" for m bc
      using inv_auth_ok [OF assms(2,3)] by (simp_all add: same_key_def)
    show ?thesis
      using post_send_from [OF k1 sk] Error
      by (simp add: login_authenticate_def client_of_def assms(3) au rf Let_def sendLoginFail_def phase_send)
  qed (simp add: login_authenticate_def client_of_def assms(3) au phase_ok_def Let_def)
qed

lemma login_register_ok:
  assumes "server_inv su H s" "objs s k = Some c" "(k, u, row) \<in> H"
  shows "phase_ok su H k s (login_register env k u row s)"
proof -
  obtain kick allow R where tr: "TryRegister (now env) u (registry s) = ((kick, allow), R)" by (metis prod.exhaust)
  have "wf_registry R"
    using wf_registry_ops inv_wf(2) [OF assms(1)] by (metis snd_conv tr)
  then have k1: "keeps su H s (s\<lparr>registry := R\<rparr>)" using assms(1) by (auto simp: keeps_def inv_defs)
  have sk: "auth_ok H k c" "same_key (s\<lparr>registry := R\<rparr>) k c"
    using inv_auth_ok [OF assms(1,2)] by (simp_all add: same_key_def)
  show ?thesis
    using k1 assms(3) phase_send [OF post_send_from(2) [OF k1 sk], of k]
    by (simp add: login_register_def tr client_of_def assms(2) sendLoginFail_def Let_def)
      (simp add: phase_ok_def)
qed

lemma login_kick_ok:
  assumes "server_inv su H s" "(k, u, row) \<in> H"
  shows "phase_ok su H k s (login_kick (main_kicker env) u row s)"
  using main_kicker_keeps(1,2) [OF assms(1), of env u] keeps_refl [OF assms(1)] assms(2)
  by (auto simp: phase_ok_def login_kick_def split: option.split intro: post_mono)

lemma login_finish_ok:
  assumes "server_inv su H s" "objs s k = Some c" "(k, u, row) \<in> H"
  shows "phase_ok su H k s (login_finish env k u row s)"
proof -
  define c1 where "c1 = (SetAccount u (c\<lparr>c_AccountID := row_ID row\<rparr>))
    \<lparr>c_State := StateAuthedLogin, c_LastServer := row_LastServer row\<rparr>"
  define s1 where "s1 = s\<lparr>bans := ResetAttempts (c_RemoteAddr c) (bans s),
    registry := Register (now env) u (c_SessionID c) (registry s)\<rparr>"
  have k1: "keeps su H s s1"
    using assms(1) by (auto simp: keeps_def inv_defs s1_def inv_intros)
  have a: "auth_ok H k c1" "same_key s1 k c1"
    using assms(2,3) by (auto simp: c1_def s1_def auth_ok_def same_key_def SetAccount_def)
  have k2: "keeps su H s (set_client k c1 s1)"
    using keeps_trans [OF k1 keeps_set_client [OF keeps_inv [OF k1] a]] .
  have "same_key (set_client k c1 s1) k c1" by (simp add: same_key_def)
  from phase_send [OF post_send_from(1) [OF k2 a(1) this]] show ?thesis
    by (simp add: login_finish_def client_of_def assms(2) Let_def c1_def s1_def)
qed

definition accepts :: "Env \<Rightarrow> Authenticator \<Rightarrow> conn \<Rightarrow> login_pc \<Rightarrow> LoginServer \<Rightarrow> history" where
  "accepts env auth k pc s = (case pc of
     LAuthenticate u p \<Rightarrow>
       (case fst (Authenticate (authEnv env) auth u p (c_RemoteIP (client_of k s)) (db s)) of
          Ok row \<Rightarrow> {(k, u, row)} | _ \<Rightarrow> {})
   | _ \<Rightarrow> {})"

lemma login_advance_ok:
  assumes "pglower (authEnv env) = su_lower su" "server_inv su H s" "objs s k = Some c" "pc_ok H k pc"
    and "accepts env auth k pc s \<subseteq> H"
  shows "phase_ok su H k s (login_advance env auth (main_kicker env) k pc s)"
proof (cases pc)
  case (LAuthenticate u p)
  then have "fst (Authenticate (authEnv env) auth u p (c_RemoteIP c) (db s)) = Ok row \<Longrightarrow> (k, u, row) \<in> H" for row
    using assms(3,5) by (simp add: accepts_def client_of_def)
  from login_authenticate_ok [OF assms(1-3) this] LAuthenticate show ?thesis
    by (simp add: login_advance_def)
qed (use assms login_decode_ok login_register_ok login_kick_ok login_finish_ok keeps_refl [OF assms(2)]
    in \<open>auto simp: login_advance_def phase_ok_def [of _ _ _ _ "Ok _"]\<close>)

lemma accepted_accepts:
  "accepted su env (EvLogin i) s = (if i < length (pendingLogins s)
     then accepts env (lc_auth (su_listener su)) (fst (pendingLogins s ! i)) (snd (pendingLogins s ! i)) s else {})"
  by (cases "pendingLogins s ! i") (auto simp: accepted_def accepts_def split: login_pc.split)

lemma inv_logins:
  assumes "server_inv su H s" "set L \<subseteq> insert (k, pc) (set (pendingLogins s))" "pc_ok H k pc" "k \<in> dom (objs s)"
  shows "server_inv su H (s\<lparr>pendingLogins := L\<rparr>)"
  using assms unfolding inv_defs by (auto 0 4)

lemma login_step_keeps:
  assumes "pglower (authEnv env) = su_lower su" "server_inv su H s"
  shows "post (login_step w env (lc_auth (su_listener su)) (main_kicker env) i s)
    (\<lambda>s'. keeps su (H \<union> accepted su env (EvLogin i) s) s s')"
proof -
  let ?H = "H \<union> accepted su env (EvLogin i) s"
  have i: "server_inv su ?H s" using assms(2) by (rule inv_mono) simp
  show ?thesis
  proof (cases "i < length (pendingLogins s)")
    case False
    then show ?thesis using i by (simp add: login_step_def keeps_refl)
  next
    case True
    obtain k pc where kpc: "pendingLogins s ! i = (k, pc)" by force
    with True have mem: "(k, pc) \<in> set (pendingLogins s)" by (metis nth_mem)
    then obtain c where c: "objs s k = Some c" and pc: "pc_ok ?H k pc"
      using i unfolding inv_defs by blast
    have "accepts env (lc_auth (su_listener su)) k pc s \<subseteq> ?H"
      using True kpc by (auto simp: accepted_accepts)
    note adv = login_advance_ok [OF assms(1) i c pc this]
    have fin: "keeps su ?H s (s'\<lparr>pendingLogins := if pc' = LDone then take i (pendingLogins s') @ drop (i + 1) (pendingLogins s')
        else (pendingLogins s')[i := (k, pc')]\<rparr>)"
      if ks: "keeps su ?H s s'" and pc': "pc_ok ?H k pc'" for pc' s'
    proof -
      obtain c' where "objs s' k = Some c'" using keeps_dom [OF ks c] by blast
      then have "server_inv su ?H (s'\<lparr>pendingLogins := if pc' = LDone then take i (pendingLogins s') @ drop (i + 1) (pendingLogins s')
          else (pendingLogins s')[i := (k, pc')]\<rparr>)"
        using keeps_inv [OF ks] pc'
        by (intro inv_logins [where k = k and pc = pc'])
          (auto dest: in_set_takeD in_set_dropD set_update_subset_insert [THEN subsetD])
      then show ?thesis using ks by (simp add: keeps_def)
    qed
    show ?thesis
      unfolding login_step_def kpc using True i adv fin
      by (auto simp: keeps_refl phase_ok_def Let_def not_le elim!: post_mono)
  qed
qed

subsection \<open>Game server packets\<close>

lemma keeps_services:
  "server_inv su H s \<Longrightarrow> wf_registry R \<Longrightarrow> keeps su H s (s\<lparr>registry := R\<rparr>)"
  "server_inv su H s \<Longrightarrow> wf_servers L \<Longrightarrow> keeps su H s (s\<lparr>serverList := L\<rparr>)"
  by (simp_all add: keeps_def inv_services)

lemma players_in_game_keeps:
  "server_inv su H s \<Longrightarrow> post (players_in_game n sid r s) (\<lambda>(e, s'). keeps su H s s')"
proof (induction n arbitrary: r s)
  case 0
  then show ?case by (simp add: keeps_refl)
next
  case (Suc n)
  have k1: "keeps su H s (s\<lparr>registry := SetGS u sid (registry s)\<rparr>)" for u
    using Suc.prems inv_wf(2) [OF Suc.prems] by (intro keeps_services) (simp_all add: inv_intros)
  have "post (players_in_game n sid r' (s\<lparr>registry := SetGS u sid (registry s)\<rparr>)) (\<lambda>(e, s'). keeps su H s s')" for u r'
    by (rule post_mono [OF Suc.IH [OF keeps_inv [OF k1]]]) (auto intro: keeps_trans [OF k1])
  then show ?case
    by (auto intro!: reading_keeps Suc.prems)
qed

lemma status_updates_keeps:
  "server_inv su H s \<Longrightarrow> post (status_updates n sid r s) (\<lambda>(e, s'). keeps su H s s')"
proof (induction n arbitrary: r s)
  case 0
  then show ?case by (simp add: keeps_refl)
next
  case (Suc n)
  have k1: "keeps su H s (s\<lparr>serverList := UpdateStatus sid ty v (serverList s)\<rparr>)" for ty v
    using Suc.prems inv_wf(3) [OF Suc.prems] by (intro keeps_services) (simp_all add: inv_intros)
  have "post (status_updates n sid r' (s\<lparr>serverList := UpdateStatus sid ty v (serverList s)\<rparr>)) (\<lambda>(e, s'). keeps su H s s')" for ty v r'
    by (rule post_mono [OF Suc.IH [OF keeps_inv [OF k1]]]) (auto intro: keeps_trans [OF k1])
  then show ?case
    by (auto intro!: reading_keeps Suc.prems)
qed

lemma handoffs_shrink:
  assumes "server_inv su H s" "wf_sessions S" "\<And>i sess. sessions S i = Some sess \<Longrightarrow> sessions (handoffs s) i = Some sess"
  shows "keeps su H s (s\<lparr>handoffs := S\<rparr>)"
  using assms by (auto simp: keeps_def inv_defs)

lemma validate_shrinks:
  assumes "server_inv su H s"
  shows "keeps su H s (s\<lparr>handoffs := snd (ValidateAndDelete t i (handoffs s))\<rparr>)"
  using inv_wf(1) [OF assms] by (intro handoffs_shrink [OF assms]) (auto simp: sessions_ops wf_session_ops split: if_splits)

lemma GsSend_from: "keeps su H s s1 \<Longrightarrow> post (GsSend env k opcode b g s1) (\<lambda>(e, s'). keeps su H s s')"
  by (rule post_mono [OF GsSend_keeps [OF keeps_inv]]) (auto intro: keeps_trans)

lemma HandleInit_keeps: "gs_handler_keeps su H (HandleInit env)"
  unfolding gs_handler_keeps_def
proof (intro allI impI)
  fix k g r s assume i: "server_inv su H s"
  have k1: "keeps su H s ((set_gs k g' s)\<lparr>serverList := RegisterServer srv (serverList s)\<rparr>)" for g' srv
    using i inv_wf(3) [OF i] by (auto simp: keeps_def inv_defs set_gs_def inv_intros)
  show "post (HandleInit env k g r s) (\<lambda>(e, s'). keeps su H s s')"
    unfolding HandleInit_def
    by (auto simp: Let_def keeps_refl [OF i] intro!: reading_keeps [OF i] ignore_err_post GsSend_from [OF k1] split: prod.split)
qed

lemma HandleValidate_keeps: "gs_handler_keeps su H (HandleValidate env)"
  unfolding gs_handler_keeps_def
proof (intro allI impI)
  fix k g r s assume i: "server_inv su H s"
  have k1: "keeps su H s (s\<lparr>handoffs := S\<rparr>)" if "ValidateAndDelete (now env) l (handoffs s) = (res, S)" for l res S
    using validate_shrinks [OF i, of "now env" l] by (simp add: that)
  show "post (HandleValidate env k g r s) (\<lambda>(e, s'). keeps su H s s')"
    unfolding HandleValidate_def
    by (auto simp: Let_def intro!: reading_keeps [OF i] ignore_err_post GsSend_from dest: k1 split: prod.split)
qed

lemma gs_service_handlers_keep:
  "gs_handler_keeps su H HandlePlayerInGame" "gs_handler_keeps su H HandlePlayerLogout"
  "gs_handler_keeps su H HandleReplyCharacters" "gs_handler_keeps su H HandleStatus"
  unfolding gs_handler_keeps_def HandlePlayerInGame_def HandlePlayerLogout_def HandleReplyCharacters_def HandleStatus_def
  by (auto simp: keeps_refl players_in_game_keeps status_updates_keeps inv_wf inv_intros
      intro!: reading_keeps keeps_services split: option.split)

lemma GsHandle_keeps:
  assumes "gsobjs s k = Some g" "server_inv su H s"
  shows "post (GsHandle (gs_registry env) k g opcode r s) (\<lambda>(e, s'). keeps su H s s')"
proof -
  have "gs_registry env ! unat opcode \<in>
      {None, Some (HandleInit env), Some HandlePlayerInGame, Some HandlePlayerLogout, Some (HandleValidate env),
       Some HandleReplyCharacters, Some HandleStatus}"
    using unat_byte_lt [of opcode]
    by (auto simp: gs_registry_def RegisterGsHandler_def NewGsRegistry_def nth_list_update Let_def)
  then show ?thesis
    using assms HandleInit_keeps HandleValidate_keeps gs_service_handlers_keep
    unfolding GsHandle_def gs_handler_keeps_def by (auto simp: keeps_refl)
qed

lemma gs_frames_keeps:
  "server_inv su H s \<Longrightarrow> gsobjs s k \<noteq> None \<Longrightarrow>
    post (gs_frames env (gs_registry env) k buf s) (\<lambda>(a, s'). keeps su H s s')"
proof (induction "length buf" arbitrary: buf s rule: less_induct)
  case less
  let ?reg = "gs_registry env"
  obtain g where g: "gsobjs s k = Some g" using less.prems(2) by auto
  note h = GsHandle_keeps [OF g less.prems(1), of env]
  have again: "post (gs_frames env ?reg k (drop (frame_size buf) buf) (set_gs k (GsTouch (now env) (gs_of k s1)) s1))
      (\<lambda>(a, s'). keeps su H s s')"
    if "keeps su H s s1" "2 \<le> length buf" "2 \<le> frame_size buf" for s1
  proof -
    let ?s = "set_gs k (GsTouch (now env) (gs_of k s1)) s1"
    have t: "keeps su H s ?s" using that(1) by (auto simp: keeps_def)
    have "post (gs_frames env ?reg k (drop (frame_size buf) buf) ?s) (\<lambda>(a, s'). keeps su H ?s s')"
      by (rule less.hyps) (use that keeps_inv [OF t] in auto)
    then show ?thesis by (rule post_mono) (auto intro: keeps_trans [OF t])
  qed
  have done_ok: "post (Ok (a, s)) (\<lambda>(a, s'). keeps su H s s')" for a :: Action
    using less.prems(1) by (simp add: keeps_refl)
  have handled: "post (case GsHandle ?reg k (gs_of k s) opcode reader s of
        Panic \<Rightarrow> Panic | Error e \<Rightarrow> Error e | Ok (Some e, s1) \<Rightarrow> Ok (ActClose, s1)
      | Ok (None, s1) \<Rightarrow> gs_frames env ?reg k (drop (frame_size buf) buf) (set_gs k (GsTouch (now env) (gs_of k s1)) s1))
      (\<lambda>(a, s'). keeps su H s s')"
    if "2 \<le> length buf" "2 \<le> frame_size buf" for opcode reader
    using h [of opcode reader] again [OF _ that] g
    by (auto simp: gs_of_def split: outcome.split option.split prod.split)
  show ?case
    unfolding gs_frames.simps [of env ?reg k buf s] Let_def
    using handled done_ok
    by (auto simp: not_less split: outcome.split simp del: post_simps(1) simp: post_simps(3))
qed

lemma GsOnTraffic_keeps:
  "server_inv su H s \<Longrightarrow> post (GsOnTraffic env k buf s) (\<lambda>(a, s'). keeps su H s s')"
  using gs_frames_keeps [of su H s k env]
  by (auto simp: GsOnTraffic_def keeps_refl split: option.split)

lemma GsOnOpen_keeps: "server_inv su H s \<Longrightarrow> keeps su H s (snd (GsOnOpen env k ip s))"
  by (auto simp: GsOnOpen_def keeps_def inv_defs set_gs_def Let_def)

section \<open>Every reachable state satisfies the invariant\<close>

lemma run_banCmd_keeps: "server_inv su H s \<Longrightarrow> keeps su H s (run_banCmd i fault s)"
  by (auto simp: run_banCmd_def keeps_def inv_defs run_ban_cmd_def inv_intros split: ban_cmd.split)

lemma gc_keeps: "server_inv su H s \<Longrightarrow> keeps su H s (s\<lparr>handoffs := gc_tick t (handoffs s)\<rparr>)"
  by (rule handoffs_shrink) (auto simp: sessions_ops wf_session_ops inv_wf)

lemma post_state: "post m (\<lambda>(a, s'). P s') \<Longrightarrow> post m (\<lambda>x. post (case x of (a, s') \<Rightarrow> Ok s') P)"
  by (auto elim!: post_mono)

lemma handle_event_keeps:
  assumes "enabled su env ev s" "server_inv su H s"
  shows "post (handle_event su env ev s) (\<lambda>s'. keeps su (H \<union> accepted su env ev s) s s')"
proof -
  have e: "pglower (authEnv env) = su_lower su" using assms(1) by (simp add: enabled_def)
  note k = OnClose_keeps GsOnClose_keeps tick_clients_keeps gs_tick_keeps GsOnOpen_keeps run_banCmd_keeps gc_keeps
  have lim: "keeps su H s (s\<lparr>limiter := cleanup t (limiter s)\<rparr>)" for t
    using assms(2) inv_wf(5) [OF assms(2)] by (simp add: keeps_def inv_services inv_intros)
  show ?thesis
    using assms OnOpen_keeps [of s _ su H env] OnTraffic_keeps [OF e assms(2)] GsOnTraffic_keeps [OF assms(2)]
      login_step_keeps [OF e assms(2)] k lim
    by (cases ev) (auto simp: accepted_def enabled_def OnTick_def GsOnTick_def intro!: post_state)
qed

lemma boot_inv:
  "wf_db (su_lower su) d \<Longrightarrow> server_inv su {} (boot cfg loaded pool keys d)"
  by (simp add: boot_def inv_defs wf_session_ops wf_registry_ops inv_intros sessions_ops(1))

lemma reach_inv: "reach su s0 H s \<Longrightarrow> server_inv su {} s0 \<Longrightarrow> server_inv su H s"
proof (induction rule: reach.induct)
  case start
  then show ?case .
next
  case (step H s env ev s')
  from handle_event_keeps [OF step.hyps(2) step.IH [OF step.prems]] step.hyps(3)
  show ?case by (auto dest: keeps_inv)
qed

section \<open>What the history means\<close>

lemma accepted_authenticated:
  assumes "(k, u, row) \<in> accepted su env ev s"
  shows "\<exists>p ip. fst (Authenticate (authEnv env) (lc_auth (su_listener su)) u p ip (db s)) = Ok row"
proof -
  obtain i where ev: "ev = EvLogin i" using assms by (cases ev) (auto simp: accepted_def)
  then have "(k, u, row) \<in> accepts env (lc_auth (su_listener su)) (fst (pendingLogins s ! i)) (snd (pendingLogins s ! i)) s"
    using assms by (auto simp: accepted_accepts split: if_splits)
  then show ?thesis
    by (auto simp: accepts_def split: login_pc.splits outcome.splits)
qed

lemma history_authenticated:
  assumes "reach su s0 H s" "(k, u, row) \<in> H"
  shows "\<exists>(env :: Env) p ip d. pglower (authEnv env) = su_lower su
     \<and> fst (Authenticate (authEnv env) (lc_auth (su_listener su)) u p ip d) = Ok row"
  using assms
proof (induction rule: reach.induct)
  case start
  then show ?case by simp
next
  case (step H s env ev s')
  show ?case
  proof (cases "(k, u, row) \<in> H")
    case True
    then show ?thesis by (rule step.IH)
  next
    case False
    with step.prems have "(k, u, row) \<in> accepted su env ev s" by blast
    then obtain p ip where "fst (Authenticate (authEnv env) (lc_auth (su_listener su)) u p ip (db s)) = Ok row"
      using accepted_authenticated by blast
    with step.hyps(2) show ?thesis unfolding enabled_def by blast
  qed
qed

lemma empty_db_wf: "wf_db lower \<lparr>accounts = [], ip_banned = [], next_id = 1\<rparr>"
  by (simp add: wf_db_def)

end
