(* ===== verification/Client_Flow.thy ===== *)
theory Client_Flow
  imports Server_Invariant Packet_Codec
begin

text \<open>
  What a client and a game server get out of the server: packets arrive at the handler of their
  opcode in plain text, replies decode to the announced contents, and the steps of the protocol
  (GameGuard, login, server list, choice of a server, validation by the game server) do what they
  are there for. The lemmas describe each handler on its accepting branch; the properties compose
  them.
\<close>

section \<open>Packets in and out\<close>

definition appends :: "(PacketWriter \<Rightarrow> PacketWriter) \<Rightarrow> byte list \<Rightarrow> bool" where
  "appends build body \<longleftrightarrow> (\<forall>w. wbuf (build w) = wbuf w @ body)"

lemma appends_write [simp]:
  "appends (WriteByte b) [b]" "appends (WriteInt32 d) (le_enc 4 d)" "appends (WriteInt64 q) (le_enc 8 q)"
  "appends (WriteString str) (string_enc str)" "appends (WriteBytes bs) bs"
  by (simp_all add: appends_def writer_simps string_enc_def)

lemma appends_comp: "appends f xs \<Longrightarrow> appends g ys \<Longrightarrow> appends (\<lambda>w. g (f w)) (xs @ ys)"
  by (simp add: appends_def)

text \<open>The bytes \<open>out\<close> are a packet from which a client with the cipher state \<open>cr\<close> decodes \<open>payload\<close>.\<close>

definition client_reads :: "Crypt \<Rightarrow> byte list \<Rightarrow> byte list \<Rightarrow> bool" where
  "client_reads cr out payload \<longleftrightarrow>
     length out \<le> 65535 \<and> take 2 out = le_enc 2 (of_nat (length out) :: uint16) \<and> 8 dvd length out - 2
     \<and> take (length payload) (client_decode (cipher cr) (\<not> updatedKey cr) (drop 2 out)) = payload"

definition after_send :: "Client \<Rightarrow> Client" where
  "after_send c = c\<lparr>c_Crypt := (c_Crypt c)\<lparr>updatedKey := True\<rparr>\<rparr>"

lemma after_send_simps [simp]:
  "c_State (after_send c) = c_State c" "c_Account (after_send c) = c_Account c"
  "c_AccountID (after_send c) = c_AccountID c" "c_SessionKey (after_send c) = c_SessionKey c"
  "c_SessionID (after_send c) = c_SessionID c" "c_ScrambledKey (after_send c) = c_ScrambledKey c"
  "c_RemoteAddr (after_send c) = c_RemoteAddr c" "c_RemoteIP (after_send c) = c_RemoteIP c"
  "c_LastServer (after_send c) = c_LastServer c" "cipher (c_Crypt (after_send c)) = cipher (c_Crypt c)"
  "updatedKey (c_Crypt (after_send c))"
  by (simp_all add: after_send_def)

lemma build_packet_Ok:
  assumes "appends build body" "length body \<le> 65000"
  obtains out where "build_packet env opcode build c = Ok (out, after_send c)"
    "client_reads (c_Crypt c) out (opcode # body)"
proof -
  define w where "w = build (WriteByte opcode (GetPacketWriter (pooled env)))"
  have wb: "wbuf w = [0, 0, opcode] @ body" using assms(1) by (simp add: w_def appends_def writer_simps)
  obtain cr w3 where e: "Encrypt (xorKey env) (c_Crypt c) w = (cr, w3)" by force
  have "2 \<le> length (wbuf w)" "length (wbuf w) \<le> 65535" using assms(2) by (simp_all add: wb)
  note en = Encrypt_correct [OF this e]
  then have l2: "2 \<le> length (wbuf w3)" using wb by (metis (no_types) append_Cons length_take min.absorb_iff2 \<open>2 \<le> length (wbuf w)\<close>)
  have l: "length (wbuf w3) \<le> 65535" using en assms(2) by (simp add: wb)
  obtain w4 where w4: "PrependLength w3 = Ok w4"
    "wbuf w4 = le_enc 2 (of_nat (length (wbuf w3)) :: uint16) @ drop 2 (wbuf w3)"
    by (rule PrependLength_Ok [OF l2 l])
  have cr: "cr = (c_Crypt c)\<lparr>updatedKey := True\<rparr>" using en by (cases cr; cases "c_Crypt c") auto
  have "length (wbuf w4) = length (wbuf w3)" using l2 by (simp add: w4(2))
  then have "client_reads (c_Crypt c) (wbuf w4) (opcode # body)"
    using en l by (simp add: client_reads_def w4(2) wb del: le_enc.simps)
  moreover have "build_packet env opcode build c = Ok (wbuf w4, after_send c)"
    by (simp add: build_packet_def Let_def w_def [symmetric] e w4(1) after_send_def cr)
  ultimately show thesis by (rule that [rotated])
qed

lemma SendAsync_Ok:
  assumes "appends build body" "length body \<le> 65000" "\<not> writeFails env"
  obtains out where "SendAsync env k opcode build c s = Ok (None, emit (Sent k out) (set_client k (after_send c) s))"
    "client_reads (c_Crypt c) out (opcode # body)"
  by (rule build_packet_Ok [OF assms(1,2), of env opcode c]) (simp add: SendAsync_def Let_def that assms(3))

lemma SendAndCloseAsync_Ok:
  assumes "appends build body" "length body \<le> 65000" "\<not> writeFails env"
  obtains out where "SendAndCloseAsync env k opcode build c s = Ok (None, emit (SentThenClose k out) (set_client k (after_send c) s))"
    "client_reads (c_Crypt c) out (opcode # body)"
  by (rule build_packet_Ok [OF assms(1,2), of env opcode c]) (simp add: SendAndCloseAsync_def Let_def that assms(3))

text \<open>The packet a client sends: its length, then the plain text enciphered with the session's key.\<close>

definition client_packet :: "Crypt \<Rightarrow> byte list \<Rightarrow> byte list" where
  "client_packet cr plain =
     le_enc 2 (of_nat (length plain + 2) :: uint16) @ CipherRange (cipher cr) plain 0 (int (length plain))"

lemma length_client_packet [simp]: "length (client_packet cr plain) = length plain + 2"
  by (simp add: client_packet_def)

lemma frame_size_enc:
  assumes "n < 65536"
  shows "frame_size (le_enc 2 (of_nat n :: uint16) @ rest) = n"
proof -
  define w where "w = (of_nat n :: uint16)"
  have e: "le_enc 2 w = [ucast w, ucast (drop_bit 8 w)]" by (simp add: numeral_2_eq_2)
  have "(ucast (ucast w :: byte) OR push_bit 8 (ucast (ucast (drop_bit 8 w) :: byte))) = w"
    by (rule bit_word_eqI) (auto simp: bit_simps dest: bit_imp_le_length)
  then have "frame_size (le_enc 2 w @ rest) = unat w" by (simp add: frame_size_def e)
  then show ?thesis using assms by (simp add: w_def)
qed

lemma client_frames_packet:
  assumes "c_Crypt (client_of k s) = cr" "length plain + 2 \<le> 65535" "8 dvd length plain" "plain = opcode # body"
  shows "client_frames env reg k (client_packet cr plain @ rest) s =
    (case Handle reg k (client_of k s) opcode \<lparr>rbuf = body, rpos = 0\<rparr> s of
       Panic \<Rightarrow> Panic
     | Error e \<Rightarrow> Error e
     | Ok (Some e, s1) \<Rightarrow> Ok (ActClose, s1)
     | Ok (None, s1) \<Rightarrow> client_frames env reg k rest (set_client k (Touch (now env) (client_of k s1)) s1))"
proof -
  let ?buf = "client_packet cr plain @ rest"
  have sz: "frame_size ?buf = length plain + 2"
    using frame_size_enc [of "length plain + 2"] assms(2) by (simp add: client_packet_def)
  have payload: "take (length plain) (drop 2 ?buf) = CipherRange (cipher cr) plain 0 (int (length plain))"
    by (simp add: client_packet_def)
  have "int (length plain) mod 8 = 0" using assms(3) by presburger
  moreover have "0 < length plain" using assms(4) by simp
  ultimately have dec: "Decrypt cr (CipherRange (cipher cr) plain 0 (int (length plain))) (int (length plain)) = (True, plain)"
    by (simp add: Decrypt_def Decipher_CipherRange)
  have rd: "GetPacketReader body = Ok \<lparr>rbuf = body, rpos = 0\<rparr>"
    using assms(2,4) by (simp add: GetPacketReader_def MinPacketSize_def MaxPacketSize_def)
  have dr: "drop (length plain + 2) ?buf = rest" "drop (Suc (Suc (length plain))) ?buf = rest" by simp_all
  have n: "\<not> length ?buf < 2" "\<not> length ?buf < length plain + 2" "\<not> length plain + 2 < 2" by simp_all
  have m: "\<not> (length plain + 2 < MinPacketSize \<or> length plain + 2 > MaxPacketSize)"
    using assms(2) by (simp add: MinPacketSize_def MaxPacketSize_def)
  have p: "\<not> length plain < 1" "plain ! 0 = opcode" "drop 1 plain = body" using assms(4) by simp_all
  show ?thesis
    unfolding client_frames.simps [of env reg k ?buf s] Let_def sz add_diff_cancel_right' payload assms(1)
      length_CipherRange dec case_prod_conv dr(1) p(2,3) rd
    using n m p(1) by simp
qed

section \<open>Handlers on their accepting branch\<close>

lemma read_i32:
  "ReadInt32 \<lparr>rbuf = le_enc 4 a @ ys, rpos = 0\<rparr> = Ok (a, \<lparr>rbuf = le_enc 4 a @ ys, rpos = 4\<rparr>)"
  "ReadInt32 \<lparr>rbuf = le_enc 4 a @ le_enc 4 b @ ys, rpos = 4\<rparr> = Ok (b, \<lparr>rbuf = le_enc 4 a @ le_enc 4 b @ ys, rpos = 8\<rparr>)"
  "ReadInt32 \<lparr>rbuf = le_enc 4 a @ le_enc 4 b @ le_enc 4 d @ ys, rpos = 8\<rparr>
     = Ok (d, \<lparr>rbuf = le_enc 4 a @ le_enc 4 b @ le_enc 4 d @ ys, rpos = 12\<rparr>)"
  using i32_codec.read_enc [where xs = "[]" and v = a and ys = ys]
    i32_codec.read_enc [where xs = "le_enc 4 a" and v = b and ys = ys]
    i32_codec.read_enc [where xs = "le_enc 4 a @ le_enc 4 b" and v = d and ys = ys]
  by (simp_all del: le_enc.simps)

lemma set_client_twice [simp]: "set_client k c2 (set_client k c1 s) = set_client k c2 s"
  by (simp add: set_client_def)

lemma set_client_emit [simp]: "set_client k c (emit e s) = emit e (set_client k c s)"
  by (cases s) (simp add: set_client_def emit_def)

lemma emit_simps [simp]:
  "wire (emit e s) = wire s @ [e]" "pendingLogins (emit e s) = pendingLogins s" "db (emit e s) = db s"
  "registry (emit e s) = registry s" "serverList (emit e s) = serverList s" "handoffs (emit e s) = handoffs s"
  "bans (emit e s) = bans s" "gservers (emit e s) = gservers s" "clients (emit e s) = clients s" "running (emit e s) = running s"
  by (simp_all add: emit_def running_def)

lemma set_client_simps [simp]:
  "wire (set_client k c s) = wire s" "pendingLogins (set_client k c s) = pendingLogins s" "db (set_client k c s) = db s"
  "registry (set_client k c s) = registry s" "serverList (set_client k c s) = serverList s"
  "handoffs (set_client k c s) = handoffs s" "bans (set_client k c s) = bans s" "gservers (set_client k c s) = gservers s"
  "clients (set_client k c s) = clients s" "running (set_client k c s) = running s"
  by (simp_all add: set_client_def running_def)


lemma reading_Ok [simp]: "reading (Ok x) s f = f x"
  by (simp add: reading_def)

lemma ignore_err_Ok [simp]: "ignore_err (Ok (e, s)) = Ok (None, s)"
  by (simp add: ignore_err_def)

lemma AuthGG_accepts:
  assumes "\<not> writeFails env"
  obtains out where "AuthGG env k c \<lparr>rbuf = le_enc 4 (c_SessionID c) @ rest, rpos = 0\<rparr> s
      = Ok (None, emit (Sent k out) (set_client k (after_send (c\<lparr>c_State := StateAuthedGG\<rparr>)) s))"
    "client_reads (c_Crypt c) out (ServerAuthGG # le_enc 4 (c_SessionID c))"
proof -
  let ?c = "c\<lparr>c_State := StateAuthedGG\<rparr>"
  obtain out where "SendAsync env k ServerAuthGG (WriteInt32 (c_SessionID c)) ?c (set_client k ?c s)
      = Ok (None, emit (Sent k out) (set_client k (after_send ?c) (set_client k ?c s)))"
    "client_reads (c_Crypt ?c) out (ServerAuthGG # le_enc 4 (c_SessionID c))"
    by (rule SendAsync_Ok [OF appends_write(2) _ assms, of "c_SessionID c" k ServerAuthGG ?c "set_client k ?c s"]) simp
  then show thesis
    by (intro that [of out]) (simp_all add: AuthGG_def read_i32 Let_def del: le_enc.simps)
qed

text \<open>A wrong session number is answered and the connection closed; nothing else changes.\<close>

lemma AuthGG_rejects:
  assumes "\<not> writeFails env" "sid \<noteq> c_SessionID c"
  obtains out where "AuthGG env k c \<lparr>rbuf = le_enc 4 sid @ rest, rpos = 0\<rparr> s
      = Ok (None, emit (SentThenClose k out) (set_client k (after_send c) s))"
    "client_reads (c_Crypt c) out [ServerLoginFail, 0x01]"
proof -
  obtain out where "SendAndCloseAsync env k ServerLoginFail (WriteByte 0x01) c s
      = Ok (None, emit (SentThenClose k out) (set_client k (after_send c) s))"
    "client_reads (c_Crypt c) out (ServerLoginFail # [0x01])"
    by (rule SendAndCloseAsync_Ok [OF appends_write(1) _ assms(1), of "0x01" k ServerLoginFail c s]) simp
  with assms(2) show thesis
    by (intro that [of out]) (simp_all add: AuthGG_def read_i32 del: le_enc.simps)
qed

lemma HandleLogin_accepts:
  assumes "c_State c = StateAuthedGG" "128 \<le> length body"
  shows "HandleLogin env k c \<lparr>rbuf = body, rpos = 0\<rparr> s
    = Ok (None, s\<lparr>pendingLogins := pendingLogins s @
        [(k, LQueued (take 128 body) (if 256 \<le> length body then Some (take 128 (drop 128 body)) else None))]\<rparr>)"
  using assms
  by (auto simp: HandleLogin_def readLoginBlocks_def ReadBytes_def ensure_def ReadableBytes_def)

subsection \<open>Credentials\<close>

definition trimmed :: "gostring \<Rightarrow> bool" where
  "trimmed str \<longleftrightarrow> str = [] \<or> \<not> blank (hd str) \<and> \<not> blank (last str)"

lemma cleanBytesToString_trimmed: "trimmed str \<Longrightarrow> cleanBytesToString (str @ replicate n 0) = str"
proof -
  assume t: "trimmed str"
  have b: "blank 0" by (simp add: blank_def)
  have z: "dropWhile blank (replicate n 0 @ xs) = dropWhile blank xs" for xs
    by (induction n) (simp_all add: b)
  show ?thesis
  proof (cases str)
    case Nil
    then show ?thesis using z [of "[]"] by (simp add: cleanBytesToString_def)
  next
    case (Cons a as)
    then have "dropWhile blank (str @ replicate n 0) = str @ replicate n 0"
      using t by (simp add: trimmed_def)
    moreover have "dropWhile blank (rev str) = rev str"
      using t Cons unfolding dropWhile_eq_self_iff hd_rev trimmed_def by simp
    ultimately show ?thesis by (simp add: cleanBytesToString_def Let_def z)
  qed
qed

text \<open>The plain text of a login block: the name in 14 bytes from 0x5E on, the password in 16 behind it.\<close>

definition credential_block :: "gostring \<Rightarrow> gostring \<Rightarrow> byte list" where
  "credential_block name pw =
     replicate 0x5E 0 @ name @ replicate (14 - length name) 0 @ pw @ replicate (16 - length pw) 0 @ replicate 4 0"

lemma RSADecrypt_block:
  assumes "rsa_key_ok (privateKey key)" "length block = 128" "SetBytes block < pubN (privateKey key)"
  shows "RSADecrypt key (rsa_encrypt (privateKey key) (SetBytes block)) = Ok block"
  using RSADecrypt_encrypt [OF assms(1) _ assms(3)] SetBytes_bounds [of block] be_bytes_SetBytes [of block] assms(2)
  by (simp add: RSAModulusSize_def)

lemma decode_one_block:
  assumes "RSADecrypt key b1 = Ok (credential_block name pw)"
    and "length name \<le> 14" "length pw \<le> 16" "trimmed name" "trimmed pw"
  shows "decodeCredentials ul key b1 None = Ok (ToLower ul name, pw)"
proof -
  let ?b = "credential_block name pw"
  have l: "length ?b = 128" using assms(2,3) by (simp add: credential_block_def)
  have d1: "put_at (replicate 256 0) 0 (take 128 ?b) = ?b @ replicate 128 0"
    using l by (simp add: put_at_conv)
  have "bytes_at 0x5E 14 (?b @ replicate 128 0) = name @ replicate (14 - length name) 0"
    "bytes_at 0x6C 16 (?b @ replicate 128 0) = pw @ replicate (16 - length pw) 0"
    using assms(2,3) by (simp_all add: bytes_at_def credential_block_def)
  then show ?thesis
    by (simp add: decodeCredentials_def assms(1) Let_def d1 cleanBytesToString_trimmed assms(4,5))
qed

subsection \<open>The login goroutine\<close>

definition login_ok_body :: "SessionKey \<Rightarrow> byte list" where
  "login_ok_body key = le_enc 4 (LoginOkID1 key) @ le_enc 4 (LoginOkID2 key) @ replicate 8 0
     @ le_enc 4 (0x3ea :: int32) @ replicate 28 0"

lemma write_zeros_wbuf: "wbuf (write_zeros n w) = wbuf w @ replicate (4 * n) 0"
proof (induction n arbitrary: w)
  case 0
  then show ?case by simp
next
  case (Suc n)
  have "le_enc 4 (0 :: int32) = replicate 4 0" by (simp add: numeral_eq_Suc)
  then have "wbuf (write_zeros (Suc n) w) = wbuf w @ replicate 4 0 @ replicate (4 * n) 0"
    by (simp add: Suc writer_simps)
  then show ?case by (simp flip: replicate_add)
qed

lemma appends_login_ok: "appends (build_login_ok key) (login_ok_body key)"
proof -
  have z: "le_enc 4 (0 :: int32) = replicate 4 0" by (simp add: numeral_eq_Suc)
  have r: "replicate 8 (0 :: byte) = replicate 4 0 @ replicate 4 0"
    "replicate 28 (0 :: byte) = replicate 4 0 @ replicate 4 0 @ replicate 4 0 @ replicate 16 0"
    by (simp_all flip: replicate_add)
  show ?thesis
    by (simp add: appends_def build_login_ok_def login_ok_body_def Let_def write_zeros_wbuf writer_simps z r)
qed

lemma length_login_ok_body [simp]: "length (login_ok_body key) = 48"
  by (simp add: login_ok_body_def)

text \<open>Every path through a login is over after the six phases.\<close>

fun phases_left :: "login_pc \<Rightarrow> nat" where
  "phases_left (LQueued b1 b2) = 6"
| "phases_left (LDecode b1 b2) = 5"
| "phases_left (LAuthenticate u p) = 4"
| "phases_left (LRegister u row) = 3"
| "phases_left (LKick u row) = 2"
| "phases_left (LFinish u row) = 1"
| "phases_left LDone = 0"

lemma finally_send_done: "finally_send m = Ok (pc, s) \<Longrightarrow> pc = LDone"
  by (cases m) (auto simp: finally_send_def)

lemma login_advance_decreases:
  "login_advance env auth km k pc s = Ok (pc', s') \<Longrightarrow> phases_left pc' \<le> phases_left pc - 1"
  by (cases pc)
    (auto simp: login_advance_def login_decode_def login_authenticate_def login_register_def login_kick_def
        login_finish_def Let_def bind_outcome_Ok_iff dest!: finally_send_done
      split: outcome.splits option.splits prod.splits if_splits)

lemma login_run_left:
  "login_run n env auth km k pc s = Ok (pc', s') \<Longrightarrow> phases_left pc' \<le> phases_left pc - n"
proof (induction n arbitrary: pc s)
  case 0
  then show ?case by simp
next
  case (Suc n)
  then obtain pc1 s1 where "login_advance env auth km k pc s = Ok (pc1, s1)" "login_run n env auth km k pc1 s1 = Ok (pc', s')"
    by (auto simp: bind_outcome_Ok_iff)
  with login_advance_decreases [of env auth km k pc s pc1 s1] Suc.IH [of pc1 s1] show ?case by simp
qed

lemma phases_left_0: "phases_left pc = 0 \<Longrightarrow> pc = LDone"
  by (cases pc) auto

lemma login_run_LDone [simp]: "login_run n env auth km k LDone s = Ok (LDone, s)"
  by (induction n) (simp_all add: login_advance_def)

lemma login_run_done: "login_run 6 env auth km k (LQueued b1 b2) s = Ok (pc, s') \<Longrightarrow> pc = LDone"
  using login_run_left [of 6 env auth km k "LQueued b1 b2" s pc s'] by (auto intro: phases_left_0)

definition logged_in :: "gostring \<Rightarrow> FindAccountRow \<Rightarrow> Client \<Rightarrow> Client" where
  "logged_in u row c = (SetAccount u (c\<lparr>c_AccountID := row_ID row\<rparr>))
     \<lparr>c_State := StateAuthedLogin, c_LastServer := row_LastServer row\<rparr>"

lemma logged_in_simps [simp]:
  "c_State (logged_in u row c) = StateAuthedLogin" "c_Account (logged_in u row c) = u"
  "c_AccountID (logged_in u row c) = row_ID row" "c_LastServer (logged_in u row c) = row_LastServer row"
  "c_SessionKey (logged_in u row c) = c_SessionKey c" "c_Crypt (logged_in u row c) = c_Crypt c"
  "c_SessionID (logged_in u row c) = c_SessionID c"
  by (simp_all add: logged_in_def SetAccount_def)

lemma processLogin_success:
  assumes "objs s k = Some c" "\<not> writeFails env" "active (registry s) u = None"
    and "decodeCredentials (uniLower env) (c_ScrambledKey c) b1 b2 = Ok (u, p)"
    and "Authenticate (authEnv env) auth u p (c_RemoteIP c) (db s) = (Ok row, d)"
  obtains out where "client_reads (c_Crypt c) out (ServerLoginOK # login_ok_body (c_SessionKey c))"
    "processLogin env auth km k b1 b2 s = Ok (emit (Sent k out) (set_client k (after_send (logged_in u row c))
       (s\<lparr>db := d, metrics := (metrics s)\<lparr>LoginSuccess := LoginSuccess (metrics s) + 1\<rparr>,
          bans := ResetAttempts (c_RemoteAddr c) (bans s),
          registry := Register (now env) u (c_SessionID c) (snd (TryRegister (now env) u (registry s)))\<rparr>)))"
proof -
  obtain R where tr: "TryRegister (now env) u (registry s) = ((False, True), R)"
    using assms(3) by (simp add: TryRegister_def)
  let ?s1 = "s\<lparr>db := d, metrics := (metrics s)\<lparr>LoginSuccess := LoginSuccess (metrics s) + 1\<rparr>,
    bans := ResetAttempts (c_RemoteAddr c) (bans s), registry := Register (now env) u (c_SessionID c) R\<rparr>"
  let ?s2 = "set_client k (logged_in u row c) ?s1"
  obtain out where out: "SendAsync env k ServerLoginOK (build_login_ok (c_SessionKey c)) (logged_in u row c) ?s2
      = Ok (None, emit (Sent k out) (set_client k (after_send (logged_in u row c)) ?s2))"
    "client_reads (c_Crypt (logged_in u row c)) out (ServerLoginOK # login_ok_body (c_SessionKey c))"
    by (rule SendAsync_Ok [OF appends_login_ok [of "c_SessionKey c"] _ assms(2), of k ServerLoginOK "logged_in u row c" ?s2]) simp
  have fin: "login_finish env k u row (s\<lparr>db := d, metrics := (metrics s)\<lparr>LoginSuccess := LoginSuccess (metrics s) + 1\<rparr>, registry := R\<rparr>)
      = Ok (LDone, emit (Sent k out) (set_client k (after_send (logged_in u row c)) ?s1))"
    using out(1) assms(1) by (simp add: login_finish_def Let_def client_of_def logged_in_def SetAccount_def finally_send_def)
  have "processLogin env auth km k b1 b2 s = Ok (emit (Sent k out) (set_client k (after_send (logged_in u row c)) ?s1))"
    using assms(1,4,5) tr fin
    by (simp add: processLogin_def numeral_eq_Suc login_advance_def login_decode_def client_of_def
        login_authenticate_def login_register_def Let_def)
  with out(2) show thesis by (intro that [of out]) (simp_all add: tr)
qed

lemma processLogin_failure:
  assumes "objs s k = Some c" "\<not> writeFails env"
    and "decodeCredentials (uniLower env) (c_ScrambledKey c) b1 b2 = Ok (u, p)"
    and "Authenticate (authEnv env) auth u p (c_RemoteIP c) (db s) = (Error e, d)"
  obtains out where
    "client_reads (c_Crypt c) out (if e = ErrAccountBanned then [ServerLoginBanned, 0x20]
       else [ServerLoginFail, getFailReasonFromError e])"
    "processLogin env auth km k b1 b2 s = Ok (emit (SentThenClose k out) (set_client k (after_send c)
       (s\<lparr>db := d, metrics := failCounter e (metrics s), bans := fst (RecordFailure (now env) (c_RemoteAddr c) (bans s)),
          banCmds := banCmds s @ snd (RecordFailure (now env) (c_RemoteAddr c) (bans s))\<rparr>)))"
proof -
  obtain B cmds where rf: "RecordFailure (now env) (c_RemoteAddr c) (bans s) = (B, cmds)" by force
  let ?s1 = "s\<lparr>db := d, metrics := failCounter e (metrics s), bans := B, banCmds := banCmds s @ cmds\<rparr>"
  let ?op = "if e = ErrAccountBanned then ServerLoginBanned else ServerLoginFail"
  let ?code = "if e = ErrAccountBanned then 0x20 else getFailReasonFromError e"
  obtain out where out: "SendAndCloseAsync env k ?op (WriteByte ?code) c ?s1
      = Ok (None, emit (SentThenClose k out) (set_client k (after_send c) ?s1))"
    "client_reads (c_Crypt c) out (?op # [?code])"
    by (rule SendAndCloseAsync_Ok [OF appends_write(1) [of ?code] _ assms(2), of k ?op c ?s1]) simp
  have "login_authenticate env auth k u p s = Ok (LDone, emit (SentThenClose k out) (set_client k (after_send c) ?s1))"
    using out(1) assms(1,4) rf
    by (simp add: login_authenticate_def client_of_def Let_def finally_send_def sendLoginFail_def split: if_splits)
  then have "processLogin env auth km k b1 b2 s = Ok (emit (SentThenClose k out) (set_client k (after_send c) ?s1))"
    using assms(1,3)
    by (simp add: processLogin_def numeral_eq_Suc login_advance_def login_decode_def client_of_def)
  with out(2) show thesis by (intro that [of out]) (auto simp: rf)
qed

end
