(* ===== verification/Client_Session.thy ===== *)
theory Client_Session
  imports Client_Flow
begin

text \<open>
  A client's session as a run of the whole server: the connection is opened, GameGuard is answered,
  the login goroutine runs to its end, the server list is delivered, a server is chosen and the
  game server validates the token. Every part is one event of \<open>Login_Server\<close>, described on its
  accepting branch; the properties compose them, and the runs also witness the properties of all
  reachable states.
\<close>

section \<open>Runs\<close>

fun run :: "Setup \<Rightarrow> (Env \<times> event) list \<Rightarrow> LoginServer \<Rightarrow> LoginServer outcome" where
  "run su [] s = Ok s"
| "run su ((env, ev) # evs) s = bind_outcome (handle_event su env ev s) (run su evs)"

fun run_enabled :: "Setup \<Rightarrow> (Env \<times> event) list \<Rightarrow> LoginServer \<Rightarrow> bool" where
  "run_enabled su [] s = True"
| "run_enabled su ((env, ev) # evs) s \<longleftrightarrow>
     enabled su env ev s \<and> post (handle_event su env ev s) (run_enabled su evs)"

fun run_history :: "Setup \<Rightarrow> (Env \<times> event) list \<Rightarrow> LoginServer \<Rightarrow> history" where
  "run_history su [] s = {}"
| "run_history su ((env, ev) # evs) s = accepted su env ev s \<union>
     (case handle_event su env ev s of Ok s' \<Rightarrow> run_history su evs s' | _ \<Rightarrow> {})"

lemma run_append: "run su (xs @ ys) s = bind_outcome (run su xs s) (run su ys)"
proof (induction xs arbitrary: s)
  case Nil
  then show ?case by simp
next
  case (Cons x xs)
  then show ?case by (cases x, cases "handle_event su (fst x) (snd x) s") simp_all
qed

lemma run_append_Ok: "run su xs s = Ok s1 \<Longrightarrow> run su (xs @ ys) s = run su ys s1"
  by (simp add: run_append)

lemma run_enabled_append:
  "run su xs s = Ok s1 \<Longrightarrow> run_enabled su (xs @ ys) s \<longleftrightarrow> run_enabled su xs s \<and> run_enabled su ys s1"
proof (induction xs arbitrary: s)
  case Nil
  then show ?case by simp
next
  case (Cons x xs)
  then show ?case by (cases x) (auto simp: bind_outcome_Ok_iff)
qed

lemma run_history_append:
  "run su xs s = Ok s1 \<Longrightarrow> run_history su (xs @ ys) s = run_history su xs s \<union> run_history su ys s1"
proof (induction xs arbitrary: s)
  case Nil
  then show ?case by simp
next
  case (Cons x xs)
  then show ?case by (cases x) (auto simp: bind_outcome_Ok_iff)
qed

lemma run_reach:
  "reach su s0 H s \<Longrightarrow> run_enabled su evs s \<Longrightarrow> run su evs s = Ok s' \<Longrightarrow> reach su s0 (H \<union> run_history su evs s) s'"
proof (induction evs arbitrary: H s)
  case Nil
  then show ?case by simp
next
  case (Cons x evs)
  obtain env ev where x: "x = (env, ev)" by force
  with Cons.prems(3) obtain s1 where s1: "handle_event su env ev s = Ok s1" "run su evs s1 = Ok s'"
    by (auto simp: bind_outcome_Ok_iff)
  then have "reach su s0 ((H \<union> accepted su env ev s) \<union> run_history su evs s1) s'"
    using Cons.prems x by (intro Cons.IH) (auto intro: reach.step)
  then show ?case by (simp add: x s1(1) Un_assoc)
qed

text \<open>Only opening a connection has a precondition besides the collation of the database.\<close>

fun opens :: "event \<Rightarrow> bool" where
  "opens (EvOpen k ip rnd) = True"
| "opens (EvGsOpen k ip) = True"
| "opens _ = False"

lemma run_enabled_no_open:
  "list_all (\<lambda>(env, ev). pglower (authEnv env) = su_lower su \<and> \<not> opens ev) evs \<Longrightarrow> run_enabled su evs s"
  by (induction evs arbitrary: s) (auto simp: enabled_def post_def split: event.split)

lemma run_enabled_first:
  "enabled su env ev s \<Longrightarrow> list_all (\<lambda>(env, ev). pglower (authEnv env) = su_lower su \<and> \<not> opens ev) evs \<Longrightarrow>
   run_enabled su ((env, ev) # evs) s"
  by (simp add: post_def run_enabled_no_open)

section \<open>A connection is opened\<close>

definition init_body :: "int32 \<Rightarrow> byte list \<Rightarrow> byte list \<Rightarrow> byte list" where
  "init_body sessionID modulus secretKey =
     ServerInit # le_enc 4 sessionID @ le_enc 4 (0x0000c621 :: int32) @ modulus
       @ le_enc 4 (0x29DD954E :: uint32) @ le_enc 4 (0x77C39CFC :: uint32)
       @ le_enc 4 (0x97ADB620 :: uint32) @ le_enc 4 (0x07BDE0F7 :: uint32) @ secretKey @ [0]"

lemma appends_init: "appends (build_init sid m key) (init_body sid m key)"
  by (simp add: appends_def build_init_def init_body_def writer_simps Let_def)

lemma length_init_body [simp]: "length (init_body sid m key) = length m + length key + 26"
  by (simp add: init_body_def)

text \<open>The cipher with which a client reads the Init packet.\<close>

definition static_crypt :: Crypt where
  "static_crypt = \<lparr>cipher = staticCipher, updatedKey = False\<rparr>"

lemma open_client_Ok:
  assumes "length (Modulus sk) = 128" "length (GetRandomBlowFishKey (loginCryptKeys s) (scast sid)) = 16"
  obtains out where
    "client_reads static_crypt out (init_body sid (Modulus sk) (GetRandomBlowFishKey (loginCryptKeys s) (scast sid)))"
    "open_client env k ip addr sid key sk s = Ok (ActNone, emit (Sent k out)
       ((set_client k (Touch (now env) (new_client ip addr sid key sk (GetRandomBlowFishKey (loginCryptKeys s) (scast sid)))) s)
        \<lparr>clients := insert k (clients s), metrics := (metrics s)\<lparr>ActiveConnections := ActiveConnections (metrics s) + 1,
           ConnectionTotal := ConnectionTotal (metrics s) + 1\<rparr>\<rparr>))"
proof -
  let ?key = "GetRandomBlowFishKey (loginCryptKeys s) (scast sid)"
  let ?body = "init_body sid (Modulus sk) ?key"
  define w where "w = build_init sid (Modulus sk) ?key (GetPacketWriter (pooled env))"
  have wb: "wbuf w = [0, 0] @ ?body"
    using appends_init by (simp add: w_def appends_def writer_simps)
  obtain cr w3 where e: "Encrypt (xorKey env) static_crypt w = (cr, w3)" by force
  have l: "2 \<le> length (wbuf w)" "length (wbuf w) \<le> 65535" using assms by (simp_all add: wb)
  have st: "EncryptStatic (xorKey env) w = w3"
    using EncryptStatic_conv [OF l(1)] e by (simp add: static_crypt_def)
  note en = Encrypt_correct [OF l e]
  then have l2: "2 \<le> length (wbuf w3)" using wb by (metis (no_types) length_take min.absorb_iff2 l(1))
  have l3: "length (wbuf w3) \<le> 65535" using en assms by (simp add: wb)
  obtain w4 where w4: "PrependLength w3 = Ok w4"
    "wbuf w4 = le_enc 2 (of_nat (length (wbuf w3)) :: uint16) @ drop 2 (wbuf w3)"
    by (rule PrependLength_Ok [OF l2 l3])
  have "length (wbuf w4) = length (wbuf w3)" using l2 by (simp add: w4(2))
  then have "client_reads static_crypt (wbuf w4) ?body"
    using en l3 assms by (simp add: client_reads_def w4(2) wb del: le_enc.simps)
  moreover have "open_client env k ip addr sid key sk s = Ok (ActNone, emit (Sent k (wbuf w4))
       ((set_client k (Touch (now env) (new_client ip addr sid key sk ?key)) s)
        \<lparr>clients := insert k (clients s), metrics := (metrics s)\<lparr>ActiveConnections := ActiveConnections (metrics s) + 1,
           ConnectionTotal := ConnectionTotal (metrics s) + 1\<rparr>\<rparr>))"
    by (simp add: open_client_def Let_def w_def [symmetric] st w4(1))
  ultimately show thesis by (rule that)
qed


text \<open>The event of an accepted connection: \<open>addr\<close> passes the limiter and is not banned.\<close>

definition addr_of :: "Env \<Rightarrow> gostring \<Rightarrow> Addr" where
  "addr_of env ip = (case ParseAddr (parse6 (authEnv env)) ip of None \<Rightarrow> AddrZero | Some a \<Rightarrow> a)"

definition admitted_client :: "Env \<Rightarrow> gostring \<Rightarrow> byte list option \<Rightarrow> LoginServer \<Rightarrow> SessionKey \<Rightarrow> ScrambledKey \<Rightarrow> bool" where
  "admitted_client env ip rnd s key sk \<longleftrightarrow>
     fst (Allow (now env) (addr_of env ip) (limiter s)) \<and> \<not> fst (IsBanned (now env) (now env) (addr_of env ip) (bans s))
     \<and> GenerateSessionKey rnd = Ok key \<and> GetScrambledKey (rsaPool s) (rsaIdx s) = Ok (sk, rsaIdx s + 1)
     \<and> length (Modulus sk) = 128 \<and> wf_keys (loginCryptKeys s)"

definition session_id :: "Env \<Rightarrow> LoginServer \<Rightarrow> int32" where
  "session_id env s = fst (generateSessionID (now env) s)"

definition accepted_object :: "Env \<Rightarrow> gostring \<Rightarrow> SessionKey \<Rightarrow> ScrambledKey \<Rightarrow> LoginServer \<Rightarrow> Client" where
  "accepted_object env ip key sk s =
     Touch (now env) (new_client ip (addr_of env ip) (session_id env s) key sk
       (GetRandomBlowFishKey (loginCryptKeys s) (scast (session_id env s))))"

lemma open_event:
  assumes "admitted_client env ip rnd s key sk"
  obtains out where
    "client_reads static_crypt out (init_body (session_id env s) (Modulus sk)
       (GetRandomBlowFishKey (loginCryptKeys s) (scast (session_id env s))))"
    "handle_event su env (EvOpen k ip rnd) s = Ok (emit (Sent k out)
       ((set_client k (accepted_object env ip key sk s) s)
        \<lparr>limiter := snd (Allow (now env) (addr_of env ip) (limiter s)),
         bans := fst (snd (IsBanned (now env) (now env) (addr_of env ip) (bans s))),
         banCmds := banCmds s @ snd (snd (IsBanned (now env) (now env) (addr_of env ip) (bans s))),
         globalSessionID := globalSessionID s + 1, rsaIdx := rsaIdx s + 1, clients := insert k (clients s),
         metrics := (metrics s)\<lparr>ActiveConnections := ActiveConnections (metrics s) + 1,
           ConnectionTotal := ConnectionTotal (metrics s) + 1\<rparr>\<rparr>))"
proof -
  note a = assms [unfolded admitted_client_def]
  obtain lim where lim: "Allow (now env) (addr_of env ip) (limiter s) = (True, lim)" using a by (metis prod.collapse)
  obtain bs cmds where b: "IsBanned (now env) (now env) (addr_of env ip) (bans s) = (False, bs, cmds)"
    using a by (metis prod.collapse)
  let ?s = "s\<lparr>limiter := lim, bans := bs, banCmds := banCmds s @ cmds, globalSessionID := globalSessionID s + 1,
    rsaIdx := rsaIdx s + 1\<rparr>"
  have sid: "session_id env s = (globalSessionID s + 1) XOR word_of_int (now env)"
    by (simp add: session_id_def generateSessionID_def Let_def)
  have len: "length (GetRandomBlowFishKey (loginCryptKeys ?s) (scast (session_id env s))) = 16"
    using a by (simp add: length_GetRandomBlowFishKey)
  have m: "length (Modulus sk) = 128" using a by blast
  show thesis
  proof (rule open_client_Ok [OF m len, of env k ip "addr_of env ip" key])
    fix out
    assume "client_reads static_crypt out (init_body (session_id env s) (Modulus sk)
        (GetRandomBlowFishKey (loginCryptKeys ?s) (scast (session_id env s))))"
    then have r: "client_reads static_crypt out (init_body (session_id env s) (Modulus sk)
        (GetRandomBlowFishKey (loginCryptKeys s) (scast (session_id env s))))" by simp
    let ?s' = "emit (Sent k out) ((set_client k (accepted_object env ip key sk s) ?s)\<lparr>clients := insert k (clients s),
      metrics := (metrics s)\<lparr>ActiveConnections := ActiveConnections (metrics s) + 1,
        ConnectionTotal := ConnectionTotal (metrics s) + 1\<rparr>\<rparr>)"
    assume "open_client env k ip (addr_of env ip) (session_id env s) key sk ?s = Ok (ActNone, emit (Sent k out)
       ((set_client k (Touch (now env) (new_client ip (addr_of env ip) (session_id env s) key sk
           (GetRandomBlowFishKey (loginCryptKeys ?s) (scast (session_id env s))))) ?s)
        \<lparr>clients := insert k (clients ?s), metrics := (metrics ?s)\<lparr>ActiveConnections := ActiveConnections (metrics ?s) + 1,
           ConnectionTotal := ConnectionTotal (metrics ?s) + 1\<rparr>\<rparr>))"
    then have o: "open_client env k ip (addr_of env ip) (session_id env s) key sk ?s = Ok (ActNone, ?s')"
      by (simp add: accepted_object_def)
    have "OnOpen env k ip rnd s = open_client env k ip (addr_of env ip) (session_id env s) key sk ?s"
      unfolding OnOpen_def addr_of_def [symmetric] using lim b a
      by (simp add: generateSessionID_def Let_def sid)
    then have "handle_event su env (EvOpen k ip rnd) s = Ok ?s'" by (simp add: o)
    with r show thesis
      by (intro that [of out]) (simp_all add: lim b set_client_def emit_def)
  qed
qed


section \<open>Packets of the client\<close>

lemma client_registry_nth [simp]:
  "client_registry cfg km env ! unat ClientAuthGG = Some (AuthGG env)"
  "client_registry cfg km env ! unat ClientLogin = Some (HandleLogin env)"
  "client_registry cfg km env ! unat ClientServerList = Some (HandleServerList env km)"
  "client_registry cfg km env ! unat ClientGameServerLogin = Some (GameServerLogin (lc_handoffTTL cfg) env)"
  by (simp_all add: client_registry_def RegisterHandler_def NewRegistry_def Let_def ClientAuthGG_def ClientLogin_def
      ClientServerList_def ClientGameServerLogin_def)

text \<open>A single packet that its handler accepts.\<close>

lemma packet_event:
  assumes "objs s k = Some c" "length body + 3 \<le> 65535" "8 dvd length body + 1"
    and "client_registry (su_listener su) (main_kicker env) env ! unat opcode = Some h"
    and "h k c \<lparr>rbuf = body, rpos = 0\<rparr> s = Ok (None, s1)" "objs s1 k = Some c1"
  shows "handle_event su env (EvTraffic k (Some (client_packet (c_Crypt c) (opcode # body)))) s
    = Ok (set_client k (Touch (now env) c1) s1)"
proof -
  let ?reg = "client_registry (su_listener su) (main_kicker env) env"
  have nil: "client_frames env ?reg k [] s' = Ok (ActNone, s')" for s'
    by (simp add: client_frames.simps [of env ?reg k "[]"])
  have "Handle ?reg k (client_of k s) opcode \<lparr>rbuf = body, rpos = 0\<rparr> s = Ok (None, s1)"
    using assms(1,4,5) by (simp add: Handle_def client_of_def)
  with client_frames_packet [where s = s and k = k and cr = "c_Crypt c" and plain = "opcode # body" and rest = "[]"
      and env = env and reg = ?reg and opcode = opcode and body = body]
  have "client_frames env ?reg k (client_packet (c_Crypt c) (opcode # body)) s
      = Ok (ActNone, set_client k (Touch (now env) c1) s1)"
    using assms(1-3,6) by (simp add: client_of_def nil)
  then show ?thesis using assms(1) by (simp add: OnTraffic_def)
qed

lemma gg_event:
  assumes "objs s k = Some c" "length rest \<le> 60000" "8 dvd length rest + 5" "\<not> writeFails env"
  obtains out where
    "client_reads (c_Crypt c) out (ServerAuthGG # le_enc 4 (c_SessionID c))"
    "handle_event su env (EvTraffic k (Some (client_packet (c_Crypt c) (ClientAuthGG # le_enc 4 (c_SessionID c) @ rest)))) s
      = Ok (emit (Sent k out) (set_client k (Touch (now env) (after_send (c\<lparr>c_State := StateAuthedGG\<rparr>))) s))"
proof -
  obtain out where gg: "AuthGG env k c \<lparr>rbuf = le_enc 4 (c_SessionID c) @ rest, rpos = 0\<rparr> s
      = Ok (None, emit (Sent k out) (set_client k (after_send (c\<lparr>c_State := StateAuthedGG\<rparr>)) s))"
    "client_reads (c_Crypt c) out (ServerAuthGG # le_enc 4 (c_SessionID c))"
    by (rule AuthGG_accepts [OF assms(4), of k c rest s])
  have "handle_event su env (EvTraffic k (Some (client_packet (c_Crypt c) (ClientAuthGG # le_enc 4 (c_SessionID c) @ rest)))) s
      = Ok (set_client k (Touch (now env) (after_send (c\<lparr>c_State := StateAuthedGG\<rparr>)))
          (emit (Sent k out) (set_client k (after_send (c\<lparr>c_State := StateAuthedGG\<rparr>)) s)))"
    using assms(2,3) by (intro packet_event [OF assms(1), where h = "AuthGG env"] gg(1)) (simp_all add: add.commute)
  with gg(2) show thesis by (intro that) simp_all
qed

lemma login_event:
  assumes "objs s k = Some c" "c_State c = StateAuthedGG"
    and "length b1 = 128" "pred_option (\<lambda>b. length b = 128) b2"
    and "length rest < 128" "length rest mod 8 = 7"
  shows "handle_event su env (EvTraffic k (Some (client_packet (c_Crypt c)
      (ClientLogin # b1 @ (case b2 of None \<Rightarrow> [] | Some b \<Rightarrow> b) @ rest)))) s
    = Ok ((set_client k (Touch (now env) c) s)\<lparr>pendingLogins := pendingLogins s @ [(k, LQueued b1 b2)]\<rparr>)"
proof -
  let ?b = "case b2 of None \<Rightarrow> [] | Some b \<Rightarrow> b"
  have b: "length ?b = (if b2 = None then 0 else 128)" using assms(4) by (cases b2) simp_all
  have "length (b1 @ ?b @ rest) + 1 = (if b2 = None then 16 else 32) * 8 + (length rest + 1)" using assms(3) b by simp
  moreover have "8 dvd length rest + 1" using assms(6) by presburger
  ultimately have d: "8 dvd length (b1 @ ?b @ rest) + 1" by (metis dvd_add dvd_triv_right)
  have "HandleLogin env k c \<lparr>rbuf = b1 @ ?b @ rest, rpos = 0\<rparr> s
      = Ok (None, s\<lparr>pendingLogins := pendingLogins s @ [(k, LQueued b1 b2)]\<rparr>)"
    using assms(3-5) by (cases b2) (simp_all add: HandleLogin_accepts [OF assms(2)])
  from packet_event [OF assms(1) _ d, where h = "HandleLogin env", OF _ _ this] assms(1,3,5) b show ?thesis
    by (simp add: set_client_def)
qed


section \<open>The login goroutine\<close>

lemma login_step_at:
  assumes "pendingLogins s = P @ [(k, pc)]" "is_queued pc \<Longrightarrow> running s < su_workers su"
    and "login_advance env (lc_auth (su_listener su)) (main_kicker env) k pc s = Ok (pc', s')"
    and "pendingLogins s' = P @ [(k, pc)]"
  shows "handle_event su env (EvLogin (length P)) s
    = Ok (s'\<lparr>pendingLogins := P @ (if pc' = LDone then [] else [(k, pc')])\<rparr>)"
  using assms by (auto simp: login_step_def Let_def)

text \<open>The state after a successful login, and its steps as events of the server.\<close>

definition login_effect ::
    "gotime \<Rightarrow> gotime \<Rightarrow> conn \<Rightarrow> Client \<Rightarrow> gostring \<Rightarrow> FindAccountRow \<Rightarrow> database \<Rightarrow> LoginServer \<Rightarrow> LoginServer" where
  "login_effect t t' k c u row d s =
     (set_client k (after_send (logged_in u row c)) s)
       \<lparr>db := d, metrics := (metrics s)\<lparr>LoginSuccess := LoginSuccess (metrics s) + 1\<rparr>,
        bans := ResetAttempts (c_RemoteAddr c) (bans s),
        registry := Register t' u (c_SessionID c) (snd (TryRegister t u (registry s)))\<rparr>"

lemma login_finish_Ok:
  assumes "objs s k = Some c" "\<not> writeFails env"
  obtains out where "client_reads (c_Crypt c) out (ServerLoginOK # login_ok_body (c_SessionKey c))"
    "login_finish env k u row s = Ok (LDone, emit (Sent k out) ((set_client k (after_send (logged_in u row c)) s)
       \<lparr>bans := ResetAttempts (c_RemoteAddr c) (bans s), registry := Register (now env) u (c_SessionID c) (registry s)\<rparr>))"
proof -
  let ?s1 = "s\<lparr>bans := ResetAttempts (c_RemoteAddr c) (bans s), registry := Register (now env) u (c_SessionID c) (registry s)\<rparr>"
  let ?s2 = "set_client k (logged_in u row c) ?s1"
  obtain out where out: "SendAsync env k ServerLoginOK (build_login_ok (c_SessionKey c)) (logged_in u row c) ?s2
      = Ok (None, emit (Sent k out) (set_client k (after_send (logged_in u row c)) ?s2))"
    "client_reads (c_Crypt (logged_in u row c)) out (ServerLoginOK # login_ok_body (c_SessionKey c))"
    by (rule SendAsync_Ok [OF appends_login_ok [of "c_SessionKey c"] _ assms(2), of k ServerLoginOK "logged_in u row c" ?s2]) simp
  have "login_finish env k u row s = Ok (LDone, emit (Sent k out) (set_client k (after_send (logged_in u row c)) ?s1))"
    using out(1) assms(1) by (simp add: login_finish_def Let_def client_of_def logged_in_def SetAccount_def finally_send_def)
  moreover have "set_client k (after_send (logged_in u row c)) ?s1
      = (set_client k (after_send (logged_in u row c)) s)\<lparr>bans := ResetAttempts (c_RemoteAddr c) (bans s),
          registry := Register (now env) u (c_SessionID c) (registry s)\<rparr>"
    by (rule LoginServer.equality) (simp_all add: set_client_def)
  ultimately show thesis using out(2) by (intro that [of out]) simp_all
qed

lemma login_events:
  assumes "pendingLogins s = P @ [(k, LQueued b1 b2)]" "running s < su_workers su" "objs s k = Some c"
    and "decodeCredentials (uniLower e2) (c_ScrambledKey c) b1 b2 = Ok (u, p)"
    and "Authenticate (authEnv e3) (lc_auth (su_listener su)) u p (c_RemoteIP c) (db s) = (Ok row, d)"
    and "active (registry s) u = None" "\<not> writeFails e5"
  obtains out where "client_reads (c_Crypt c) out (ServerLoginOK # login_ok_body (c_SessionKey c))"
    "run su (map (\<lambda>env. (env, EvLogin (length P))) [e1, e2, e3, e4, e5]) s
       = Ok (emit (Sent k out) ((login_effect (now e4) (now e5) k c u row d s)\<lparr>pendingLogins := P\<rparr>))"
    "run_history su (map (\<lambda>env. (env, EvLogin (length P))) [e1, e2, e3, e4, e5]) s = {(k, u, row)}"
proof -
  let ?auth = "lc_auth (su_listener su)" and ?ev = "EvLogin (length P)"
  let ?s1 = "s\<lparr>pendingLogins := P @ [(k, LDecode b1 b2)]\<rparr>"
  let ?s2 = "s\<lparr>pendingLogins := P @ [(k, LAuthenticate u p)]\<rparr>"
  let ?m = "(metrics s)\<lparr>LoginSuccess := LoginSuccess (metrics s) + 1\<rparr>"
  let ?s3 = "s\<lparr>pendingLogins := P @ [(k, LRegister u row)], db := d, metrics := ?m\<rparr>"
  obtain R where tr: "TryRegister (now e4) u (registry s) = ((False, True), R)"
    using assms(6) by (simp add: TryRegister_def)
  let ?s4 = "s\<lparr>pendingLogins := P @ [(k, LFinish u row)], db := d, metrics := ?m, registry := R\<rparr>"
  have h1: "handle_event su e1 ?ev s = Ok ?s1"
    using login_step_at [OF assms(1), of su e1 "LDecode b1 b2" s] assms(1,2) by (simp add: login_advance_def)
  have h2: "handle_event su e2 ?ev ?s1 = Ok ?s2"
    using login_step_at [of ?s1 P k "LDecode b1 b2" su e2 "LAuthenticate u p" ?s1] assms(3,4)
    by (simp add: login_advance_def login_decode_def client_of_def)
  have h3: "handle_event su e3 ?ev ?s2 = Ok ?s3"
    using login_step_at [of ?s2 P k "LAuthenticate u p" su e3 "LRegister u row" "?s2\<lparr>db := d, metrics := ?m\<rparr>"] assms(3,5)
    by (simp add: login_advance_def login_authenticate_def client_of_def Let_def)
  have h4: "handle_event su e4 ?ev ?s3 = Ok ?s4"
    using login_step_at [of ?s3 P k "LRegister u row" su e4 "LFinish u row" "?s3\<lparr>registry := R\<rparr>"] tr
    by (simp add: login_advance_def login_register_def Let_def del: LoginServer.update_convs)
  have "objs ?s4 k = Some c" using assms(3) by simp
  from login_finish_Ok [OF this assms(7), of u row] obtain out where
    r: "client_reads (c_Crypt c) out (ServerLoginOK # login_ok_body (c_SessionKey c))"
    and f: "login_finish e5 k u row ?s4 = Ok (LDone, emit (Sent k out) ((set_client k (after_send (logged_in u row c)) ?s4)
       \<lparr>bans := ResetAttempts (c_RemoteAddr c) (bans ?s4), registry := Register (now e5) u (c_SessionID c) (registry ?s4)\<rparr>))"
    by blast
  let ?s5 = "emit (Sent k out) ((set_client k (after_send (logged_in u row c)) ?s4)
       \<lparr>bans := ResetAttempts (c_RemoteAddr c) (bans ?s4), registry := Register (now e5) u (c_SessionID c) (registry ?s4)\<rparr>)"
  have "handle_event su e5 ?ev ?s4 = Ok (?s5\<lparr>pendingLogins := P\<rparr>)"
    using login_step_at [of ?s4 P k "LFinish u row" su e5 LDone ?s5] f
    by (simp add: login_advance_def emit_def set_client_def)
  moreover have "?s5\<lparr>pendingLogins := P\<rparr>
      = emit (Sent k out) ((login_effect (now e4) (now e5) k c u row d s)\<lparr>pendingLogins := P\<rparr>)"
    by (rule LoginServer.equality) (simp_all add: login_effect_def emit_def set_client_def tr)
  ultimately have h5: "handle_event su e5 ?ev ?s4 = Ok (emit (Sent k out) ((login_effect (now e4) (now e5) k c u row d s)\<lparr>pendingLogins := P\<rparr>))"
    by simp
  have h: "run_history su (map (\<lambda>env. (env, ?ev)) [e1, e2, e3, e4, e5]) s = {(k, u, row)}"
    using h1 h2 h3 h4 h5 assms(1,3,5) by (simp add: accepted_def client_of_def)
  show thesis using r h h1 h2 h3 h4 h5 by (intro that [of out]) (simp_all del: handle_event.simps)
qed


section \<open>From the connection to the login\<close>

text \<open>
  The packets of a client that answers the Init packet: it knows the session number and the session's
  Blowfish key from there. \<open>b1\<close> and \<open>b2\<close> are the RSA blocks of its credentials; zeros fill the last
  cipher block.
\<close>

definition gg_packet :: "byte list \<Rightarrow> int32 \<Rightarrow> byte list" where
  "gg_packet bfkey sid = client_packet (NewCrypt bfkey) (ClientAuthGG # le_enc 4 sid @ replicate 19 0)"

definition login_packet :: "byte list \<Rightarrow> byte list \<Rightarrow> byte list option \<Rightarrow> byte list" where
  "login_packet bfkey b1 b2 =
     client_packet (NewCrypt bfkey) (ClientLogin # b1 @ (case b2 of None \<Rightarrow> [] | Some b \<Rightarrow> b) @ replicate 15 0)"

definition session_bfkey :: "Env \<Rightarrow> LoginServer \<Rightarrow> byte list" where
  "session_bfkey env s = GetRandomBlowFishKey (loginCryptKeys s) (scast (session_id env s))"

definition login_script ::
    "(nat \<Rightarrow> Env) \<Rightarrow> conn \<Rightarrow> gostring \<Rightarrow> byte list option \<Rightarrow> byte list \<Rightarrow> byte list option \<Rightarrow> LoginServer \<Rightarrow> (Env \<times> event) list" where
  "login_script e k ip rnd b1 b2 s =
     (e 0, EvOpen k ip rnd)
       # (e 1, EvTraffic k (Some (gg_packet (session_bfkey (e 0) s) (session_id (e 0) s))))
       # (e 2, EvTraffic k (Some (login_packet (session_bfkey (e 0) s) b1 b2)))
       # map (\<lambda>env. (env, EvLogin (length (pendingLogins s)))) [e 3, e 4, e 5, e 6, e 7]"

text \<open>What the server knows of a client after its login.\<close>

definition logged_in_client :: "gostring \<Rightarrow> FindAccountRow \<Rightarrow> SessionKey \<Rightarrow> int32 \<Rightarrow> byte list \<Rightarrow> Client \<Rightarrow> bool" where
  "logged_in_client u row key sid bfkey c \<longleftrightarrow>
     c_State c = StateAuthedLogin \<and> c_Account c = u \<and> c_AccountID c = row_ID row \<and> c_LastServer c = row_LastServer row
     \<and> c_SessionKey c = key \<and> c_SessionID c = sid \<and> cipher (c_Crypt c) = NewBlowfishCipher bfkey \<and> updatedKey (c_Crypt c)"

definition used_crypt :: "byte list \<Rightarrow> Crypt" where
  "used_crypt bfkey = \<lparr>cipher = NewBlowfishCipher bfkey, updatedKey = True\<rparr>"

lemma client_packet_cipher: "cipher cr = cipher cr' \<Longrightarrow> client_packet cr plain = client_packet cr' plain"
  by (simp add: client_packet_def)

lemma c_Touch [simp]:
  "c_State (Touch t c) = c_State c" "c_Account (Touch t c) = c_Account c" "c_AccountID (Touch t c) = c_AccountID c"
  "c_SessionKey (Touch t c) = c_SessionKey c" "c_SessionID (Touch t c) = c_SessionID c"
  "c_ScrambledKey (Touch t c) = c_ScrambledKey c" "c_Crypt (Touch t c) = c_Crypt c"
  "c_RemoteIP (Touch t c) = c_RemoteIP c" "c_RemoteAddr (Touch t c) = c_RemoteAddr c" "c_LastServer (Touch t c) = c_LastServer c"
  by (simp_all add: Touch_def)

lemma accepted_object_simps [simp]:
  "c_State (accepted_object env ip key sk s) = StateConnected"
  "c_SessionKey (accepted_object env ip key sk s) = key" "c_SessionID (accepted_object env ip key sk s) = session_id env s"
  "c_ScrambledKey (accepted_object env ip key sk s) = sk" "c_RemoteIP (accepted_object env ip key sk s) = ip"
  "c_RemoteAddr (accepted_object env ip key sk s) = addr_of env ip"
  "c_Crypt (accepted_object env ip key sk s) = NewCrypt (session_bfkey env s)"
  by (simp_all add: accepted_object_def new_client_def session_bfkey_def)

text \<open>The first three events of the script: the login is queued.\<close>

lemma login_queued:
  fixes e :: "nat \<Rightarrow> Env"
  assumes "admitted_client (e 0) ip rnd s key sk" "\<not> writeFails (e 1)"
    and "length b1 = 128" "pred_option (\<lambda>b. length b = 128) b2"
  obtains o1 o2 s1 s2 s3 c where
    "handle_event su (e 0) (EvOpen k ip rnd) s = Ok s1"
    "handle_event su (e 1) (EvTraffic k (Some (gg_packet (session_bfkey (e 0) s) (session_id (e 0) s)))) s1 = Ok s2"
    "handle_event su (e 2) (EvTraffic k (Some (login_packet (session_bfkey (e 0) s) b1 b2))) s2 = Ok s3"
    "wire s3 = wire s @ [Sent k o1, Sent k o2]"
    "client_reads static_crypt o1 (init_body (session_id (e 0) s) (Modulus sk) (session_bfkey (e 0) s))"
    "client_reads (NewCrypt (session_bfkey (e 0) s)) o2 (ServerAuthGG # le_enc 4 (session_id (e 0) s))"
    "objs s3 = (objs s)(k \<mapsto> c)" "c_Crypt c = used_crypt (session_bfkey (e 0) s)" "c_ScrambledKey c = sk"
    "c_SessionKey c = key" "c_SessionID c = session_id (e 0) s" "c_RemoteIP c = ip" "c_RemoteAddr c = addr_of (e 0) ip"
    "c_State c = StateAuthedGG" "pendingLogins s3 = pendingLogins s @ [(k, LQueued b1 b2)]" "running s3 = running s"
    "db s3 = db s" "registry s3 = registry s" "handoffs s3 = handoffs s" "serverList s3 = serverList s"
    "gservers s3 = gservers s" "gsobjs s3 = gsobjs s"
proof -
  let ?sid = "session_id (e 0) s" and ?bf = "session_bfkey (e 0) s" and ?P = "pendingLogins s"
  let ?c0 = "accepted_object (e 0) ip key sk s"
  obtain o1 s1 where o1: "client_reads static_crypt o1 (init_body ?sid (Modulus sk) ?bf)"
    and h1: "handle_event su (e 0) (EvOpen k ip rnd) s = Ok s1"
    and s1: "objs s1 = (objs s)(k \<mapsto> ?c0)" "wire s1 = wire s @ [Sent k o1]" "pendingLogins s1 = ?P" "db s1 = db s"
      "registry s1 = registry s" "handoffs s1 = handoffs s" "serverList s1 = serverList s" "gservers s1 = gservers s"
      "gsobjs s1 = gsobjs s"
    by (rule open_event [OF assms(1), of su k]) (simp add: session_bfkey_def)
  let ?c1 = "Touch (now (e 1)) (after_send (?c0\<lparr>c_State := StateAuthedGG\<rparr>))"
  have "objs s1 k = Some ?c0" by (simp add: s1)
  from gg_event [OF this, of "replicate 19 0" "e 1" su] assms(2) obtain o2 where
    o2: "client_reads (NewCrypt ?bf) o2 (ServerAuthGG # le_enc 4 ?sid)"
    and h2: "handle_event su (e 1) (EvTraffic k (Some (gg_packet ?bf ?sid))) s1 = Ok (emit (Sent k o2) (set_client k ?c1 s1))"
    by (auto simp: gg_packet_def simp del: handle_event.simps)
  let ?s2 = "emit (Sent k o2) (set_client k ?c1 s1)"
  let ?c2 = "Touch (now (e 2)) ?c1"
  have c1: "objs ?s2 k = Some ?c1" "c_State ?c1 = StateAuthedGG" by simp_all
  let ?s3 = "(set_client k ?c2 ?s2)\<lparr>pendingLogins := ?P @ [(k, LQueued b1 b2)]\<rparr>"
  have "client_packet (c_Crypt ?c1) x = client_packet (NewCrypt ?bf) x" for x
    by (rule client_packet_cipher) simp
  with login_event [OF c1 assms(3,4), of "replicate 15 0" su "e 2"]
  have h3: "handle_event su (e 2) (EvTraffic k (Some (login_packet ?bf b1 b2))) ?s2 = Ok ?s3"
    by (simp add: login_packet_def s1 del: handle_event.simps)
  have cr: "c_Crypt ?c2 = used_crypt ?bf" by (simp add: used_crypt_def NewCrypt_def after_send_def)
  show thesis
    by (rule that [OF h1 h2 h3 _ o1 o2 _ cr]) (simp_all add: s1 running_def)
qed

lemma login_script_run:
  fixes e :: "nat \<Rightarrow> Env"
  assumes "objs s k = None" "admitted_client (e 0) ip rnd s key sk" "running s < su_workers su"
    and "\<not> writeFails (e 1)" "\<not> writeFails (e 7)" "length b1 = 128" "pred_option (\<lambda>b. length b = 128) b2"
    and "decodeCredentials (uniLower (e 4)) sk b1 b2 = Ok (u, p)"
    and "Authenticate (authEnv (e 5)) (lc_auth (su_listener su)) u p ip (db s) = (Ok row, d)"
    and "active (registry s) u = None"
  obtains o1 o2 o3 s' c where
    "run su (login_script e k ip rnd b1 b2 s) s = Ok s'"
    "run_history su (login_script e k ip rnd b1 b2 s) s = {(k, u, row)}"
    "(\<And>i. i \<le> 7 \<Longrightarrow> pglower (authEnv (e i)) = su_lower su) \<Longrightarrow> run_enabled su (login_script e k ip rnd b1 b2 s) s"
    "wire s' = wire s @ [Sent k o1, Sent k o2, Sent k o3]"
    "client_reads static_crypt o1 (init_body (session_id (e 0) s) (Modulus sk) (session_bfkey (e 0) s))"
    "client_reads (NewCrypt (session_bfkey (e 0) s)) o2 (ServerAuthGG # le_enc 4 (session_id (e 0) s))"
    "client_reads (used_crypt (session_bfkey (e 0) s)) o3 (ServerLoginOK # login_ok_body key)"
    "objs s' = (objs s)(k \<mapsto> c)" "logged_in_client u row key (session_id (e 0) s) (session_bfkey (e 0) s) c"
    "registry s' = Register (now (e 7)) u (session_id (e 0) s) (snd (TryRegister (now (e 6)) u (registry s)))"
    "pendingLogins s' = pendingLogins s" "db s' = d" "handoffs s' = handoffs s" "serverList s' = serverList s"
    "gservers s' = gservers s" "gsobjs s' = gsobjs s"
proof -
  let ?sid = "session_id (e 0) s" and ?bf = "session_bfkey (e 0) s" and ?P = "pendingLogins s"
  obtain o1 o2 s1 s2 s3 c2 where h: "handle_event su (e 0) (EvOpen k ip rnd) s = Ok s1"
      "handle_event su (e 1) (EvTraffic k (Some (gg_packet ?bf ?sid))) s1 = Ok s2"
      "handle_event su (e 2) (EvTraffic k (Some (login_packet ?bf b1 b2))) s2 = Ok s3"
    and o1: "client_reads static_crypt o1 (init_body ?sid (Modulus sk) ?bf)"
    and o2: "client_reads (NewCrypt ?bf) o2 (ServerAuthGG # le_enc 4 ?sid)"
    and c2: "objs s3 = (objs s)(k \<mapsto> c2)" "c_Crypt c2 = used_crypt ?bf" "c_ScrambledKey c2 = sk" "c_SessionKey c2 = key"
      "c_SessionID c2 = ?sid" "c_RemoteIP c2 = ip"
    and s3: "wire s3 = wire s @ [Sent k o1, Sent k o2]" "pendingLogins s3 = ?P @ [(k, LQueued b1 b2)]" "running s3 = running s"
      "db s3 = db s" "registry s3 = registry s" "handoffs s3 = handoffs s" "serverList s3 = serverList s"
      "gservers s3 = gservers s" "gsobjs s3 = gsobjs s"
    by (rule login_queued [where e = e, OF assms(2,4,6,7), of su k]) blast
  have k3: "objs s3 k = Some c2" "running s3 < su_workers su" using assms(3) by (simp_all add: c2 s3)
  from s3(2) k3(2,1) obtain o3 where o3: "client_reads (used_crypt ?bf) o3 (ServerLoginOK # login_ok_body key)"
    and h4: "run su (map (\<lambda>env. (env, EvLogin (length ?P))) [e 3, e 4, e 5, e 6, e 7]) s3
       = Ok (emit (Sent k o3) ((login_effect (now (e 6)) (now (e 7)) k c2 u row d s3)\<lparr>pendingLogins := ?P\<rparr>))"
    and hist: "run_history su (map (\<lambda>env. (env, EvLogin (length ?P))) [e 3, e 4, e 5, e 6, e 7]) s3 = {(k, u, row)}"
  proof (rule login_events)
    show "decodeCredentials (uniLower (e 4)) (c_ScrambledKey c2) b1 b2 = Ok (u, p)"
      "Authenticate (authEnv (e 5)) (lc_auth (su_listener su)) u p (c_RemoteIP c2) (db s3) = (Ok row, d)"
      "active (registry s3) u = None" "\<not> writeFails (e 7)"
      using assms(5,8-10) by (simp_all add: s3 c2)
  next
    fix out assume "client_reads (c_Crypt c2) out (ServerLoginOK # login_ok_body (c_SessionKey c2))"
      "run su (map (\<lambda>env. (env, EvLogin (length ?P))) [e 3, e 4, e 5, e 6, e 7]) s3
         = Ok (emit (Sent k out) ((login_effect (now (e 6)) (now (e 7)) k c2 u row d s3)\<lparr>pendingLogins := ?P\<rparr>))"
      "run_history su (map (\<lambda>env. (env, EvLogin (length ?P))) [e 3, e 4, e 5, e 6, e 7]) s3 = {(k, u, row)}"
    then show thesis by (intro that [of out]) (simp_all add: c2)
  qed
  let ?s4 = "emit (Sent k o3) ((login_effect (now (e 6)) (now (e 7)) k c2 u row d s3)\<lparr>pendingLogins := ?P\<rparr>)"
  show thesis
  proof (rule that [of ?s4 o1 o2 o3 "after_send (logged_in u row c2)"])
    show "run su (login_script e k ip rnd b1 b2 s) s = Ok ?s4"
      using h h4 by (simp add: login_script_def del: handle_event.simps)
    show "run_history su (login_script e k ip rnd b1 b2 s) s = {(k, u, row)}"
      using h hist by (simp add: login_script_def accepted_def del: handle_event.simps)
    assume pg: "\<And>i. i \<le> 7 \<Longrightarrow> pglower (authEnv (e i)) = su_lower su"
    then have "enabled su (e 0) (EvOpen k ip rnd) s" using assms(1) by (simp add: enabled_def)
    then show "run_enabled su (login_script e k ip rnd b1 b2 s) s"
      unfolding login_script_def by (rule run_enabled_first) (use pg in simp_all)
  next
    show "logged_in_client u row key ?sid ?bf (after_send (logged_in u row c2))"
      by (simp add: logged_in_client_def c2 used_crypt_def)
    show "objs ?s4 = (objs s)(k \<mapsto> after_send (logged_in u row c2))"
      by (simp add: login_effect_def c2)
  qed (use o1 o2 o3 in \<open>simp_all add: login_effect_def s3 c2\<close>)
qed


lemma login_script_effect:
  fixes e :: "nat \<Rightarrow> Env"
  assumes "wf_registry (registry s)" "objs s k = None" "admitted_client (e 0) ip rnd s key sk" "running s < su_workers su"
    and "\<not> writeFails (e 1)" "\<not> writeFails (e 7)" "length b1 = 128" "pred_option (\<lambda>b. length b = 128) b2"
    and "decodeCredentials (uniLower (e 4)) sk b1 b2 = Ok (u, p)"
    and "Authenticate (authEnv (e 5)) (lc_auth (su_listener su)) u p ip (db s) = (Ok row, d)"
    and "active (registry s) u = None"
  shows "\<exists>s' c o1 o2 o3. run su (login_script e k ip rnd b1 b2 s) s = Ok s'
    \<and> wire s' = wire s @ [Sent k o1, Sent k o2, Sent k o3]
    \<and> client_reads static_crypt o1 (init_body (session_id (e 0) s) (Modulus sk) (session_bfkey (e 0) s))
    \<and> client_reads (NewCrypt (session_bfkey (e 0) s)) o2 (ServerAuthGG # le_enc 4 (session_id (e 0) s))
    \<and> client_reads (used_crypt (session_bfkey (e 0) s)) o3 (ServerLoginOK # login_ok_body key)
    \<and> objs s' k = Some c \<and> logged_in_client u row key (session_id (e 0) s) (session_bfkey (e 0) s) c
    \<and> Get u (registry s') = Some \<lparr>LoginTime = now (e 7), LastRejectionTime = zeroTime,
         SessionID = session_id (e 0) s, ServerID = 0\<rparr>
    \<and> pendingLogins s' = pendingLogins s \<and> db s' = d"
proof (rule login_script_run [where e = e, OF assms(2-11)])
  fix o1 o2 o3 c and s' :: LoginServer
  assume r: "registry s' = Register (now (e 7)) u (session_id (e 0) s) (snd (TryRegister (now (e 6)) u (registry s)))"
  have "wf_registry (snd (TryRegister (now (e 6)) u (registry s)))" using assms(1) by (simp add: wf_registry_ops)
  then have g: "Get u (registry s') = Some \<lparr>LoginTime = now (e 7), LastRejectionTime = zeroTime,
      SessionID = session_id (e 0) s, ServerID = 0\<rparr>"
    by (simp add: r Get_def registry_flat)
  assume "run su (login_script e k ip rnd b1 b2 s) s = Ok s'" "objs s' = (objs s)(k \<mapsto> c)"
    "wire s' = wire s @ [Sent k o1, Sent k o2, Sent k o3]"
    "client_reads static_crypt o1 (init_body (session_id (e 0) s) (Modulus sk) (session_bfkey (e 0) s))"
    "client_reads (NewCrypt (session_bfkey (e 0) s)) o2 (ServerAuthGG # le_enc 4 (session_id (e 0) s))"
    "client_reads (used_crypt (session_bfkey (e 0) s)) o3 (ServerLoginOK # login_ok_body key)"
    "logged_in_client u row key (session_id (e 0) s) (session_bfkey (e 0) s) c"
    "pendingLogins s' = pendingLogins s" "db s' = d"
  with g show ?thesis by (metis fun_upd_same)
qed

section \<open>A concrete server\<close>

text \<open>
  A server with one key of a trivial form (decryption is the identity), twenty equal Blowfish keys and
  an empty database that creates accounts, on which the properties are exercised.
\<close>

definition plain_key :: ScrambledKey where
  "plain_key = \<lparr>privateKey = \<lparr>pubN = 256 ^ 128, pubE = 1, privD = 1, prime0 = 1, prime1 = 256 ^ 128,
     precDp = 1, precDq = 1, precQinv = 1\<rparr>, Modulus = replicate 128 0\<rparr>"

lemma RSADecrypt_plain: "length b = 128 \<Longrightarrow> RSADecrypt plain_key b = Ok b"
  using SetBytes_bounds [of b] be_bytes_SetBytes [of b]
  by (auto simp: RSADecrypt_def plain_key_def RSAModulusSize_def FillBytes_def Let_def)

definition demo_cfg :: Config where
  "demo_cfg = \<lparr>cfg_Database = \<lparr>db_Host = [], db_User = [], db_Pwd = [], db_Name = [], db_SSLMode = [], db_Port = [],
      db_MaxConn = 4, db_IdleConn = 1, db_MaxLifeTime = 5, db_MaxConnIdleTime = 5\<rparr>,
     cfg_Account = \<lparr>AttemptsLoginCount = 3, AutoCreateAcc = True\<rparr>, cfg_GameServerListenerPort = [],
     cfg_ClientListenerPort = [], cfg_LoginRateLimit = 5\<rparr>"

definition demo_db :: database where
  "demo_db = \<lparr>accounts = [], ip_banned = [], next_id = 1\<rparr>"

definition demo_server :: LoginServer where
  "demo_server = boot demo_cfg (Ok []) [plain_key] (replicate 20 (replicate 16 7)) demo_db"

definition demo_setup :: Setup where
  "demo_setup = main_setup demo_cfg 4 id"

definition demo_env :: "nat \<Rightarrow> Env" where
  "demo_env i = \<lparr>now = 100000000000 + int i, pooled = newPacketWriter, xorKey = 5, writeFails = False, closeFails = False,
     authEnv = example_env, uniLower = id, uniFold = (\<lambda>a b. a = b), clientOrder = [7], serverOrder = [9]\<rparr>"

definition demo_ip :: gostring where "demo_ip = lit ''127.0.0.1''"
definition demo_name :: gostring where "demo_name = [0x62, 0x6f, 0x62]"
definition demo_pw :: gostring where "demo_pw = [0x70]"

lemma demo_simps [simp]:
  "objs demo_server = Map.empty" "pendingLogins demo_server = []" "registry demo_server = NewSessionRegistry"
  "db demo_server = demo_db" "rsaPool demo_server = [plain_key]" "rsaIdx demo_server = 0"
  "loginCryptKeys demo_server = replicate 20 (replicate 16 7)" "serverList demo_server = NewServerList"
  "handoffs demo_server = init_sessions" "gservers demo_server = {}" "gsobjs demo_server = Map.empty" "wire demo_server = []"
  "su_workers demo_setup = 8" "su_lower demo_setup = id" "lc_auth (su_listener demo_setup) = \<lparr>autoCreate = True\<rparr>"
  "lc_handoffTTL (su_listener demo_setup) = seconds 30"
  "\<not> writeFails (demo_env i)" "authEnv (demo_env i) = example_env" "running demo_server = 0"
  "pglower example_env = id" "now (demo_env i) = 100000000000 + int i" "uniLower (demo_env i) = id"
  by (simp_all add: demo_server_def boot_def demo_setup_def main_setup_def demo_cfg_def login_workers_def
      NewAuthenticator_def demo_env_def example_env_def running_def)

lemma demo_admitted:
  obtains key where "admitted_client (demo_env 0) demo_ip (Some (replicate 16 9)) demo_server key plain_key"
proof -
  have ip: "addr_of (demo_env 0) demo_ip = Addr4 127 0 0 1"
    by (simp add: addr_of_def demo_ip_def parse_localhost)
  have "fst (Allow (now (demo_env 0)) (Addr4 127 0 0 1) (limiter demo_server))"
    by (simp add: limiter.lookup_none demo_server_def boot_def demo_cfg_def Allow_def entry_of_def NewRateLimiter_def zeroEntry_def
        seconds_def Let_def)
  moreover have "\<not> fst (IsBanned t t (Addr4 127 0 0 1) m)" for t m
    by (subst loopback_exempt(2)) (simp_all add: IsLoopback_def)
  ultimately show thesis
    using that by (simp add: admitted_client_def ip GenerateSessionKey_def GetScrambledKey_def Let_def
        wf_keys_def cryptKeysSize_def plain_key_def list_all_iff)
qed


definition demo_block :: "byte list" where
  "demo_block = credential_block demo_name demo_pw"

definition demo_row :: FindAccountRow where
  "demo_row = \<lparr>row_ID = 1, row_Name = demo_name, row_Pwd = 0 # demo_pw, row_AccessLevel = 0, row_LastServer = 0, row_Banned = False\<rparr>"

lemma demo_block_length [simp]: "length demo_block = 128"
  by (simp add: demo_block_def credential_block_def demo_name_def demo_pw_def)

lemma demo_credentials: "decodeCredentials id plain_key demo_block None = Ok (demo_name, demo_pw)"
proof -
  have "RSADecrypt plain_key demo_block = Ok (credential_block demo_name demo_pw)"
    by (simp add: RSADecrypt_plain flip: demo_block_def)
  moreover have "ToLower id demo_name = demo_name"
    by (simp add: ToLower_def demo_name_def ascii_def lower_byte_def)
  ultimately show ?thesis
    by (subst decode_one_block) (simp_all add: demo_name_def demo_pw_def trimmed_def blank_def)
qed

lemma demo_authenticate:
  obtains d where "Authenticate example_env \<lparr>autoCreate = True\<rparr> demo_name demo_pw demo_ip demo_db = (Ok demo_row, d)"
  by (rule that) (simp add: Authenticate_def FindAccount_def example_env_def demo_db_def createAccount_def
      RegisterAccount_def demo_row_def Let_def)

lemma demo_wf: "wf_registry (registry demo_server)" "wf_db (su_lower demo_setup) demo_db" "active (registry demo_server) demo_name = None"
  by (simp_all add: wf_registry_ops wf_db_def demo_db_def) (simp add: NewSessionRegistry_def reg.lookup_none)

lemma demo_login:
  obtains s' c key where "reach demo_setup demo_server {(7, demo_name, demo_row)} s'"
    "objs s' = [7 \<mapsto> c]" "logged_in_client demo_name demo_row key (session_id (demo_env 0) demo_server)
       (session_bfkey (demo_env 0) demo_server) c"
    "handoffs s' = init_sessions" "serverList s' = NewServerList" "gservers s' = {}" "gsobjs s' = Map.empty"
proof -
  obtain key where k: "admitted_client (demo_env 0) demo_ip (Some (replicate 16 9)) demo_server key plain_key"
    by (rule demo_admitted)
  obtain d where d: "Authenticate example_env \<lparr>autoCreate = True\<rparr> demo_name demo_pw demo_ip demo_db = (Ok demo_row, d)"
    by (rule demo_authenticate)
  let ?evs = "login_script demo_env 7 demo_ip (Some (replicate 16 9)) demo_block None demo_server"
  show thesis
  proof (rule login_script_run [where e = demo_env and s = demo_server and k = 7 and ip = demo_ip and su = demo_setup
        and ?b1.0 = demo_block and ?b2.0 = None and u = demo_name and p = demo_pw, OF _ k])
    fix o1 o2 o3 c and s' :: LoginServer
    assume r: "run demo_setup ?evs demo_server = Ok s'" "run_history demo_setup ?evs demo_server = {(7, demo_name, demo_row)}"
      "(\<And>i. i \<le> 7 \<Longrightarrow> pglower (authEnv (demo_env i)) = su_lower demo_setup) \<Longrightarrow> run_enabled demo_setup ?evs demo_server"
    have "run_enabled demo_setup ?evs demo_server" by (rule r(3)) simp
    from run_reach [OF reach.start this r(1)] have "reach demo_setup demo_server {(7, demo_name, demo_row)} s'"
      by (simp add: r(2))
    moreover assume "objs s' = (objs demo_server)(7 \<mapsto> c)"
      "logged_in_client demo_name demo_row key (session_id (demo_env 0) demo_server) (session_bfkey (demo_env 0) demo_server) c"
      "handoffs s' = handoffs demo_server" "serverList s' = serverList demo_server" "gservers s' = gservers demo_server"
      "gsobjs s' = gsobjs demo_server"
    ultimately show thesis by (intro that [of s' c key]) simp_all
  qed (use d demo_credentials demo_wf in simp_all)
qed

section \<open>Properties\<close>

text \<open>
  C1: a client with valid credentials gets in. From any state in which the connection is new, the
  limiter and the ban list admit its address, a worker is free and the account has no session, the
  script of the official client (connect, answer GameGuard, send the encrypted credentials) followed
  by five steps of its login goroutine, each at a time of its own, runs to the end without error.
  The client receives exactly three packets, which it decodes, with the static key and
  then with the key of the first packet, to the Init packet, the GameGuard confirmation and LoginOK
  with its session identifiers; the server then holds it as logged in under the account's name and
  number, the registry lists the session, and no goroutine is left over.
\<close>

theorem login_served:
  fixes e :: "nat \<Rightarrow> Env"
  assumes "wf_registry (registry s)" "objs s k = None" "admitted_client (e 0) ip rnd s key sk" "running s < su_workers su"
    and "\<not> writeFails (e 1)" "\<not> writeFails (e 7)" "length b1 = 128" "pred_option (\<lambda>b. length b = 128) b2"
    and "decodeCredentials (uniLower (e 4)) sk b1 b2 = Ok (u, p)"
    and "Authenticate (authEnv (e 5)) (lc_auth (su_listener su)) u p ip (db s) = (Ok row, d)"
    and "active (registry s) u = None"
  shows "\<exists>s' c o1 o2 o3. run su (login_script e k ip rnd b1 b2 s) s = Ok s'
    \<and> wire s' = wire s @ [Sent k o1, Sent k o2, Sent k o3]
    \<and> client_reads static_crypt o1 (init_body (session_id (e 0) s) (Modulus sk) (session_bfkey (e 0) s))
    \<and> client_reads (NewCrypt (session_bfkey (e 0) s)) o2 (ServerAuthGG # le_enc 4 (session_id (e 0) s))
    \<and> client_reads (used_crypt (session_bfkey (e 0) s)) o3 (ServerLoginOK # login_ok_body key)
    \<and> objs s' k = Some c \<and> logged_in_client u row key (session_id (e 0) s) (session_bfkey (e 0) s) c
    \<and> Get u (registry s') = Some \<lparr>LoginTime = now (e 7), LastRejectionTime = zeroTime,
         SessionID = session_id (e 0) s, ServerID = 0\<rparr>
    \<and> pendingLogins s' = pendingLogins s \<and> db s' = d"
  using assms by (rule login_script_effect)

theorem login_served_witness:
  "\<exists>s' c. run demo_setup (login_script demo_env 7 demo_ip (Some (replicate 16 9)) demo_block None demo_server) demo_server = Ok s'
     \<and> objs s' 7 = Some c \<and> c_State c = StateAuthedLogin \<and> c_Account c = demo_name \<and> length (wire s') = 3"
proof -
  obtain key where k: "admitted_client (demo_env 0) demo_ip (Some (replicate 16 9)) demo_server key plain_key"
    by (rule demo_admitted)
  obtain d where d: "Authenticate example_env \<lparr>autoCreate = True\<rparr> demo_name demo_pw demo_ip demo_db = (Ok demo_row, d)"
    by (rule demo_authenticate)
  note served = login_served [where e = demo_env and s = demo_server and k = 7 and ip = demo_ip and su = demo_setup
      and ?b1.0 = demo_block and ?b2.0 = None and u = demo_name and p = demo_pw and row = demo_row and d = d, OF demo_wf(1) _ k]
  from d demo_credentials demo_wf(3) obtain s' c o1 o2 o3 where
    "run demo_setup (login_script demo_env 7 demo_ip (Some (replicate 16 9)) demo_block None demo_server) demo_server = Ok s'"
    "wire s' = wire demo_server @ [Sent 7 o1, Sent 7 o2, Sent 7 o3]" "objs s' 7 = Some c"
    "logged_in_client demo_name demo_row key (session_id (demo_env 0) demo_server) (session_bfkey (demo_env 0) demo_server) c"
    using served by auto
  then show ?thesis by (auto simp: logged_in_client_def)
qed

end
