(* ===== verification/Gs_Flow.thy ===== *)
theory Gs_Flow
  imports Client_Flow
begin

text \<open>
  The game server's side of the protocol: its packets travel in plain text, each reaches the handler
  of its opcode, and the replies are determined byte for byte. The handlers are described on their
  accepting branch, and a packet as one event of the server.
\<close>

section \<open>Packets in and out\<close>

definition gs_packet :: "byte list \<Rightarrow> byte list" where
  "gs_packet plain = le_enc 2 (of_nat (length plain + 2) :: uint16) @ plain"

lemma GsSend_Ok:
  assumes "appends build body" "length body \<le> 65000" "\<not> writeFails env"
  shows "GsSend env k opcode build g s
    = Ok (None, set_gs k (GsTouch (now env) g) (emit (GsSent k (gs_packet (opcode # body))) s))"
proof -
  define w where "w = build (WriteByte opcode (GetPacketWriter (pooled env)))"
  have wb: "wbuf w = [0, 0] @ opcode # body" using assms(1) by (simp add: w_def appends_def writer_simps)
  obtain w' where "PrependLength w = Ok w'" "wbuf w' = le_enc 2 (of_nat (length (wbuf w)) :: uint16) @ drop 2 (wbuf w)"
    by (rule PrependLength_Ok [of w]) (use assms(2) wb in simp_all)
  then show ?thesis
    using assms(3) by (simp add: GsSend_def Let_def w_def [symmetric] gs_packet_def wb del: le_enc.simps)
qed

lemma gs_frames_packet:
  assumes "length body + 3 \<le> 65535"
  shows "gs_frames env reg k (gs_packet (opcode # body) @ rest) s =
    (case GsHandle reg k (gs_of k s) opcode \<lparr>rbuf = body, rpos = 0\<rparr> s of
       Panic \<Rightarrow> Panic
     | Error e \<Rightarrow> Error e
     | Ok (Some e, s1) \<Rightarrow> Ok (ActClose, s1)
     | Ok (None, s1) \<Rightarrow> gs_frames env reg k rest (set_gs k (GsTouch (now env) (gs_of k s1)) s1))"
proof -
  let ?buf = "gs_packet (opcode # body) @ rest"
  have sz: "frame_size ?buf = length body + 3"
    using frame_size_enc [of "length body + 3"] assms by (simp add: gs_packet_def add.commute)
  have payload: "take (length body + 3 - 2) (drop 2 ?buf) = opcode # body"
    by (simp add: gs_packet_def)
  have dr: "drop (length body + 3) ?buf = rest" by (simp add: gs_packet_def)
  have rd: "GetPacketReader body = Ok \<lparr>rbuf = body, rpos = 0\<rparr>"
    using assms by (simp add: GetPacketReader_def MinPacketSize_def MaxPacketSize_def)
  have n: "\<not> length ?buf < 2" "\<not> length ?buf < length body + 3" "\<not> length body + 3 < 2"
    "\<not> (length body + 3 < MinPacketSize \<or> length body + 3 > MaxPacketSize)"
    using assms by (simp_all add: gs_packet_def MinPacketSize_def MaxPacketSize_def)
  have p: "opcode # body \<noteq> []" "(opcode # body) ! 0 = opcode" "drop 1 (opcode # body) = body" by simp_all
  show ?thesis
    unfolding gs_frames.simps [of env reg k ?buf s] Let_def sz payload dr p(2,3) rd
    using n by simp
qed

lemma gs_registry_nth [simp]:
  "gs_registry env ! unat GameServerAuth = Some (HandleInit env)"
  "gs_registry env ! unat PlayerInGame = Some HandlePlayerInGame"
  "gs_registry env ! unat PlayerLogout = Some HandlePlayerLogout"
  "gs_registry env ! unat PlayerAuthRequest = Some (HandleValidate env)"
  "gs_registry env ! unat ReplyCharacters = Some HandleReplyCharacters"
  "gs_registry env ! unat ServerStatusUpdate = Some HandleStatus"
  by (simp_all add: gs_registry_def RegisterGsHandler_def NewGsRegistry_def Let_def GameServerAuth_def PlayerInGame_def
      PlayerLogout_def PlayerAuthRequest_def ReplyCharacters_def ServerStatusUpdate_def)

text \<open>A single packet that its handler accepts.\<close>

lemma gs_packet_event:
  assumes "gsobjs s k = Some g" "length body + 3 \<le> 65535" "gs_registry env ! unat opcode = Some h"
    and "h k g \<lparr>rbuf = body, rpos = 0\<rparr> s = Ok (None, s1)" "gsobjs s1 k = Some g1"
  shows "handle_event su env (EvGsTraffic k (Some (gs_packet (opcode # body)))) s
    = Ok (set_gs k (GsTouch (now env) g1) s1)"
proof -
  have nil: "gs_frames env (gs_registry env) k [] s' = Ok (ActNone, s')" for s'
    by (simp add: gs_frames.simps [of env "gs_registry env" k "[]"])
  have "GsHandle (gs_registry env) k (gs_of k s) opcode \<lparr>rbuf = body, rpos = 0\<rparr> s = Ok (None, s1)"
    using assms(1,3,4) by (simp add: GsHandle_def gs_of_def)
  with gs_frames_packet [OF assms(2), of env "gs_registry env" k opcode "[]" s]
  show ?thesis using assms(1,5) by (simp add: GsOnTraffic_def gs_of_def nil)
qed

section \<open>Validation\<close>

text \<open>What a game server asks with: the account and the four identifiers the client presented to it.\<close>

definition validate_body :: "gostring \<Rightarrow> SessionKey \<Rightarrow> byte list" where
  "validate_body account key = string_enc account @ le_enc 4 (PlayOkID1 key) @ le_enc 4 (PlayOkID2 key)
     @ le_enc 4 (LoginOkID1 key) @ le_enc 4 (LoginOkID2 key)"

definition auth_response :: "gostring \<Rightarrow> bool \<Rightarrow> int32 \<Rightarrow> int64 \<Rightarrow> byte list" where
  "auth_response account success loginOkID1 accountID =
     string_enc account @ [if success then 1 else 0] @ le_enc 4 loginOkID1 @ le_enc 8 (if success then accountID else 0)"

lemma appends_auth_response: "appends (build_auth_response a su l i) (auth_response a su l i)"
  by (simp add: appends_def build_auth_response_def auth_response_def writer_simps Let_def string_enc_def)

text \<open>The answer to a request: who is validated, and under which number.\<close>

definition validates :: "Env \<Rightarrow> gostring \<Rightarrow> SessionKey \<Rightarrow> Session option \<Rightarrow> bool" where
  "validates env account key found \<longleftrightarrow>
     (\<exists>sess. found = Some sess \<and> EqualFold (uniFold env) (SAccount sess) account \<and> SKey sess = key)"

definition account_number :: "Session option \<Rightarrow> int64" where
  "account_number found = (case found of None \<Rightarrow> 0 | Some sess \<Rightarrow> SAccountID sess)"

lemma HandleValidate_reply:
  assumes "wire_string account" "length (string_enc account) \<le> 60000" "\<not> writeFails env"
    and "ValidateAndDelete (now env) (LoginOkID1 key) (handoffs s) = (found, S)"
  shows "HandleValidate env k g \<lparr>rbuf = validate_body account key, rpos = 0\<rparr> s =
    Ok (None, set_gs k (GsTouch (now env) g) (emit (GsSent k (gs_packet (PlayerAuthResponse #
      auth_response account (validates env account key found) (LoginOkID1 key) (account_number found))))
      (s\<lparr>handoffs := S\<rparr>)))"
proof -
  let ?n = "length (string_enc account)"
  let ?ids = "le_enc 4 (PlayOkID1 key) @ le_enc 4 (PlayOkID2 key) @ le_enc 4 (LoginOkID1 key) @ le_enc 4 (LoginOkID2 key)"
  let ?b = "validate_body account key"
  have r1: "ReadString \<lparr>rbuf = ?b, rpos = 0\<rparr> = Ok (account, \<lparr>rbuf = ?b, rpos = ?n\<rparr>)"
    using ReadString_enc [OF assms(1), of "[]" ?ids] by (simp add: validate_body_def)
  have r2: "ReadInt32 \<lparr>rbuf = ?b, rpos = ?n\<rparr> = Ok (PlayOkID1 key, \<lparr>rbuf = ?b, rpos = ?n + 4\<rparr>)"
    using i32_codec.read_enc [where v = "PlayOkID1 key" and xs = "string_enc account"] by (simp add: validate_body_def del: le_enc.simps)
  have r3: "ReadInt32 \<lparr>rbuf = ?b, rpos = ?n + 4\<rparr> = Ok (PlayOkID2 key, \<lparr>rbuf = ?b, rpos = ?n + 8\<rparr>)"
    using i32_codec.read_enc [where v = "PlayOkID2 key" and xs = "string_enc account @ le_enc 4 (PlayOkID1 key)"]
    by (simp add: validate_body_def add.commute del: le_enc.simps)
  have r4: "ReadInt32 \<lparr>rbuf = ?b, rpos = ?n + 8\<rparr> = Ok (LoginOkID1 key, \<lparr>rbuf = ?b, rpos = ?n + 12\<rparr>)"
    using i32_codec.read_enc [where v = "LoginOkID1 key" and xs = "string_enc account @ le_enc 4 (PlayOkID1 key) @ le_enc 4 (PlayOkID2 key)"]
    by (simp add: validate_body_def add.commute del: le_enc.simps)
  have r5: "ReadInt32 \<lparr>rbuf = ?b, rpos = ?n + 12\<rparr> = Ok (LoginOkID2 key, \<lparr>rbuf = ?b, rpos = ?n + 16\<rparr>)"
    using i32_codec.read_enc [where v = "LoginOkID2 key" and xs = "string_enc account @ le_enc 4 (PlayOkID1 key)
      @ le_enc 4 (PlayOkID2 key) @ le_enc 4 (LoginOkID1 key)" and ys = "[]"]
    by (simp add: validate_body_def add.commute del: le_enc.simps)
  have suc: "(case found of None \<Rightarrow> False | Some sess \<Rightarrow> EqualFold (uniFold env) (SAccount sess) account
      \<and> CheckPlayPair (SKey sess) (LoginOkID1 key) (LoginOkID2 key) (PlayOkID1 key) (PlayOkID2 key))
    = validates env account key found"
    by (auto simp: validates_def CheckPlayPair_iff split: option.split)
  have "length (auth_response account (validates env account key found) (LoginOkID1 key) (account_number found)) \<le> 65000"
    using assms(2) by (simp add: auth_response_def)
  from GsSend_Ok [OF appends_auth_response this assms(3), of k PlayerAuthResponse g "s\<lparr>handoffs := S\<rparr>"]
  show ?thesis
    by (simp add: HandleValidate_def r1 r2 r3 r4 r5 assms(4) suc account_number_def [symmetric])
qed


lemma gs_validate_event:
  assumes "gsobjs s k = Some g" "wire_string account" "length (string_enc account) \<le> 60000" "\<not> writeFails env"
    and "ValidateAndDelete (now env) (LoginOkID1 key) (handoffs s) = (found, S)"
  shows "handle_event su env (EvGsTraffic k (Some (gs_packet (PlayerAuthRequest # validate_body account key)))) s
    = Ok (set_gs k (GsTouch (now env) g) (emit (GsSent k (gs_packet (PlayerAuthResponse #
        auth_response account (validates env account key found) (LoginOkID1 key) (account_number found))))
        (s\<lparr>handoffs := S\<rparr>)))"
proof -
  note h = HandleValidate_reply [OF assms(2-5), of k g]
  from gs_packet_event [OF assms(1) _ gs_registry_nth(4) h] assms(3) show ?thesis
    by (simp add: validate_body_def set_gs_def GsTouch_def)
qed

section \<open>Character counts\<close>

definition chars_request :: "gostring \<Rightarrow> int64 \<Rightarrow> byte list" where
  "chars_request account accountID = gs_packet (RequestCharactersOp # string_enc account @ le_enc 8 accountID)"

lemma set_gs_emit [simp]: "set_gs k g (emit e s) = emit e (set_gs k g s)"
  by (cases s) (simp add: set_gs_def emit_def)

lemma GsSend_chars:
  assumes "length (string_enc account) \<le> 60000" "\<not> writeFails env"
  shows "GsSend env k RequestCharactersOp (\<lambda>w. WriteInt64 accountID (WriteString account w)) g s
    = Ok (None, set_gs k (GsTouch (now env) g) (emit (GsSent k (chars_request account accountID)) s))"
proof -
  have "appends (\<lambda>w. WriteInt64 accountID (WriteString account w)) (string_enc account @ le_enc 8 accountID)"
    using appends_comp [OF appends_write(4) appends_write(3)] .
  from GsSend_Ok [OF this _ assms(2)] assms(1) show ?thesis by (simp add: chars_request_def)
qed

text \<open>The request goes to every open game server connection, in the order of the map iteration.\<close>

lemma request_characters_Ok:
  assumes "length (string_enc account) \<le> 60000" "\<not> writeFails env"
  obtains s' where "request_characters env account accountID ks s = Ok s'"
    "wire s' = wire s @ map (\<lambda>k. GsSent k (chars_request account accountID)) (filter (\<lambda>k. k \<in> gservers s) ks)"
    "\<exists>G W. s' = s\<lparr>gsobjs := G, wire := W\<rparr> \<and> dom (gsobjs s) \<subseteq> dom G"
proof -
  have "\<exists>s'. request_characters env account accountID ks s = Ok s'
    \<and> wire s' = wire s @ map (\<lambda>k. GsSent k (chars_request account accountID)) (filter (\<lambda>k. k \<in> gservers s) ks)
    \<and> (\<exists>G W. s' = s\<lparr>gsobjs := G, wire := W\<rparr> \<and> dom (gsobjs s) \<subseteq> dom G)"
  proof (induction ks arbitrary: s)
    case Nil
    have "s = s\<lparr>gsobjs := gsobjs s, wire := wire s\<rparr>" by simp
    then show ?case by (intro exI [of _ s] conjI exI [of _ "gsobjs s"] exI [of _ "wire s"]) simp_all
  next
    case (Cons k ks)
    let ?s = "set_gs k (GsTouch (now env) (gs_of k s)) (emit (GsSent k (chars_request account accountID)) s)"
    show ?case
    proof (cases "k \<in> gservers s")
      case True
      obtain s' where "request_characters env account accountID ks ?s = Ok s'"
        "wire s' = wire ?s @ map (\<lambda>k. GsSent k (chars_request account accountID)) (filter (\<lambda>k. k \<in> gservers ?s) ks)"
        "\<exists>G W. s' = ?s\<lparr>gsobjs := G, wire := W\<rparr> \<and> dom (gsobjs ?s) \<subseteq> dom G"
        using Cons.IH by blast
      with True show ?thesis
        by (auto simp: GsSend_chars [OF assms] set_gs_def emit_def)
    next
      case False
      then show ?thesis using Cons.IH [of s] by simp
    qed
  qed
  with that show thesis by blast
qed

end
