(* ===== verification/Server_List_Packet.thy ===== *)
theory Server_List_Packet
  imports Gs_Flow
begin

text \<open>
  The server-list packet: its layout byte for byte, what the handler does for an admitted client, and
  what becomes of the packet when a game server has announced a host that is not an IPv4 literal.
\<close>

section \<open>Layout\<close>

definition host_octets :: "(gostring \<Rightarrow> Addr option) \<Rightarrow> Server \<Rightarrow> byte list" where
  "host_octets p6 srv = (case ParseAddr p6 (srv_IP srv) of Some a \<Rightarrow> if Is4 a then As4 a else [] | None \<Rightarrow> [])"

text \<open>A full server is shown as down.\<close>

definition shown_status :: "Server \<Rightarrow> byte" where
  "shown_status srv = (if sint (srv_CurrentPlayers srv) \<ge> sint (srv_MaxPlayers srv) then 0 else srv_Status srv)"

definition server_entry :: "(gostring \<Rightarrow> Addr option) \<Rightarrow> Server \<Rightarrow> byte list" where
  "server_entry p6 srv = [ucast (srv_ID srv)] @ host_octets p6 srv @ le_enc 4 (srv_Port srv)
     @ [0, if srv_Pvp srv then 1 else 0] @ le_enc 2 (srv_CurrentPlayers srv) @ le_enc 2 (srv_MaxPlayers srv)
     @ [shown_status srv] @ le_enc 4 (srv_ServerType srv) @ [if srv_Brackets srv then 1 else 0]"

definition count_entry :: "byte list \<Rightarrow> bool \<Rightarrow> Server \<Rightarrow> byte list" where
  "count_entry counts hasChars srv =
     [ucast (srv_ID srv), if hasChars \<and> id_in_bounds (srv_ID srv) then counts ! unat (srv_ID srv) else 0]"

definition server_list_body ::
    "(gostring \<Rightarrow> Addr option) \<Rightarrow> Server list \<Rightarrow> byte list \<Rightarrow> bool \<Rightarrow> int32 \<Rightarrow> byte list" where
  "server_list_body p6 srvs counts hasChars lastServer =
     [of_nat (length srvs), ucast lastServer] @ concat (map (server_entry p6) srvs) @ [0, 0, 0xA4, 0]
       @ concat (map (count_entry counts hasChars) srvs)"

lemma write_server_wbuf: "wbuf (write_server p6 srv w) = wbuf w @ server_entry p6 srv"
proof -
  have o: "wbuf (case ParseAddr p6 (srv_IP srv) of None \<Rightarrow> v | Some ipAddr \<Rightarrow>
      if Is4 ipAddr then let octets = As4 ipAddr
        in WriteByte (octets ! 3) (WriteByte (octets ! 2) (WriteByte (octets ! 1) (WriteByte (octets ! 0) v)))
      else v) = wbuf v @ host_octets p6 srv" for v
    by (simp add: host_octets_def Is4_def As4_def writer_simps Let_def split: option.split Addr.split)
  show ?thesis
    unfolding write_server_def server_entry_def shown_status_def Let_def writer_simps o [unfolded Let_def] by simp
qed

lemma write_servers_wbuf: "wbuf (write_servers p6 srvs w) = wbuf w @ concat (map (server_entry p6) srvs)"
  by (induction srvs arbitrary: w) (simp_all add: write_server_wbuf)

lemma write_char_counts_wbuf:
  "wbuf (write_char_counts counts hasChars srvs w) = wbuf w @ concat (map (count_entry counts hasChars) srvs)"
  by (induction srvs arbitrary: w) (simp_all add: count_entry_def Let_def writer_simps)

lemma appends_server_list:
  "appends (build_server_list p6 (GetServers L) counts hasChars lastServer)
     (server_list_body p6 (active_servers L) counts hasChars lastServer)"
proof -
  have l: "take (snap_Count (GetServers L)) (snap_Servers (GetServers L)) = active_servers L"
    using GetServers_list by (simp add: snap_list_def)
  have e: "le_enc 2 (0 :: int16) = [0, 0]" "le_enc 2 (0xA4 :: int16) = [0xA4, 0]"
    by code_simp+
  show ?thesis
    unfolding appends_def build_server_list_def Let_def l
    by (simp add: server_list_body_def write_char_counts_wbuf write_servers_wbuf writer_simps GetServers_count e
        del: le_enc.simps)
qed

lemma length_host_octets: "length (host_octets p6 srv) \<le> 4"
  by (auto simp: host_octets_def As4_def split: option.split Addr.split)

lemma length_server_entry: "length (server_entry p6 srv) = 17 + length (host_octets p6 srv)"
  by (simp add: server_entry_def)

lemma length_server_list_body:
  "length (server_list_body p6 srvs counts hasChars lastServer)
     = 6 + 19 * length srvs + sum_list (map (\<lambda>srv. length (host_octets p6 srv)) srvs)"
proof -
  have "length (concat (map (server_entry p6) srvs)) = 17 * length srvs + sum_list (map (\<lambda>srv. length (host_octets p6 srv)) srvs)"
    by (induction srvs) (simp_all add: length_server_entry)
  moreover have "length (concat (map (count_entry counts hasChars) srvs)) = 2 * length srvs"
    by (induction srvs) (simp_all add: count_entry_def)
  ultimately show ?thesis by (simp add: server_list_body_def)
qed

lemma server_list_body_small: "length (server_list_body p6 (active_servers L) counts hasChars lastServer) \<le> 1000"
proof -
  let ?srvs = "active_servers L"
  have "length ?srvs \<le> 32"
    unfolding active_servers_def length_map by (rule order_trans [OF length_filter_le]) (simp add: MaxSupportedServers_def)
  moreover have "sum_list (map (\<lambda>srv. length (host_octets p6 srv)) xs) \<le> 4 * length xs" for xs
  proof (induction xs)
    case (Cons srv xs)
    with length_host_octets [of p6 srv] show ?case by simp
  qed simp
  note this [of ?srvs]
  ultimately show ?thesis unfolding length_server_list_body by linarith
qed


section \<open>The handler\<close>

text \<open>What the login server asks of the game servers before it answers, and the list it answers with.\<close>

definition count_requests :: "Env \<Rightarrow> Client \<Rightarrow> LoginServer \<Rightarrow> wire_event list" where
  "count_requests env c s =
     (if snd (GetCharCounts (c_Account c) (serverList s)) then []
      else map (\<lambda>g. GsSent g (chars_request (c_Account c) (c_AccountID c))) (filter (\<lambda>g. g \<in> gservers s) (serverOrder env)))"

definition client_list :: "Env \<Rightarrow> Client \<Rightarrow> LoginServer \<Rightarrow> byte list" where
  "client_list env c s =
     server_list_body (parse6 (authEnv env)) (active_servers (serverList s))
       (fst (GetCharCounts (c_Account c) (serverList s))) (snd (GetCharCounts (c_Account c) (serverList s))) (c_LastServer c)"

lemma HandleServerList_accepts:
  assumes "c_State c = StateAuthedLogin" "\<not> writeFails env" "length (string_enc (c_Account c)) \<le> 60000"
  obtains out s' where
    "HandleServerList env (main_kicker env) k c
       \<lparr>rbuf = le_enc 4 (LoginOkID1 (c_SessionKey c)) @ le_enc 4 (LoginOkID2 (c_SessionKey c)) @ rest, rpos = 0\<rparr> s = Ok (None, s')"
    "objs s' = (objs s)(k \<mapsto> after_send (c\<lparr>c_State := StateServerList\<rparr>))"
    "wire s' = wire s @ count_requests env c s @ [Sent k out]"
    "client_reads (c_Crypt c) out (ServerServerList # client_list env c s)"
    "\<exists>ob G W. s' = s\<lparr>objs := ob, gsobjs := G, wire := W\<rparr> \<and> dom (gsobjs s) \<subseteq> dom G"
proof -
  let ?c = "c\<lparr>c_State := StateServerList\<rparr>" and ?s1 = "set_client k (c\<lparr>c_State := StateServerList\<rparr>) s"
  let ?r = "\<lparr>rbuf = le_enc 4 (LoginOkID1 (c_SessionKey c)) @ le_enc 4 (LoginOkID2 (c_SessionKey c)) @ rest, rpos = 0\<rparr>"
  obtain counts has where cc: "GetCharCounts (c_Account c) (serverList s) = (counts, has)" by force
  obtain s2 where s2: "(if \<not> has then RequestCharacters (main_kicker env) (c_Account c) (c_AccountID c) ?s1 else Ok ?s1) = Ok s2"
    "wire s2 = wire s @ count_requests env c s" "\<exists>G W. s2 = ?s1\<lparr>gsobjs := G, wire := W\<rparr> \<and> dom (gsobjs s) \<subseteq> dom G"
  proof (cases has)
    case True
    show thesis
      by (rule that [of ?s1]) (use True cc in \<open>auto simp: count_requests_def set_client_def
        intro!: exI [of _ "gsobjs s"] exI [of _ "wire s"]\<close>)
  next
    case False
    show thesis
    proof (rule request_characters_Ok [OF assms(3,2), of "c_AccountID c" "serverOrder env" ?s1])
      fix s' :: LoginServer
      assume "request_characters env (c_Account c) (c_AccountID c) (serverOrder env) ?s1 = Ok s'"
        "wire s' = wire ?s1 @ map (\<lambda>g. GsSent g (chars_request (c_Account c) (c_AccountID c))) (filter (\<lambda>g. g \<in> gservers ?s1) (serverOrder env))"
        "\<exists>G W. s' = ?s1\<lparr>gsobjs := G, wire := W\<rparr> \<and> dom (gsobjs ?s1) \<subseteq> dom G"
      with False cc show thesis
        by (intro that [of s']) (simp_all add: main_kicker_def RequestCharacters_def RequestCharacters_GS_def
            count_requests_def set_client_def)
    qed
  qed
  have small: "length (client_list env c s) \<le> 65000"
    using server_list_body_small [of "parse6 (authEnv env)" "serverList s" "fst (GetCharCounts (c_Account c) (serverList s))"
        "snd (GetCharCounts (c_Account c) (serverList s))" "c_LastServer c"]
    unfolding client_list_def by linarith
  have body: "appends (build_server_list (parse6 (authEnv env)) (GetServers (serverList s)) counts has (c_LastServer c)) (client_list env c s)"
    using appends_server_list by (simp add: client_list_def cc)
  obtain out where out:
    "SendAsync env k ServerServerList (build_server_list (parse6 (authEnv env)) (GetServers (serverList s)) counts has (c_LastServer c)) ?c s2
       = Ok (None, emit (Sent k out) (set_client k (after_send ?c) s2))"
    "client_reads (c_Crypt ?c) out (ServerServerList # client_list env c s)"
    by (rule SendAsync_Ok [OF body small assms(2), of k ServerServerList ?c s2])
  have h: "HandleServerList env (main_kicker env) k c ?r s = Ok (None, emit (Sent k out) (set_client k (after_send ?c) s2))"
    using assms(1) cc s2(1) out(1)
    by (cases has) (simp_all add: HandleServerList_def read_i32 CheckLoginPair_iff Let_def del: le_enc.simps)
  obtain G W where "s2 = ?s1\<lparr>gsobjs := G, wire := W\<rparr>" and dG: "dom (gsobjs s) \<subseteq> dom G" using s2(3) by blast
  then have "emit (Sent k out) (set_client k (after_send ?c) s2)
      = s\<lparr>objs := (objs s)(k \<mapsto> after_send ?c), gsobjs := G, wire := wire s2 @ [Sent k out]\<rparr>"
    by (intro LoginServer.equality) (simp_all add: emit_def set_client_def)
  with h out(2) s2(2) dG show thesis
    by (intro that [OF h]) (auto simp del: set_client_emit)
qed

end
