(* ===== verification/Play_Session.thy ===== *)
theory Play_Session
  imports Client_Session Server_List_Packet
begin

text \<open>
  From the login to the game: the client asks for the list, chooses a server, and the game server
  validates the token the client brings along. The events are described one by one and composed.
\<close>

section \<open>Choosing a server\<close>

text \<open>The session that is stored for the game server.\<close>

definition granted :: "gotime \<Rightarrow> Client \<Rightarrow> int32 \<Rightarrow> Session" where
  "granted expiry c serverID = \<lparr>ExpiresAt = expiry, SKey = c_SessionKey c, SAccount = c_Account c,
     SAccountID = c_AccountID c, SServerID = serverID\<rparr>"

definition play_ok_body :: "SessionKey \<Rightarrow> byte list" where
  "play_ok_body key = le_enc 4 (PlayOkID1 key) @ le_enc 4 (PlayOkID2 key)"

lemma grant_handoff_Ok:
  assumes "\<not> writeFails env"
  obtains out d where
    "grant_handoff ttl env k c serverID s = Ok (None, emit (Sent k out)
       ((set_client k (after_send (c\<lparr>c_LastServer := serverID\<rparr>)) s)
         \<lparr>db := d, handoffs := Put (LoginOkID1 (c_SessionKey c)) (granted (now env + ttl) c serverID) (handoffs s)\<rparr>))"
    "client_reads (c_Crypt c) out (ServerPlayOK # play_ok_body (c_SessionKey c))"
proof -
  let ?c = "c\<lparr>c_LastServer := serverID\<rparr>"
  define d where "d = (if c_LastServer c \<noteq> serverID then UpdateLastServer (authEnv env) (c_Account c) serverID (db s) else db s)"
  let ?s1 = "(set_client k ?c s)\<lparr>db := d, handoffs := Put (LoginOkID1 (c_SessionKey c)) (granted (now env + ttl) c serverID) (handoffs s)\<rparr>"
  have c1: "(if c_LastServer c \<noteq> serverID then ?c else c) = ?c" by simp
  have "appends (\<lambda>w. WriteInt32 (PlayOkID2 (c_SessionKey c)) (WriteInt32 (PlayOkID1 (c_SessionKey c)) w)) (play_ok_body (c_SessionKey c))"
    unfolding play_ok_body_def by (rule appends_comp [OF appends_write(2) appends_write(2)])
  from SendAsync_Ok [OF this _ assms, of k ServerPlayOK ?c ?s1] obtain out where
    o: "SendAsync env k ServerPlayOK (\<lambda>w. WriteInt32 (PlayOkID2 (c_SessionKey c)) (WriteInt32 (PlayOkID1 (c_SessionKey c)) w)) ?c ?s1
      = Ok (None, emit (Sent k out) (set_client k (after_send ?c) ?s1))"
    and r: "client_reads (c_Crypt c) out (ServerPlayOK # play_ok_body (c_SessionKey c))"
    by (auto simp: play_ok_body_def)
  have e: "set_client k (after_send ?c) ?s1 = (set_client k (after_send ?c) s)
      \<lparr>db := d, handoffs := Put (LoginOkID1 (c_SessionKey c)) (granted (now env + ttl) c serverID) (handoffs s)\<rparr>"
    by (rule LoginServer.equality) (simp_all add: set_client_def)
  have "grant_handoff ttl env k c serverID s = SendAsync env k ServerPlayOK
      (\<lambda>w. WriteInt32 (PlayOkID2 (c_SessionKey c)) (WriteInt32 (PlayOkID1 (c_SessionKey c)) w)) ?c ?s1"
    unfolding grant_handoff_def c1 Let_def by (simp add: d_def granted_def)
  with o e r show thesis by (intro that [of out d]) simp_all
qed

definition list_packet :: "byte list \<Rightarrow> SessionKey \<Rightarrow> byte list" where
  "list_packet bfkey key =
     client_packet (NewCrypt bfkey) (ClientServerList # le_enc 4 (LoginOkID1 key) @ le_enc 4 (LoginOkID2 key) @ replicate 7 0)"

definition choose_packet :: "byte list \<Rightarrow> SessionKey \<Rightarrow> int32 \<Rightarrow> byte list" where
  "choose_packet bfkey key serverID =
     client_packet (NewCrypt bfkey)
       (ClientGameServerLogin # le_enc 4 (LoginOkID1 key) @ le_enc 4 (LoginOkID2 key) @ le_enc 4 serverID @ replicate 3 0)"

lemma list_event:
  assumes "objs s k = Some c" "cipher (c_Crypt c) = NewBlowfishCipher bfkey" "c_State c = StateAuthedLogin"
    and "\<not> writeFails env" "length (string_enc (c_Account c)) \<le> 60000"
  obtains out s' where
    "handle_event su env (EvTraffic k (Some (list_packet bfkey (c_SessionKey c)))) s = Ok s'"
    "objs s' = (objs s)(k \<mapsto> Touch (now env) (after_send (c\<lparr>c_State := StateServerList\<rparr>)))"
    "wire s' = wire s @ count_requests env c s @ [Sent k out]"
    "client_reads (c_Crypt c) out (ServerServerList # client_list env c s)"
    "\<exists>ob G W. s' = s\<lparr>objs := ob, gsobjs := G, wire := W\<rparr> \<and> dom (gsobjs s) \<subseteq> dom G"
proof -
  let ?key = "c_SessionKey c" and ?c = "after_send (c\<lparr>c_State := StateServerList\<rparr>)"
  let ?body = "le_enc 4 (LoginOkID1 ?key) @ le_enc 4 (LoginOkID2 ?key) @ replicate 7 0"
  obtain out s1 where h: "HandleServerList env (main_kicker env) k c \<lparr>rbuf = ?body, rpos = 0\<rparr> s = Ok (None, s1)"
    "objs s1 = (objs s)(k \<mapsto> ?c)" "wire s1 = wire s @ count_requests env c s @ [Sent k out]"
    "client_reads (c_Crypt c) out (ServerServerList # client_list env c s)"
    "\<exists>ob G W. s1 = s\<lparr>objs := ob, gsobjs := G, wire := W\<rparr> \<and> dom (gsobjs s) \<subseteq> dom G"
    by (rule HandleServerList_accepts [OF assms(3-5)])
  have p: "list_packet bfkey ?key = client_packet (c_Crypt c) (ClientServerList # ?body)"
    unfolding list_packet_def using assms(2) by (intro client_packet_cipher) (simp add: NewCrypt_def)
  have "handle_event su env (EvTraffic k (Some (list_packet bfkey ?key))) s = Ok (set_client k (Touch (now env) ?c) s1)"
    unfolding p by (rule packet_event [OF assms(1), where h = "HandleServerList env (main_kicker env)" and ?s1.0 = s1])
      (use h in \<open>simp_all del: le_enc.simps\<close>)
  moreover obtain ob G W where "s1 = s\<lparr>objs := ob, gsobjs := G, wire := W\<rparr>" "dom (gsobjs s) \<subseteq> dom G"
    using h(5) by blast
  then have "set_client k (Touch (now env) ?c) s1 = s\<lparr>objs := (objs s1)(k \<mapsto> Touch (now env) ?c), gsobjs := G, wire := wire s1\<rparr>"
    by (intro LoginServer.equality) (simp_all add: set_client_def)
  ultimately show thesis
    using h(2-4) \<open>dom (gsobjs s) \<subseteq> dom G\<close> by (intro that [of "set_client k (Touch (now env) ?c) s1" out]) auto
qed


lemma choose_event:
  assumes "objs s k = Some c" "cipher (c_Crypt c) = NewBlowfishCipher bfkey" "c_State c = StateServerList"
    and "\<not> writeFails env" "0 \<le> sint serverID" "sint serverID < int MaxSupportedServers"
  obtains out s' d where
    "handle_event su env (EvTraffic k (Some (choose_packet bfkey (c_SessionKey c) serverID))) s = Ok s'"
    "objs s' = (objs s)(k \<mapsto> Touch (now env) (after_send (c\<lparr>c_LastServer := serverID\<rparr>)))"
    "wire s' = wire s @ [Sent k out]" "client_reads (c_Crypt c) out (ServerPlayOK # play_ok_body (c_SessionKey c))"
    "handoffs s' = Put (LoginOkID1 (c_SessionKey c))
       (granted (now env + lc_handoffTTL (su_listener su)) c serverID) (handoffs s)"
    "gsobjs s' = gsobjs s" "registry s' = registry s"
proof -
  let ?key = "c_SessionKey c" and ?c = "after_send (c\<lparr>c_LastServer := serverID\<rparr>)"
  let ?body = "le_enc 4 (LoginOkID1 ?key) @ le_enc 4 (LoginOkID2 ?key) @ le_enc 4 serverID @ replicate 3 0"
  let ?ttl = "lc_handoffTTL (su_listener su)"
  obtain out d where g: "grant_handoff ?ttl env k c serverID s = Ok (None, emit (Sent k out) ((set_client k ?c s)
       \<lparr>db := d, handoffs := Put (LoginOkID1 ?key) (granted (now env + ?ttl) c serverID) (handoffs s)\<rparr>))"
    "client_reads (c_Crypt c) out (ServerPlayOK # play_ok_body ?key)"
    by (rule grant_handoff_Ok [OF assms(4)])
  let ?s1 = "emit (Sent k out) ((set_client k ?c s)
       \<lparr>db := d, handoffs := Put (LoginOkID1 ?key) (granted (now env + ?ttl) c serverID) (handoffs s)\<rparr>)"
  have h: "GameServerLogin ?ttl env k c \<lparr>rbuf = ?body, rpos = 0\<rparr> s = Ok (None, ?s1)"
    using assms(3,5,6) g(1) by (simp add: GameServerLogin_def read_i32 CheckLoginPair_iff del: le_enc.simps)
  have p: "choose_packet bfkey ?key serverID = client_packet (c_Crypt c) (ClientGameServerLogin # ?body)"
    unfolding choose_packet_def using assms(2) by (intro client_packet_cipher) (simp add: NewCrypt_def)
  have "handle_event su env (EvTraffic k (Some (choose_packet bfkey ?key serverID))) s = Ok (set_client k (Touch (now env) ?c) ?s1)"
    unfolding p by (rule packet_event [OF assms(1), where h = "GameServerLogin ?ttl env" and ?s1.0 = ?s1])
      (use h in \<open>simp_all del: le_enc.simps\<close>)
  with g(2) show thesis
    by (intro that [of "set_client k (Touch (now env) ?c) ?s1" out]) simp_all
qed

section \<open>To the game server and through its validation\<close>

definition play_script ::
    "(nat \<Rightarrow> Env) \<Rightarrow> conn \<Rightarrow> conn \<Rightarrow> gostring \<Rightarrow> SessionKey \<Rightarrow> byte list \<Rightarrow> int32 \<Rightarrow> (Env \<times> event) list" where
  "play_script e k g u key bfkey serverID =
     [(e 0, EvTraffic k (Some (list_packet bfkey key))),
      (e 1, EvTraffic k (Some (choose_packet bfkey key serverID))),
      (e 2, EvGsTraffic g (Some (gs_packet (PlayerAuthRequest # validate_body u key)))),
      (e 3, EvGsTraffic g (Some (gs_packet (PlayerAuthRequest # validate_body u key))))]"

lemma validates_granted: "validates env (c_Account c) (c_SessionKey c) (Some (granted t c srv))"
  by (simp add: validates_def granted_def)

lemma play_script_effect:
  fixes e :: "nat \<Rightarrow> Env"
  assumes "wf_sessions (handoffs s)" "objs s k = Some c" "logged_in_client u row key sid bfkey c" "gsobjs s g \<noteq> None"
    and "\<And>i. i \<le> 3 \<Longrightarrow> \<not> writeFails (e i)" "wire_string u" "length (string_enc u) \<le> 60000"
    and "0 \<le> sint serverID" "sint serverID < int MaxSupportedServers"
    and "now (e 2) \<le> now (e 1) + lc_handoffTTL (su_listener su)"
  shows "\<exists>s' o1 o2. run su (play_script e k g u key bfkey serverID) s = Ok s'
    \<and> wire s' = wire s @ count_requests (e 0) c s @ [Sent k o1, Sent k o2,
        GsSent g (gs_packet (PlayerAuthResponse # auth_response u True (LoginOkID1 key) (row_ID row))),
        GsSent g (gs_packet (PlayerAuthResponse # auth_response u False (LoginOkID1 key) 0))]
    \<and> client_reads (used_crypt bfkey) o1 (ServerServerList # client_list (e 0) c s)
    \<and> client_reads (used_crypt bfkey) o2 (ServerPlayOK # play_ok_body key)
    \<and> sessions (handoffs s') = (sessions (handoffs s))(LoginOkID1 key := None)"
proof -
  let ?ttl = "lc_handoffTTL (su_listener su)" and ?id = "LoginOkID1 key"
  note l = assms(3) [unfolded logged_in_client_def]
  have cr: "c_Crypt c = used_crypt bfkey" using l by (cases "c_Crypt c") (simp add: used_crypt_def)
  have cb: "cipher (c_Crypt c) = NewBlowfishCipher bfkey" and st: "c_State c = StateAuthedLogin"
    and k: "c_SessionKey c = key" "c_Account c = u" "c_AccountID c = row_ID row" using l by simp_all
  obtain o1 s1 where e1: "handle_event su (e 0) (EvTraffic k (Some (list_packet bfkey (c_SessionKey c)))) s = Ok s1"
    and s1: "objs s1 = (objs s)(k \<mapsto> Touch (now (e 0)) (after_send (c\<lparr>c_State := StateServerList\<rparr>)))"
      "wire s1 = wire s @ count_requests (e 0) c s @ [Sent k o1]"
    and r1: "client_reads (c_Crypt c) o1 (ServerServerList # client_list (e 0) c s)"
    and f1: "\<exists>ob G W. s1 = s\<lparr>objs := ob, gsobjs := G, wire := W\<rparr> \<and> dom (gsobjs s) \<subseteq> dom G"
    by (rule list_event [OF assms(2) cb st, of "e 0" su]) (use assms(5) [of 0] assms(7) k(2) in simp_all)
  let ?c1 = "Touch (now (e 0)) (after_send (c\<lparr>c_State := StateServerList\<rparr>))"
  obtain o2 s2 d where e2: "handle_event su (e 1) (EvTraffic k (Some (choose_packet bfkey (c_SessionKey ?c1) serverID))) s1 = Ok s2"
    and s2: "wire s2 = wire s1 @ [Sent k o2]"
      "handoffs s2 = Put (LoginOkID1 (c_SessionKey ?c1)) (granted (now (e 1) + ?ttl) ?c1 serverID) (handoffs s1)"
      "gsobjs s2 = gsobjs s1"
    and r2: "client_reads (c_Crypt ?c1) o2 (ServerPlayOK # play_ok_body (c_SessionKey ?c1))"
    by (rule choose_event [of s1 k ?c1 bfkey "e 1" serverID su]) (use s1 cb assms(5) [of 1] assms(8,9) in simp_all)
  have c1: "c_SessionKey ?c1 = key" "c_Account ?c1 = u" "c_AccountID ?c1 = row_ID row" "c_Crypt ?c1 = used_crypt bfkey"
    using k cr by (simp_all add: used_crypt_def after_send_def)
  let ?sess = "granted (now (e 1) + ?ttl) ?c1 serverID"
  obtain gs where gs: "gsobjs s2 g = Some gs" using f1 s2(3) assms(4) by fastforce
  have ho: "handoffs s2 = Put ?id ?sess (handoffs s)" using s2(2) f1 c1(1) by auto
  obtain H where H: "ValidateAndDelete (now (e 2)) ?id (handoffs s2) = (Some ?sess, H)"
    using ValidateAndDelete_result [of "now (e 2)" ?id "handoffs s2"] assms(1,10)
    by (auto simp: ho sessions_ops granted_def prod_eq_iff)
  let ?s3 = "set_gs g (GsTouch (now (e 2)) gs) (emit (GsSent g (gs_packet (PlayerAuthResponse #
      auth_response u True ?id (row_ID row)))) (s2\<lparr>handoffs := H\<rparr>))"
  have e3: "handle_event su (e 2) (EvGsTraffic g (Some (gs_packet (PlayerAuthRequest # validate_body u key)))) s2 = Ok ?s3"
    using gs_validate_event [OF gs assms(6,7) assms(5) [of 2] H, of su] validates_granted [of "e 2" ?c1] c1
    by (simp add: account_number_def granted_def)
  have wH: "wf_sessions (handoffs s2)" using assms(1) by (simp add: ho wf_session_ops)
  have sH: "sessions H = (sessions (handoffs s))(?id := None)"
    using sessions_ops(3) [OF wH, of "now (e 2)" ?id] sessions_ops(2) [OF assms(1), of ?id ?sess]
    unfolding H ho [symmetric] snd_conv by simp
  then have H2: "ValidateAndDelete (now (e 3)) ?id H = (None, H)"
    by (simp add: ValidateAndDelete_def)
  have gs3: "gsobjs ?s3 g = Some (GsTouch (now (e 2)) gs)" by simp
  let ?s4 = "set_gs g (GsTouch (now (e 3)) (GsTouch (now (e 2)) gs)) (emit (GsSent g (gs_packet (PlayerAuthResponse #
      auth_response u False ?id 0))) (?s3\<lparr>handoffs := H\<rparr>))"
  have e4: "handle_event su (e 3) (EvGsTraffic g (Some (gs_packet (PlayerAuthRequest # validate_body u key)))) ?s3 = Ok ?s4"
    using gs_validate_event [OF gs3 assms(6,7) assms(5) [of 3], where key = key and su = su and found = None and S = H] H2
    by (simp add: account_number_def validates_def emit_def set_gs_def auth_response_def)
  have "run su (play_script e k g u key bfkey serverID) s = Ok ?s4"
    using e1 e2 e3 e4 c1(1) k(1) by (simp add: play_script_def del: handle_event.simps)
  moreover have "wire ?s4 = wire s @ count_requests (e 0) c s @ [Sent k o1, Sent k o2,
        GsSent g (gs_packet (PlayerAuthResponse # auth_response u True ?id (row_ID row))),
        GsSent g (gs_packet (PlayerAuthResponse # auth_response u False ?id 0))]"
    using s1(2) s2(1) by (simp add: emit_def set_gs_def)
  moreover have "sessions (handoffs ?s4) = (sessions (handoffs s))(?id := None)"
    using sH by (simp add: emit_def set_gs_def)
  ultimately show ?thesis using r1 r2 c1 cr by auto
qed

end
