(* ===== verification/Server_Safety.thy ===== *)
theory Server_Safety
  imports Play_Session
begin

text \<open>
  What holds in every state the server reaches, and what a whole session achieves: the properties of
  the composed program, each witnessed by a concrete run of the demo server.
\<close>

section \<open>Concrete runs\<close>

lemma demo_ready:
  obtains s c key where "reach demo_setup demo_server {(7, demo_name, demo_row)} s"
    "objs s 7 = Some c" "logged_in_client demo_name demo_row key (session_id (demo_env 0) demo_server)
       (session_bfkey (demo_env 0) demo_server) c"
    "wf_sessions (handoffs s)" "gsobjs s 9 \<noteq> None"
proof -
  obtain s c key where r: "reach demo_setup demo_server {(7, demo_name, demo_row)} s" "objs s = [7 \<mapsto> c]"
    "logged_in_client demo_name demo_row key (session_id (demo_env 0) demo_server) (session_bfkey (demo_env 0) demo_server) c"
    "handoffs s = init_sessions" "gsobjs s = Map.empty"
    by (rule demo_login)
  let ?s = "snd (GsOnOpen (demo_env 8) 9 [] s)"
  have "enabled demo_setup (demo_env 8) (EvGsOpen 9 []) s" by (simp add: enabled_def r(5))
  from reach.step [OF r(1) this, of ?s] have "reach demo_setup demo_server {(7, demo_name, demo_row)} ?s"
    by (simp add: accepted_def)
  with r(2-5) show thesis
    by (intro that [of ?s c key]) (simp_all add: GsOnOpen_def set_gs_def Let_def wf_session_ops)
qed

lemma demo_name_wire: "wire_string demo_name" "length (string_enc demo_name) \<le> 60000"
proof -
  have n: "utf8_runes demo_name = [0x62, 0x6f, 0x62]"
    by (simp add: demo_name_def decode_rune_def utf8_runes.simps)
  show "wire_string demo_name"
    by (simp add: wire_string_def n) (simp add: demo_name_def utf8_enc_def utf8_enc1_def scalar_def)
  show "length (string_enc demo_name) \<le> 60000"
    by (simp add: string_enc_def n utf16_bytes_def utf16_units_def)
qed

lemma demo_granted:
  obtains H s sess t where "reach demo_setup demo_server H s"
    "fst (ValidateAndDelete t (LoginOkID1 (SKey sess)) (handoffs s)) = Some sess"
proof -
  obtain s c key where r: "reach demo_setup demo_server {(7, demo_name, demo_row)} s" "objs s 7 = Some c"
    "logged_in_client demo_name demo_row key (session_id (demo_env 0) demo_server) (session_bfkey (demo_env 0) demo_server) c"
    "wf_sessions (handoffs s)"
    by (rule demo_ready)
  let ?bf = "session_bfkey (demo_env 0) demo_server" and ?H = "{(7, demo_name, demo_row)}"
  let ?c1 = "Touch (now (demo_env 8)) (after_send (c\<lparr>c_State := StateServerList\<rparr>))"
  have l: "cipher (c_Crypt c) = NewBlowfishCipher ?bf" "c_State c = StateAuthedLogin" "c_Account c = demo_name"
    using r(3) by (simp_all add: logged_in_client_def)
  have len: "length (string_enc (c_Account c)) \<le> 60000" by (simp add: l(3) demo_name_wire(2))
  obtain o1 s1 where e1: "handle_event demo_setup (demo_env 8) (EvTraffic 7 (Some (list_packet ?bf (c_SessionKey c)))) s = Ok s1"
    "objs s1 = (objs s)(7 \<mapsto> ?c1)" "\<exists>ob G W. s1 = s\<lparr>objs := ob, gsobjs := G, wire := W\<rparr> \<and> dom (gsobjs s) \<subseteq> dom G"
    by (rule list_event [OF r(2) l(1,2) _ len, of "demo_env 8" demo_setup]) simp_all
  obtain o2 s2 d where e2: "handle_event demo_setup (demo_env 9) (EvTraffic 7 (Some (choose_packet ?bf (c_SessionKey ?c1) 1))) s1 = Ok s2"
    "handoffs s2 = Put (LoginOkID1 (c_SessionKey ?c1)) (granted (now (demo_env 9) + seconds 30) ?c1 1) (handoffs s1)"
    by (rule choose_event [of s1 7 ?c1 ?bf "demo_env 9" 1 demo_setup]) (use e1(2) l(1) in \<open>simp_all add: MaxSupportedServers_def\<close>)
  have en: "enabled demo_setup (demo_env i) (EvTraffic 7 x) s'" for i x s' by (simp add: enabled_def)
  have "reach demo_setup demo_server (?H \<union> {}) s1" using reach.step [OF r(1) en e1(1)] by (simp add: accepted_def)
  from reach.step [OF this en e2(1)] have "reach demo_setup demo_server ?H s2" by (simp add: accepted_def)
  moreover have "wf_sessions (handoffs s1)" using r(4) e1(3) by auto
  then have "sessions (handoffs s2) (LoginOkID1 (c_SessionKey ?c1)) = Some (granted (now (demo_env 9) + seconds 30) ?c1 1)"
    by (simp add: e2(2) sessions_ops)
  then have "fst (ValidateAndDelete 0 (LoginOkID1 (SKey (granted (now (demo_env 9) + seconds 30) ?c1 1))) (handoffs s2))
      = Some (granted (now (demo_env 9) + seconds 30) ?c1 1)"
    by (simp add: ValidateAndDelete_result granted_def seconds_def)
  ultimately show thesis by (rule that)
qed

section \<open>Safety of all reachable states\<close>

text \<open>
  C3: nobody is logged in without authentication. In every state the server reaches from start-up,
  by any sequence of connections, packets, closes, ticks and goroutine steps, a client whose state
  says that it is logged in carries the account name and the account number of a login on this very
  connection for which \<open>Authenticate\<close> succeeded.
\<close>

theorem logged_in_means_authenticated:
  assumes "reach su (boot cfg loaded pool keys d) H s" "wf_db (su_lower su) d"
    and "objs s k = Some c" "c_State c = StateAuthedLogin \<or> c_State c = StateServerList"
  shows "\<exists>row. (k, c_Account c, row) \<in> H \<and> c_AccountID c = row_ID row
    \<and> (\<exists>(env :: Env) p ip d'. pglower (authEnv env) = su_lower su
         \<and> fst (Authenticate (authEnv env) (lc_auth (su_listener su)) (c_Account c) p ip d') = Ok row)"
proof -
  have "auth_ok H k c"
    using inv_auth_ok [OF reach_inv [OF assms(1) boot_inv [OF assms(2)]] assms(3)] by blast
  then obtain row where "(k, c_Account c, row) \<in> H" "c_AccountID c = row_ID row"
    using assms(4) by (auto simp: auth_ok_def authed_def)
  with history_authenticated [OF assms(1)] show ?thesis by blast
qed

theorem logged_in_means_authenticated_witness:
  "\<exists>s H c. reach demo_setup demo_server H s \<and> objs s 7 = Some c \<and> c_State c = StateAuthedLogin
     \<and> (\<exists>row. (7, c_Account c, row) \<in> H \<and> c_AccountID c = row_ID row)"
proof -
  obtain s c key where r: "reach demo_setup demo_server {(7, demo_name, demo_row)} s" "objs s = [7 \<mapsto> c]"
    "logged_in_client demo_name demo_row key (session_id (demo_env 0) demo_server) (session_bfkey (demo_env 0) demo_server) c"
    by (rule demo_login)
  have "objs s 7 = Some c" "c_State c = StateAuthedLogin" using r(2,3) by (simp_all add: logged_in_client_def)
  with logged_in_means_authenticated [OF r(1) [unfolded demo_server_def] demo_wf(2) this(1)]
  show ?thesis using r(1) by blast
qed

text \<open>
  C4: a handoff is only ever granted to an authenticated account. In every reachable state, whenever
  a session can be taken out of the handoff store, under whatever identifier and at whatever time,
  its account and account number are those of a successful login on a connection of the server,
  its key is that connection's session key, and the identifier is the key's first login identifier.
\<close>

theorem handoff_means_authenticated:
  assumes "reach su (boot cfg loaded pool keys d) H s" "wf_db (su_lower su) d"
    and "ValidateAndDelete t i (handoffs s) = (Some sess, S)"
  shows "\<exists>k row c. (k, SAccount sess, row) \<in> H \<and> SAccountID sess = row_ID row
    \<and> objs s k = Some c \<and> c_SessionKey c = SKey sess \<and> i = LoginOkID1 (SKey sess)"
proof -
  have inv: "server_inv su H s" by (rule reach_inv [OF assms(1) boot_inv [OF assms(2)]])
  have "sessions (handoffs s) i = Some sess"
    using ValidateAndDelete_result [of t i "handoffs s"] assms(3) by (auto split: option.splits if_splits)
  with inv show ?thesis by (simp add: inv_defs handoff_ok_def)
qed

theorem handoff_means_authenticated_witness:
  "\<exists>s H sess k row. reach demo_setup demo_server H s \<and> sessions (handoffs s) (LoginOkID1 (SKey sess)) = Some sess
     \<and> (k, SAccount sess, row) \<in> H \<and> SAccountID sess = row_ID row"
proof -
  obtain H s sess t where r: "reach demo_setup demo_server H s"
    "fst (ValidateAndDelete t (LoginOkID1 (SKey sess)) (handoffs s)) = Some sess"
    by (rule demo_granted)
  obtain S where v: "ValidateAndDelete t (LoginOkID1 (SKey sess)) (handoffs s) = (Some sess, S)"
    using r(2) by (metis prod.collapse)
  have "sessions (handoffs s) (LoginOkID1 (SKey sess)) = Some sess"
    using r(2) by (auto simp: ValidateAndDelete_result split: option.splits if_splits)
  with handoff_means_authenticated [OF r(1) [unfolded demo_server_def] demo_wf(2) v] r(1) show ?thesis by blast
qed

text \<open>
  C9: the services stay well-formed. In every reachable state the shards of the session store, the
  registry and the limiter hold only keys that hash to them, the server table has its size and
  active slots carry their own number, recorded login failures are below the ban threshold, and
  account names and banned addresses are unique in the database.
\<close>

theorem services_stay_well_formed:
  assumes "reach su (boot cfg loaded pool keys d) H s" "wf_db (su_lower su) d"
  shows "wf_sessions (handoffs s) \<and> wf_registry (registry s) \<and> wf_servers (serverList s)
    \<and> wf_bans (bans s) \<and> wf_limiter (limiter s) \<and> wf_db (su_lower su) (db s)"
  using reach_inv [OF assms(1) boot_inv [OF assms(2)]] by (simp add: inv_defs)

theorem services_stay_well_formed_witness:
  "\<exists>s H. reach demo_setup demo_server H s \<and> H \<noteq> {} \<and> wf_registry (registry s) \<and> wf_db id (db s)"
proof -
  obtain s c key where r: "reach demo_setup demo_server {(7, demo_name, demo_row)} s" "objs s = [7 \<mapsto> c]"
    "logged_in_client demo_name demo_row key (session_id (demo_env 0) demo_server) (session_bfkey (demo_env 0) demo_server) c"
    by (rule demo_login)
  from services_stay_well_formed [OF r(1) [unfolded demo_server_def] demo_wf(2)] r(1) show ?thesis
    by (intro exI [of _ s] exI [of _ "{(7, demo_name, demo_row)}"]) simp
qed

section \<open>A whole session\<close>

text \<open>
  C2: a logged-in client gets to its game server, once. The client asks for the list, chooses a
  server and connects to it; the game server asks for validation within the lifetime of the handoff,
  and then asks a second time with the very same token. The client receives the server list and
  PlayOK with its two identifiers; the game server receives a positive answer with the account number
  of the login, and for the replay a negative one without it; the session is gone, all others are
  as before.
\<close>

theorem play_served:
  fixes e :: "nat \<Rightarrow> Env"
  assumes "wf_sessions (handoffs s)" "objs s k = Some c" "logged_in_client u row key sid bfkey c" "gsobjs s g \<noteq> None"
    and "\<And>i. i \<le> 3 \<Longrightarrow> \<not> writeFails (e i)" "wire_string u" "length (string_enc u) \<le> 60000"
    and "0 \<le> sint serverID" "sint serverID < int MaxSupportedServers"
    and "now (e 2) \<le> now (e 1) + lc_handoffTTL (su_listener su)"
  shows "\<exists>s' o1 o2. run su (play_script e k g u key bfkey serverID) s = Ok s'
    \<and> wire s' = wire s @ count_requests (e 0) c s @ [Sent k o1, Sent k o2,
        GsSent g (gs_packet (PlayerAuthResponse # auth_response u True (LoginOkID1 key) (row_ID row))),
        GsSent g (gs_packet (PlayerAuthResponse # auth_response u False (LoginOkID1 key) 0))]
    \<and> client_reads (used_crypt bfkey) o1 (ServerServerList # client_list (e 0) c s)
    \<and> client_reads (used_crypt bfkey) o2 (ServerPlayOK # play_ok_body key)
    \<and> sessions (handoffs s') = (sessions (handoffs s))(LoginOkID1 key := None)"
  using assms by (rule play_script_effect)

theorem play_served_witness:
  "\<exists>s s' key. reach demo_setup demo_server {(7, demo_name, demo_row)} s
     \<and> run demo_setup (play_script demo_env 7 9 demo_name key (session_bfkey (demo_env 0) demo_server) 1) s = Ok s'
     \<and> GsSent 9 (gs_packet (PlayerAuthResponse # auth_response demo_name True (LoginOkID1 key) 1)) \<in> set (wire s')"
proof -
  obtain s c key where r: "reach demo_setup demo_server {(7, demo_name, demo_row)} s" "objs s 7 = Some c"
    "logged_in_client demo_name demo_row key (session_id (demo_env 0) demo_server) (session_bfkey (demo_env 0) demo_server) c"
    "wf_sessions (handoffs s)" "gsobjs s 9 \<noteq> None"
    by (rule demo_ready)
  have "\<exists>s' o1 o2. run demo_setup (play_script demo_env 7 9 demo_name key (session_bfkey (demo_env 0) demo_server) 1) s = Ok s'
    \<and> wire s' = wire s @ count_requests (demo_env 0) c s @ [Sent 7 o1, Sent 7 o2,
        GsSent 9 (gs_packet (PlayerAuthResponse # auth_response demo_name True (LoginOkID1 key) (row_ID demo_row))),
        GsSent 9 (gs_packet (PlayerAuthResponse # auth_response demo_name False (LoginOkID1 key) 0))]
    \<and> client_reads (used_crypt (session_bfkey (demo_env 0) demo_server)) o1 (ServerServerList # client_list (demo_env 0) c s)
    \<and> client_reads (used_crypt (session_bfkey (demo_env 0) demo_server)) o2 (ServerPlayOK # play_ok_body key)
    \<and> sessions (handoffs s') = (sessions (handoffs s))(LoginOkID1 key := None)"
    by (rule play_served [OF r(4,2,3,5)]) (use demo_name_wire in \<open>simp_all add: MaxSupportedServers_def seconds_def\<close>)
  then have "\<exists>s'. run demo_setup (play_script demo_env 7 9 demo_name key (session_bfkey (demo_env 0) demo_server) 1) s = Ok s'
     \<and> GsSent 9 (gs_packet (PlayerAuthResponse # auth_response demo_name True (LoginOkID1 key) (row_ID demo_row))) \<in> set (wire s')"
    by fastforce
  moreover have "row_ID demo_row = 1" by (simp add: demo_row_def)
  ultimately show ?thesis using r(1) by auto
qed

end
