(* ===== verification/Handler_Relation.thy ===== *)
theory Handler_Relation
  imports Server_Invariant
begin

text \<open>
  What the handlers leave alone, proved once for every relation between states that is closed under
  the few ways in which handlers write: anything outside the protected part of the state, client
  objects that keep their identity, and the queue of logins, which only grows. The locale walks
  through all handlers, listeners and login phases; its interpretations yield that connections keep
  their identity, that the limiter and the key pools stay, and that handlers never start a worker.
\<close>

type_synonym identity = "Addr \<times> gostring \<times> ScrambledKey \<times> SessionKey \<times> int32 \<times> BlowfishCipher"

definition ident :: "Client \<Rightarrow> identity" where
  "ident c = (c_RemoteAddr c, c_RemoteIP c, c_ScrambledKey c, c_SessionKey c, c_SessionID c, cipher (c_Crypt c))"

definition idents :: "LoginServer \<Rightarrow> conn \<rightharpoonup> identity" where
  "idents s = (\<lambda>k. map_option ident (objs s k))"

definition protected_parts :: "LoginServer \<Rightarrow> (conn \<rightharpoonup> Client) \<times> (conn \<times> login_pc) list \<times> RateLimiter
    \<times> ScrambledKey list \<times> uint32 \<times> byte list list \<times> int32" where
  "protected_parts s = (objs s, pendingLogins s, limiter s, rsaPool s, rsaIdx s, loginCryptKeys s, globalSessionID s)"

lemma idents_cong: "objs s' = objs s \<Longrightarrow> idents s' = idents s"
  by (simp add: idents_def)

lemma ident_crypt: "cipher cr = cipher (c_Crypt c) \<Longrightarrow> ident (c\<lparr>c_Crypt := cr\<rparr>) = ident c"
  by (simp add: ident_def)

lemma ident_updates [simp]:
  "ident (c\<lparr>c_State := st\<rparr>) = ident c" "ident (c\<lparr>c_LastServer := l\<rparr>) = ident c" "ident (c\<lparr>c_Account := a\<rparr>) = ident c"
  "ident (c\<lparr>c_AccountID := i\<rparr>) = ident c" "ident (Touch t c) = ident c" "ident (SetAccount a c) = ident c"
  by (simp_all add: ident_def Touch_def SetAccount_def)

lemma protected_simps [simp]:
  "protected_parts (emit e s) = protected_parts s" "protected_parts (set_gs k g s) = protected_parts s"
  "protected_parts (s\<lparr>registry := x0\<rparr>) = protected_parts s"
  "protected_parts (s\<lparr>serverList := x1\<rparr>) = protected_parts s"
  "protected_parts (s\<lparr>bans := x2\<rparr>) = protected_parts s"
  "protected_parts (s\<lparr>banCmds := x3\<rparr>) = protected_parts s"
  "protected_parts (s\<lparr>db := x4\<rparr>) = protected_parts s"
  "protected_parts (s\<lparr>metrics := x5\<rparr>) = protected_parts s"
  "protected_parts (s\<lparr>handoffs := x6\<rparr>) = protected_parts s"
  "protected_parts (s\<lparr>clients := x7\<rparr>) = protected_parts s"
  "protected_parts (s\<lparr>gservers := x8\<rparr>) = protected_parts s"
  by (simp_all add: protected_parts_def emit_def set_gs_def)

lemma build_packet_ident: "post (build_packet env opcode build c) (\<lambda>(out, c'). ident c' = ident c)"
proof -
  have "cipher (fst (Encrypt k cr w)) = cipher cr" for k cr w
    by (auto simp: Encrypt_def Let_def split: prod.split)
  then have "Encrypt k cr w = (cr', w') \<Longrightarrow> cipher cr' = cipher cr" for k cr w cr' w'
    by (metis fst_conv)
  then show ?thesis
    by (auto simp: build_packet_def Let_def ident_crypt split: prod.split intro: post_mono [OF post_True])
qed

text \<open>Every event but those that touch the protected part themselves.\<close>

fun handled_event :: "event \<Rightarrow> bool" where
  "handled_event (EvOpen k ip rnd) = False"
| "handled_event (EvLogin i) = False"
| "handled_event EvLimiterCleanup = False"
| "handled_event _ = True"

text \<open>What \<open>HandleLogin\<close> puts into the queue: one or two blocks of the size the RSA key takes.\<close>

fun fresh_login :: "login_pc \<Rightarrow> bool" where
  "fresh_login (LQueued b1 b2) = (length b1 = 128 \<and> pred_option (\<lambda>b. length b = 128) b2)"
| "fresh_login _ = False"

lemma fresh_queued: "fresh_login pc \<Longrightarrow> is_queued pc"
  by (cases pc) simp_all

lemma readLoginBlocks_fresh: "readLoginBlocks r = Ok ((b1, b2), r') \<Longrightarrow> fresh_login (LQueued b1 b2)"
  by (auto simp: readLoginBlocks_def ReadBytes_def ensure_def bind_outcome_Ok_iff split: if_splits)

text \<open>\<open>c\<close> is a version of the connection's client object: it has its identity.\<close>

definition held :: "LoginServer \<Rightarrow> conn \<Rightarrow> Client \<Rightarrow> bool" where
  "held s k c \<longleftrightarrow> idents s k = Some (ident c)"

section \<open>The locale\<close>

locale handler_relation =
  fixes R :: "LoginServer \<Rightarrow> LoginServer \<Rightarrow> bool"
  assumes rel_trans: "R s s' \<Longrightarrow> R s' s'' \<Longrightarrow> R s s''"
    and rel_other: "protected_parts s' = protected_parts s \<Longrightarrow> R s s'"
    and rel_client: "objs s k = Some c0 \<Longrightarrow> ident c = ident c0 \<Longrightarrow> R s (set_client k c s)"
    and rel_queue: "fresh_login (LQueued b1 b2) \<Longrightarrow> R s (s\<lparr>pendingLogins := pendingLogins s @ [(k, LQueued b1 b2)]\<rparr>)"
    and rel_ident: "R s s' \<Longrightarrow> idents s \<subseteq>\<^sub>m idents s'"
begin

lemma rel_refl: "R s s"
  by (rule rel_other) simp

lemma held_obj: "objs s k = Some c \<Longrightarrow> held s k c"
  by (simp add: held_def idents_def)

lemma held_rel: "held s k c \<Longrightarrow> R s s' \<Longrightarrow> held s' k c"
  using rel_ident [of s s'] unfolding held_def map_le_def by (metis domI)

lemma held_ident: "held s k c \<Longrightarrow> ident c' = ident c \<Longrightarrow> held s k c'"
  by (simp add: held_def)

lemma rel_set: "held s k c \<Longrightarrow> R s (set_client k c s)"
  by (auto simp: held_def idents_def intro: rel_client)

lemma rel_emit: "R s s' \<Longrightarrow> R s (emit e s')"
  by (rule rel_trans) (auto intro: rel_other)

lemma send_rel:
  assumes "held s1 k c" "R s s1"
  shows "post (SendAsync env k opcode build c s1) (\<lambda>(e, s'). R s s')"
    "post (SendAndCloseAsync env k opcode build c s1) (\<lambda>(e, s'). R s s')"
    "post (sendLoginFail env k reason c s1) (\<lambda>(e, s'). R s s')"
proof -
  have r: "R s (set_client k c' s1)" if "ident c' = ident c" for c'
    using rel_trans [OF assms(2) rel_set] held_ident [OF assms(1) that] by blast
  show "post (SendAsync env k opcode build c s1) (\<lambda>(e, s'). R s s')"
    "post (SendAndCloseAsync env k opcode build c s1) (\<lambda>(e, s'). R s s')" for opcode build
    unfolding SendAsync_def SendAndCloseAsync_def post_simps
    by (auto simp: Let_def intro!: post_mono [OF build_packet_ident] rel_emit r)
  then show "post (sendLoginFail env k reason c s1) (\<lambda>(e, s'). R s s')"
    unfolding sendLoginFail_def by blast
qed

lemma close_rel: "R s (snd (CloseClient env k s))" "R s (snd (GsClose env k s))"
  by (auto simp: CloseClient_def GsClose_def intro: rel_other)

lemma post_close_rel: "post (Ok (CloseClient env k s)) (\<lambda>(e, s'). R s s')"
  using close_rel(1) [of s env k] by (cases "CloseClient env k s") simp

lemma gs_send_rel:
  assumes "R s s1"
  shows "post (GsSend env k opcode build g s1) (\<lambda>(e, s'). R s s')"
proof -
  have "R s (set_gs k g' (emit e s1))" for g' e
    by (rule rel_trans [OF assms rel_other]) simp
  note r = this assms
  show ?thesis
    unfolding GsSend_def Let_def post_simps by (rule post_mono [OF post_True]) (use r in simp)
qed

lemma reading_rel: "(\<And>x. post (f x) (\<lambda>(e, s'). R s s')) \<Longrightarrow> post (reading m s f) (\<lambda>(e, s'). R s s')"
  by (rule reading_post) (auto simp: rel_refl)

subsection \<open>The handlers of clients\<close>

definition handler_rel :: "handler \<Rightarrow> bool" where
  "handler_rel h \<longleftrightarrow> (\<forall>k c r s. objs s k = Some c \<longrightarrow> post (h k c r s) (\<lambda>(e, s'). R s s'))"

lemma AuthGG_rel: "handler_rel (AuthGG env)"
  unfolding handler_rel_def
proof (intro allI impI)
  fix k c r and s :: LoginServer assume o: "objs s k = Some c"
  let ?c = "c\<lparr>c_State := StateAuthedGG\<rparr>"
  have r1: "R s (set_client k ?c s)" by (rule rel_client [OF o]) simp
  have "held (set_client k ?c s) k ?c" by (simp add: held_obj)
  note s1 = send_rel(1) [OF this r1] and s2 = send_rel(2) [OF held_obj [OF o] rel_refl]
  show "post (AuthGG env k c r s) (\<lambda>(e, s'). R s s')"
    unfolding AuthGG_def by (auto simp: Let_def intro!: reading_rel ignore_err_post s1 s2)
qed

lemma HandleLogin_rel: "handler_rel (HandleLogin env)"
  unfolding handler_rel_def HandleLogin_def
  using rel_queue [OF readLoginBlocks_fresh] send_rel(3) [OF held_obj rel_refl] by (auto split: outcome.split)

lemma kick_player_rel: "post (kick_player env u sid ks s) (R s)"
  by (induction env u sid ks s rule: kick_player.induct)
    (auto simp: rel_refl intro: post_mono [OF gs_send_rel [OF rel_refl]])

lemma request_characters_rel: "R s s1 \<Longrightarrow> post (request_characters env u aid ks s1) (R s)"
proof (induction ks arbitrary: s1)
  case (Cons k ks)
  then show ?case by (auto intro!: post_mono [OF gs_send_rel [OF Cons.prems]])
qed simp

lemma kick_first_rel: "R s (kick_first env u ks s)"
  by (induction env u ks s rule: kick_first.induct)
    (auto simp: rel_refl Let_def CloseClient_def intro!: rel_other)

lemma main_kicker_rel:
  "post (KickAccount (main_kicker env) u s) (R s)"
  "post (KickFromGame (main_kicker env) u sid s) (R s)"
  "R s s1 \<Longrightarrow> post (RequestCharacters (main_kicker env) u aid s1) (R s)"
  by (simp_all add: main_kicker_def NewKickManager_def KickAccount_def KickFromGame_def RequestCharacters_def
      KickAccount_LS_def KickAccount_GS_def RequestCharacters_GS_def kick_first_rel kick_player_rel request_characters_rel)

lemma HandleServerList_rel: "handler_rel (HandleServerList env (main_kicker env))"
  unfolding handler_rel_def
proof (intro allI impI)
  fix k c r and s :: LoginServer assume o: "objs s k = Some c"
  let ?c = "c\<lparr>c_State := StateServerList\<rparr>"
  have r1: "R s (set_client k ?c s)" by (rule rel_client [OF o]) simp
  have h: "held s k ?c" using held_obj [OF o] by (rule held_ident) simp
  have send: "post (SendAsync env k ServerServerList b ?c s2) (\<lambda>(e, s'). R s s')" if "R s s2" for b s2
    using that by (intro send_rel(1) held_rel [OF h])
  show "post (HandleServerList env (main_kicker env) k c r s) (\<lambda>(e, s'). R s s')"
    unfolding HandleServerList_def
    using close_rel(1) [of s env k] r1
    by (auto simp: Let_def rel_refl split: prod.split
        intro!: reading_rel ignore_err_post post_mono [OF main_kicker_rel(3) [OF r1]] send)
qed

lemma grant_handoff_rel:
  assumes "objs s k = Some c"
  shows "post (grant_handoff ttl env k c sid s) (\<lambda>(e, s'). R s s')"
proof -
  define c1 where "c1 = (if c_LastServer c \<noteq> sid then c\<lparr>c_LastServer := sid\<rparr> else c)"
  have i: "ident c1 = ident c" by (simp add: c1_def)
  have r1: "R s (set_client k c1 s)" by (rule rel_client [OF assms i])
  have r2: "R s ((set_client k c1 s)\<lparr>db := d, handoffs := h\<rparr>)" for d h
    by (rule rel_trans [OF r1 rel_other]) (simp add: protected_parts_def)
  have "held s k c1" using held_obj [OF assms] i by (rule held_ident)
  from send_rel(1) [OF held_rel [OF this r2] r2]
  show ?thesis unfolding grant_handoff_def Let_def c1_def [symmetric] by blast
qed

lemma GameServerLogin_rel: "handler_rel (GameServerLogin ttl env)"
  unfolding handler_rel_def GameServerLogin_def
  using grant_handoff_rel post_close_rel rel_refl
  by (auto simp del: post_simps simp: post_simps(1) [of "(None, _)"] intro!: reading_rel split: prod.split)

lemma Handle_rel:
  assumes "objs s k = Some c"
  shows "post (Handle (client_registry cfg (main_kicker env) env) k c opcode r s) (\<lambda>(e, s'). R s s')"
proof -
  have "client_registry cfg (main_kicker env) env ! unat opcode \<in>
      {None, Some (AuthGG env), Some (HandleLogin env), Some (HandleServerList env (main_kicker env)),
       Some (GameServerLogin (lc_handoffTTL cfg) env)}"
    using unat_byte_lt [of opcode]
    by (auto simp: client_registry_def RegisterHandler_def NewRegistry_def nth_list_update Let_def)
  then show ?thesis
    using assms AuthGG_rel HandleLogin_rel HandleServerList_rel GameServerLogin_rel
    unfolding Handle_def handler_rel_def by (auto simp: rel_refl)
qed

end


section \<open>The listeners\<close>

context handler_relation begin

lemma touch_rel: "R s s1 \<Longrightarrow> objs s k \<noteq> None \<Longrightarrow> R s (set_client k (Touch t (client_of k s1)) s1)"
proof -
  assume r: "R s s1" and o: "objs s k \<noteq> None"
  then obtain c1 where "objs s1 k = Some c1"
    using rel_ident [OF r] unfolding map_le_def idents_def dom_def by fastforce
  then have "R s1 (set_client k (Touch t (client_of k s1)) s1)"
    by (intro rel_client) (simp_all add: client_of_def)
  with r show ?thesis by (rule rel_trans)
qed

lemma client_frames_rel:
  "objs s k \<noteq> None \<Longrightarrow>
    post (client_frames env (client_registry cfg (main_kicker env) env) k buf s) (\<lambda>(a, s'). R s s')"
proof (induction "length buf" arbitrary: buf s rule: less_induct)
  case less
  let ?reg = "client_registry cfg (main_kicker env) env"
  obtain c where c: "objs s k = Some c" using less.prems by auto
  note h = Handle_rel [OF c, of cfg]
  have again: "post (client_frames env ?reg k (drop (frame_size buf) buf) (set_client k (Touch (now env) (client_of k s1)) s1))
      (\<lambda>(a, s'). R s s')"
    if "R s s1" "2 \<le> length buf" "2 \<le> frame_size buf" for s1
  proof -
    let ?s = "set_client k (Touch (now env) (client_of k s1)) s1"
    have t: "R s ?s" using that(1) less.prems by (rule touch_rel)
    have "post (client_frames env ?reg k (drop (frame_size buf) buf) ?s) (\<lambda>(a, s'). R ?s s')"
      by (rule less.hyps) (use that in auto)
    then show ?thesis by (rule post_mono) (auto intro: rel_trans [OF t])
  qed
  have done_ok: "post (Ok (a, s)) (\<lambda>(a, s'). R s s')" for a :: Action
    by (simp add: rel_refl)
  have handled: "post (case Handle ?reg k (client_of k s) opcode reader s of
        Panic \<Rightarrow> Panic | Error e \<Rightarrow> Error e | Ok (Some e, s1) \<Rightarrow> Ok (ActClose, s1)
      | Ok (None, s1) \<Rightarrow> client_frames env ?reg k (drop (frame_size buf) buf) (set_client k (Touch (now env) (client_of k s1)) s1))
      (\<lambda>(a, s'). R s s')"
    if "2 \<le> length buf" "2 \<le> frame_size buf" for opcode reader
    using h [of env opcode reader] again [OF _ that] c
    by (auto simp: client_of_def split: outcome.split option.split prod.split)
  show ?case
    unfolding client_frames.simps [of env ?reg k buf s] Let_def
    using handled done_ok
    by (auto simp: not_less split: prod.split outcome.split simp del: post_simps(1) simp: post_simps(3))
qed

lemma OnTraffic_rel: "post (OnTraffic cfg (main_kicker env) env k buf s) (\<lambda>(a, s'). R s s')"
  using client_frames_rel [of s k env cfg] by (auto simp: OnTraffic_def rel_refl split: option.split)

lemma OnClose_rel: "R s (OnClose k s)"
  by (rule rel_other) (auto simp: OnClose_def Let_def split: option.split)

lemma tick_clients_rel: "R s (tick_clients timeout env ks s)"
proof (induction timeout env ks s rule: tick_clients.induct)
  case (2 timeout env k ks s)
  have "R s (if k \<in> clients s \<and> now env - LastActivityNanos (client_of k s) > timeout
    then let s1 = snd (CloseClient env k s); m = metrics s1
         in s1\<lparr>clients := clients s1 - {k}, metrics := m\<lparr>ActiveConnections := ActiveConnections m - 1\<rparr>\<rparr>
    else s)"
    by (rule rel_other) (simp add: CloseClient_def Let_def)
  from rel_trans [OF this 2] show ?case by simp
qed (simp add: rel_refl)

lemma gs_tick_rel: "R s (gs_tick timeout env ks s)"
proof (induction timeout env ks s rule: gs_tick.induct)
  case (2 timeout env k ks s)
  have "R s (if k \<in> gservers s \<and> now env - GsLastActivityNanos (gs_of k s) > timeout
    then let s1 = snd (GsClose env k s) in s1\<lparr>gservers := gservers s1 - {k}\<rparr> else s)"
    by (rule rel_other) (simp add: GsClose_def Let_def)
  from rel_trans [OF this 2] show ?case by simp
qed (simp add: rel_refl)

lemma GsOnClose_rel: "R s (GsOnClose k s)"
  by (rule rel_other) (simp add: GsOnClose_def Let_def)

lemma GsOnOpen_rel: "R s (snd (GsOnOpen env k ip s))"
  by (rule rel_other) (simp add: GsOnOpen_def Let_def)

subsection \<open>Game server packets\<close>

lemma other_trans: "R s s1 \<Longrightarrow> protected_parts s2 = protected_parts s1 \<Longrightarrow> R s s2"
  by (rule rel_trans) (auto intro: rel_other)

lemma players_in_game_rel: "R s s1 \<Longrightarrow> post (players_in_game n sid r s1) (\<lambda>(e, s'). R s s')"
proof (induction n arbitrary: r s1)
  case (Suc n)
  have "R s (s1\<lparr>registry := SetGS u sid (registry s1)\<rparr>)" for u
    by (rule other_trans [OF Suc.prems]) simp
  from Suc.IH [OF this] Suc.prems show ?case by (auto intro!: reading_post)
qed simp

lemma status_updates_rel: "R s s1 \<Longrightarrow> post (status_updates n sid r s1) (\<lambda>(e, s'). R s s')"
proof (induction n arbitrary: r s1)
  case (Suc n)
  have "R s (s1\<lparr>serverList := UpdateStatus sid ty v (serverList s1)\<rparr>)" for ty v
    by (rule other_trans [OF Suc.prems]) simp
  from Suc.IH [OF this] Suc.prems show ?case by (auto intro!: reading_post)
qed simp

lemma HandleInit_rel: "post (HandleInit env k g r s) (\<lambda>(e, s'). R s s')"
proof -
  have "R s ((set_gs k g' s)\<lparr>serverList := l\<rparr>)" for g' l by (rule rel_other) simp
  from ignore_err_post [OF gs_send_rel [OF this]] show ?thesis
    unfolding HandleInit_def by (auto simp: Let_def rel_refl intro!: reading_rel split: prod.split)
qed

lemma HandleValidate_rel: "post (HandleValidate env k g r s) (\<lambda>(e, s'). R s s')"
proof -
  have "R s (s\<lparr>handoffs := h\<rparr>)" for h by (rule rel_other) simp
  from ignore_err_post [OF gs_send_rel [OF this]] show ?thesis
    unfolding HandleValidate_def by (auto simp: Let_def intro!: reading_rel split: prod.split)
qed

lemma gs_service_handlers_rel:
  "post (HandlePlayerInGame k g r s) (\<lambda>(e, s'). R s s')" "post (HandlePlayerLogout k g r s) (\<lambda>(e, s'). R s s')"
  "post (HandleReplyCharacters k g r s) (\<lambda>(e, s'). R s s')" "post (HandleStatus k g r s) (\<lambda>(e, s'). R s s')"
proof -
  have o: "R s (s\<lparr>registry := x\<rparr>)" "R s (s\<lparr>serverList := y\<rparr>)" for x y by (rule rel_other, simp)+
  show "post (HandlePlayerInGame k g r s) (\<lambda>(e, s'). R s s')" "post (HandlePlayerLogout k g r s) (\<lambda>(e, s'). R s s')"
    "post (HandleReplyCharacters k g r s) (\<lambda>(e, s'). R s s')" "post (HandleStatus k g r s) (\<lambda>(e, s'). R s s')"
    unfolding HandlePlayerInGame_def HandlePlayerLogout_def HandleReplyCharacters_def HandleStatus_def
    using o players_in_game_rel [OF rel_refl] status_updates_rel [OF rel_refl]
    by (auto simp: rel_refl intro!: reading_rel split: option.split)
qed

lemma GsHandle_rel: "post (GsHandle (gs_registry env) k g opcode r s) (\<lambda>(e, s'). R s s')"
proof -
  have "gs_registry env ! unat opcode \<in>
      {None, Some (HandleInit env), Some HandlePlayerInGame, Some HandlePlayerLogout, Some (HandleValidate env),
       Some HandleReplyCharacters, Some HandleStatus}"
    using unat_byte_lt [of opcode]
    by (auto simp: gs_registry_def RegisterGsHandler_def NewGsRegistry_def nth_list_update Let_def)
  then show ?thesis
    using HandleInit_rel HandleValidate_rel gs_service_handlers_rel
    unfolding GsHandle_def by (auto simp: rel_refl)
qed

end


context handler_relation begin

lemma gs_frames_rel: "post (gs_frames env (gs_registry env) k buf s) (\<lambda>(a, s'). R s s')"
proof (induction "length buf" arbitrary: buf s rule: less_induct)
  case less
  let ?reg = "gs_registry env"
  note h = GsHandle_rel [of env k "gs_of k s" _ _ s]
  have again: "post (gs_frames env ?reg k (drop (frame_size buf) buf) (set_gs k (GsTouch (now env) (gs_of k s1)) s1))
      (\<lambda>(a, s'). R s s')"
    if "R s s1" "2 \<le> length buf" "2 \<le> frame_size buf" for s1
  proof -
    let ?s = "set_gs k (GsTouch (now env) (gs_of k s1)) s1"
    have t: "R s ?s" by (rule other_trans [OF that(1)]) simp
    have "post (gs_frames env ?reg k (drop (frame_size buf) buf) ?s) (\<lambda>(a, s'). R ?s s')"
      by (rule less.hyps) (use that in auto)
    then show ?thesis by (rule post_mono) (auto intro: rel_trans [OF t])
  qed
  have done_ok: "post (Ok (a, s)) (\<lambda>(a, s'). R s s')" for a :: Action
    by (simp add: rel_refl)
  have handled: "post (case GsHandle ?reg k (gs_of k s) opcode reader s of
        Panic \<Rightarrow> Panic | Error e \<Rightarrow> Error e | Ok (Some e, s1) \<Rightarrow> Ok (ActClose, s1)
      | Ok (None, s1) \<Rightarrow> gs_frames env ?reg k (drop (frame_size buf) buf) (set_gs k (GsTouch (now env) (gs_of k s1)) s1))
      (\<lambda>(a, s'). R s s')"
    if "2 \<le> length buf" "2 \<le> frame_size buf" for opcode reader
    using h [of opcode reader] again [OF _ that]
    by (auto split: outcome.split option.split prod.split)
  show ?case
    unfolding gs_frames.simps [of env ?reg k buf s] Let_def
    using handled done_ok
    by (auto simp: not_less split: outcome.split simp del: post_simps(1) simp: post_simps(3))
qed

lemma GsOnTraffic_rel: "post (GsOnTraffic env k buf s) (\<lambda>(a, s'). R s s')"
  using gs_frames_rel [of env k] by (auto simp: GsOnTraffic_def rel_refl split: option.split)

lemma event_rel: "handled_event ev \<Longrightarrow> post (handle_event su env ev s) (R s)"
proof -
  have b: "R s (run_banCmd i fault s)" "R s (s\<lparr>handoffs := h\<rparr>)" for i fault h
    by (rule rel_other, simp add: run_banCmd_def protected_parts_def)+
  assume "handled_event ev"
  then show ?thesis
    using OnTraffic_rel GsOnTraffic_rel b
    by (cases ev) (auto simp: OnTick_def GsOnTick_def OnClose_rel tick_clients_rel gs_tick_rel GsOnClose_rel GsOnOpen_rel
        intro!: post_state)
qed

subsection \<open>Phases of a login\<close>

lemma finally_send_rel: "post m (\<lambda>(e, s'). R s s') \<Longrightarrow> post (finally_send m) (\<lambda>(pc, s'). R s s')"
  by (rule post_mono [OF finally_send_post]) auto

lemma login_advance_rel:
  assumes "objs s k = Some c"
  shows "post (login_advance env auth (main_kicker env) k pc s) (\<lambda>(pc', s'). R s s')"
proof -
  have c: "client_of k s = c" using assms by (simp add: client_of_def)
  note held = held_obj [OF assms]
  note send = finally_send_rel [OF send_rel(1)] finally_send_rel [OF send_rel(2)] finally_send_rel [OF send_rel(3)]
  have o: "R s s1" "held s1 k c" if "protected_parts s1 = protected_parts s" for s1
    using that rel_other [OF that] held_rel [OF held] by blast+
  have decode: "post (login_decode env k b1 b2 s) (\<lambda>(pc', s'). R s s')" for b1 b2
    unfolding login_decode_def c using send(3) [OF held rel_refl] by (auto simp: rel_refl split: outcome.split)
  have auth: "post (login_authenticate env auth k u p s) (\<lambda>(pc', s'). R s s')" for u p
  proof -
    obtain res d where au: "Authenticate (authEnv env) auth u p (c_RemoteIP c) (db s) = (res, d)" by force
    obtain B cmds where rf: "RecordFailure (now env) (c_RemoteAddr c) (bans s) = (B, cmds)" by force
    have p1: "protected_parts (s\<lparr>db := d, metrics := m, bans := B, banCmds := bc\<rparr>) = protected_parts s"
      "protected_parts (s\<lparr>db := d, metrics := m\<rparr>) = protected_parts s" for m bc by simp_all
    show ?thesis
      unfolding login_authenticate_def Let_def c au
      using send(2,3) [OF o(2) [OF p1(1)] o(1) [OF p1(1)]] o(1) [OF p1(2)]
      by (cases res) (simp_all add: rf)
  qed
  have reg: "post (login_register env k u row s) (\<lambda>(pc', s'). R s s')" for u row
  proof -
    obtain kick allow RG where tr: "TryRegister (now env) u (registry s) = ((kick, allow), RG)" by (metis prod.exhaust)
    have p1: "protected_parts (s\<lparr>registry := RG\<rparr>) = protected_parts s" by simp
    have "client_of k (s\<lparr>registry := RG\<rparr>) = c" using assms by (simp add: client_of_def)
    then show ?thesis
      using send(3) [OF o(2) [OF p1] o(1) [OF p1]] o(1) [OF p1] by (simp add: login_register_def tr Let_def)
  qed
  have kick: "post (login_kick (main_kicker env) u row s) (\<lambda>(pc', s'). R s s')" for u row
    using main_kicker_rel(1,2) [of env u] rel_refl by (auto simp: login_kick_def split: option.split)
  have finish: "post (login_finish env k u row s) (\<lambda>(pc', s'). R s s')" for u row
  proof -
    define c1 where "c1 = (SetAccount u (c\<lparr>c_AccountID := row_ID row\<rparr>))
      \<lparr>c_State := StateAuthedLogin, c_LastServer := row_LastServer row\<rparr>"
    define s1 where "s1 = s\<lparr>bans := ResetAttempts (c_RemoteAddr c) (bans s),
      registry := Register (now env) u (c_SessionID c) (registry s)\<rparr>"
    have p1: "protected_parts s1 = protected_parts s" by (simp add: s1_def)
    have "ident c1 = ident c" by (simp add: c1_def)
    with o(2) [OF p1] have h1: "held s1 k c1" by (rule held_ident)
    have r1: "R s (set_client k c1 s1)" by (rule rel_trans [OF o(1) [OF p1] rel_set [OF h1]])
    have "held (set_client k c1 s1) k c1" by (simp add: held_obj)
    from send(1) [OF this r1] show ?thesis
      by (simp add: login_finish_def c Let_def c1_def s1_def)
  qed
  show ?thesis
    by (cases pc) (simp_all add: login_advance_def decode auth reg kick finish rel_refl)
qed

end

section \<open>Interpretations\<close>

definition same_identity :: "LoginServer \<Rightarrow> LoginServer \<Rightarrow> bool" where
  "same_identity s s' \<longleftrightarrow> idents s \<subseteq>\<^sub>m idents s'"

definition same_settings :: "LoginServer \<Rightarrow> LoginServer \<Rightarrow> bool" where
  "same_settings s s' \<longleftrightarrow> idents s' = idents s \<and> limiter s' = limiter s \<and> rsaPool s' = rsaPool s
     \<and> rsaIdx s' = rsaIdx s \<and> loginCryptKeys s' = loginCryptKeys s \<and> globalSessionID s' = globalSessionID s"

definition only_queues :: "LoginServer \<Rightarrow> LoginServer \<Rightarrow> bool" where
  "only_queues s s' \<longleftrightarrow> idents s \<subseteq>\<^sub>m idents s'
     \<and> (\<exists>qs. pendingLogins s' = pendingLogins s @ qs \<and> list_all (\<lambda>(k, pc). fresh_login pc) qs)"

lemma idents_set_client: "objs s k = Some c0 \<Longrightarrow> ident c = ident c0 \<Longrightarrow> idents (set_client k c s) = idents s"
  by (auto simp: idents_def fun_eq_iff)

lemma protected_idents: "protected_parts s' = protected_parts s \<Longrightarrow> idents s' = idents s"
  by (rule idents_cong) (simp add: protected_parts_def)

lemma set_client_other: "limiter (set_client k c s) = limiter s" "rsaPool (set_client k c s) = rsaPool s"
  "rsaIdx (set_client k c s) = rsaIdx s" "loginCryptKeys (set_client k c s) = loginCryptKeys s"
  "globalSessionID (set_client k c s) = globalSessionID s" "pendingLogins (set_client k c s) = pendingLogins s"
  by (simp_all add: set_client_def)

lemma idents_queue [simp]: "idents (s\<lparr>pendingLogins := l\<rparr>) = idents s"
  by (rule idents_cong) simp

interpretation identity: handler_relation same_identity
proof unfold_locales
  fix s s' s'' assume "same_identity s s'" "same_identity s' s''"
  then show "same_identity s s''" unfolding same_identity_def by (rule map_le_trans)
next
  fix s s' :: LoginServer assume "protected_parts s' = protected_parts s"
  from protected_idents [OF this] show "same_identity s s'" by (simp add: same_identity_def)
qed (simp_all add: same_identity_def idents_set_client)

interpretation settings: handler_relation same_settings
proof unfold_locales
  fix s s' s'' assume "same_settings s s'" "same_settings s' s''"
  then show "same_settings s s''" unfolding same_settings_def by metis
next
  fix s s' :: LoginServer assume p: "protected_parts s' = protected_parts s"
  from protected_idents [OF p] p show "same_settings s s'" by (simp add: same_settings_def protected_parts_def)
next
  fix s :: LoginServer and k c0 c assume "objs s k = Some c0" "ident c = ident c0"
  then show "same_settings s (set_client k c s)" by (auto simp: same_settings_def idents_set_client set_client_other)
qed (simp_all add: same_settings_def)

interpretation queueing: handler_relation only_queues
proof unfold_locales
  fix s s' s'' assume a: "only_queues s s'" "only_queues s' s''"
  then have "idents s \<subseteq>\<^sub>m idents s''" unfolding only_queues_def by (metis map_le_trans)
  with a show "only_queues s s''" unfolding only_queues_def by auto
next
  fix s s' :: LoginServer assume p: "protected_parts s' = protected_parts s"
  from protected_idents [OF p] p show "only_queues s s'" by (simp add: only_queues_def protected_parts_def)
next
  fix s :: LoginServer and k c0 c assume "objs s k = Some c0" "ident c = ident c0"
  then show "only_queues s (set_client k c s)" by (simp add: only_queues_def idents_set_client set_client_other)
qed (simp_all add: only_queues_def)

end
