(* ===== verification/Server_Frames.thy ===== *)
theory Server_Frames
  imports Handler_Relation
begin

text \<open>
  The interpretations of \<open>Handler_Relation\<close> extended to every event: a connection keeps its address, its
  keys and its session number for life; the key pools and the limiter's settings are those of
  start-up; and never more login goroutines run than the controller has slots.
\<close>

section \<open>Opening a connection\<close>

lemma open_client_frame:
  "post (open_client env k ip addr sid key sk s) (\<lambda>(a, s'). (\<exists>c. objs s' = (objs s)(k \<mapsto> c) \<and> c_ScrambledKey c = sk) \<and> pendingLogins s' = pendingLogins s
     \<and> limiter s' = limiter s \<and> rsaPool s' = rsaPool s \<and> loginCryptKeys s' = loginCryptKeys s)"
  unfolding open_client_def Let_def post_simps
  by (rule post_mono [OF post_True]) (auto simp: emit_def set_client_def Touch_def new_client_def)

lemma GetScrambledKey_member: "GetScrambledKey pool idx = Ok (sk, i) \<Longrightarrow> sk \<in> set pool"
  by (auto simp: GetScrambledKey_def Let_def split: if_splits)

text \<open>The object of a new connection holds a key of the pool.\<close>

definition opens_with :: "conn \<Rightarrow> LoginServer \<Rightarrow> LoginServer \<Rightarrow> bool" where
  "opens_with k s s' \<longleftrightarrow> objs s' = objs s \<or> (\<exists>c. objs s' = (objs s)(k \<mapsto> c) \<and> c_ScrambledKey c \<in> set (rsaPool s))"

lemma OnOpen_frame:
  "post (OnOpen env k ip rnd s) (\<lambda>(a, s'). opens_with k s s' \<and> pendingLogins s' = pendingLogins s
     \<and> limit (limiter s') = limit (limiter s) \<and> window (limiter s') = window (limiter s)
     \<and> rsaPool s' = rsaPool s \<and> loginCryptKeys s' = loginCryptKeys s)"
proof -
  obtain addr where addr: "(case ParseAddr (parse6 (authEnv env)) ip of None \<Rightarrow> AddrZero | Some a \<Rightarrow> a) = addr" by blast
  obtain allowed L where al: "Allow (now env) addr (limiter s) = (allowed, L)" by force
  have L: "limit L = limit (limiter s)" "window L = window (limiter s)"
    using Allow_params [of "now env" addr "limiter s"] by (simp_all add: al)
  define s1 where "s1 = s\<lparr>limiter := L\<rparr>"
  obtain banned B cmds where ib: "IsBanned (now env) (now env) addr (bans s1) = (banned, B, cmds)" by (metis prod_cases3)
  define s2 where "s2 = s1\<lparr>bans := B, banCmds := banCmds s1 @ cmds\<rparr>"
  obtain sid s3 where g: "generateSessionID (now env) s2 = (sid, s3)" by force
  then have s3: "objs s3 = objs s" "pendingLogins s3 = pendingLogins s" "limiter s3 = L" "rsaPool s3 = rsaPool s"
    "loginCryptKeys s3 = loginCryptKeys s"
    by (auto simp: generateSessionID_def Let_def s2_def s1_def)
  have acc: "sk \<in> set (rsaPool s) \<Longrightarrow> post (open_client env k ip addr sid key sk (s3\<lparr>rsaIdx := x\<rparr>)) (\<lambda>(a, s'). opens_with k s s'
      \<and> pendingLogins s' = pendingLogins s \<and> limit (limiter s') = limit (limiter s) \<and> window (limiter s') = window (limiter s)
      \<and> rsaPool s' = rsaPool s \<and> loginCryptKeys s' = loginCryptKeys s)" for key sk x
    by (rule post_mono [OF open_client_frame]) (use L in \<open>auto simp: s3 opens_with_def\<close>)
  show ?thesis
    unfolding OnOpen_def addr Let_def al case_prod_conv s1_def [symmetric] ib s2_def [symmetric] g
    using acc s3 L by (auto simp: s1_def s2_def opens_with_def dest: GetScrambledKey_member split: outcome.split)
qed

section \<open>Login steps\<close>

lemma login_step_frame:
  assumes "\<And>k pc. (k, pc) \<in> set (pendingLogins s) \<Longrightarrow> objs s k \<noteq> None"
  shows "post (login_step w env auth (main_kicker env) i s) (\<lambda>s'. same_settings s s')"
proof (cases "i < length (pendingLogins s)")
  case False
  then show ?thesis by (simp add: login_step_def settings.rel_refl)
next
  case True
  obtain k pc where kpc: "pendingLogins s ! i = (k, pc)" by force
  with True assms obtain c where c: "objs s k = Some c" by (metis nth_mem option.exhaust)
  have q: "same_settings s (s'\<lparr>pendingLogins := l\<rparr>) = same_settings s s'" for s' l
    by (simp add: same_settings_def)
  show ?thesis
    unfolding login_step_def kpc using True settings.login_advance_rel [OF c, of env auth pc]
    by (auto simp: Let_def q not_le settings.rel_refl elim!: post_mono)
qed

text \<open>How many goroutines run: only leaving the queue adds one, and it needs a free slot.\<close>

lemma running_append: "list_all (\<lambda>(k, pc). is_queued pc) qs \<Longrightarrow> pendingLogins s' = pendingLogins s @ qs \<Longrightarrow> running s' = running s"
  by (simp add: running_def filter_False list_all_iff case_prod_unfold)

lemma only_queues_running: "only_queues s s' \<Longrightarrow> running s' = running s"
  by (auto simp: only_queues_def list_all_iff intro!: running_append fresh_queued)

definition is_running :: "conn \<times> login_pc \<Rightarrow> bool" where
  "is_running x \<longleftrightarrow> \<not> is_queued (snd x)"

lemma running_conv: "running s = length (filter is_running (pendingLogins s))"
proof -
  have "is_running = (\<lambda>(k, pc). \<not> is_queued pc)" by (auto simp: is_running_def fun_eq_iff)
  then show ?thesis by (simp add: running_def)
qed

lemma length_filter_replace:
  "i < length xs \<Longrightarrow> length (filter P (take i xs @ ys @ drop (i + 1) xs)) + (if P (xs ! i) then 1 else 0)
     = length (filter P xs) + length (filter P ys)"
proof -
  assume "i < length xs"
  then have "xs = take i xs @ xs ! i # drop (Suc i) xs" by (rule id_take_nth_drop)
  then have "length (filter P xs) = length (filter P (take i xs @ xs ! i # drop (Suc i) xs))" by (rule arg_cong)
  then show ?thesis by simp
qed

lemma login_step_running:
  assumes "\<And>k pc. (k, pc) \<in> set (pendingLogins s) \<Longrightarrow> objs s k \<noteq> None"
  shows "post (login_step w env auth (main_kicker env) i s) (\<lambda>s'. running s' \<le> max (running s) w)"
proof (cases "i < length (pendingLogins s)")
  case False
  then show ?thesis by (simp add: login_step_def)
next
  case True
  obtain k pc where kpc: "pendingLogins s ! i = (k, pc)" by force
  with True assms obtain c where c: "objs s k = Some c" by (metis nth_mem option.exhaust)
  have step: "running (s'\<lparr>pendingLogins := if pc' = LDone then take i (pendingLogins s') @ drop (i + 1) (pendingLogins s')
      else (pendingLogins s')[i := (k, pc')]\<rparr>) \<le> running s + (if is_queued pc then 1 else 0)" if q: "only_queues s s'" for s' pc'
  proof -
    obtain qs where qs: "pendingLogins s' = pendingLogins s @ qs" "list_all (\<lambda>(k, pc). fresh_login pc) qs"
      using q by (auto simp: only_queues_def)
    let ?L = "pendingLogins s'" and ?ys = "if pc' = LDone then [] else [(k, pc')]"
    have i: "i < length ?L" "?L ! i = (k, pc)" using True kpc by (simp_all add: qs(1) nth_append)
    have r: "length (filter is_running ?L) = running s"
      using only_queues_running [OF q] by (simp add: running_conv)
    have "(if pc' = LDone then take i ?L @ drop (i + 1) ?L else ?L[i := (k, pc')]) = take i ?L @ ?ys @ drop (i + 1) ?L"
      using i(1) by (simp add: upd_conv_take_nth_drop)
    moreover have "length (filter is_running ?ys) \<le> 1" by simp
    ultimately show ?thesis
      using length_filter_replace [OF i(1), of is_running ?ys] r i(2)
      by (auto simp: running_conv is_running_def split: if_splits)
  qed
  show ?thesis
    unfolding login_step_def kpc
    using True queueing.login_advance_rel [OF c, of env auth pc] step
    by (fastforce simp: Let_def not_le elim!: post_mono split: if_splits)
qed


section \<open>Every event\<close>

definition same_config :: "LoginServer \<Rightarrow> LoginServer \<Rightarrow> bool" where
  "same_config s s' \<longleftrightarrow> idents s \<subseteq>\<^sub>m idents s' \<and> limit (limiter s') = limit (limiter s)
     \<and> window (limiter s') = window (limiter s) \<and> rsaPool s' = rsaPool s \<and> loginCryptKeys s' = loginCryptKeys s"

lemma same_config_trans: "same_config s s' \<Longrightarrow> same_config s' s'' \<Longrightarrow> same_config s s''"
  unfolding same_config_def by (metis map_le_trans)

lemma same_settings_config: "same_settings s s' \<Longrightarrow> same_config s s'"
  by (simp add: same_settings_def same_config_def)

lemma pending_has_object: "server_inv su H s \<Longrightarrow> (k, pc) \<in> set (pendingLogins s) \<Longrightarrow> objs s k \<noteq> None"
  unfolding inv_defs by blast

lemma open_keeps_config:
  assumes "objs s k = None"
  shows "post (OnOpen env k ip rnd s) (\<lambda>(a, s'). same_config s s' \<and> running s' = running s)"
proof (rule post_mono [OF OnOpen_frame])
  fix x :: "Action \<times> LoginServer"
  assume f: "case x of (a, s') \<Rightarrow> opens_with k s s' \<and> pendingLogins s' = pendingLogins s
     \<and> limit (limiter s') = limit (limiter s) \<and> window (limiter s') = window (limiter s)
     \<and> rsaPool s' = rsaPool s \<and> loginCryptKeys s' = loginCryptKeys s"
  have "idents s \<subseteq>\<^sub>m idents s'" if "opens_with k s s'" for s'
    using that assms by (auto simp: opens_with_def idents_def map_le_def)
  with f show "case x of (a, s') \<Rightarrow> same_config s s' \<and> running s' = running s"
    by (cases x) (simp add: same_config_def running_def)
qed

lemma event_frame:
  assumes "enabled su env ev s" "server_inv su H s"
  shows "post (handle_event su env ev s) (\<lambda>s'. same_config s s' \<and> running s' \<le> max (running s) (su_workers su))"
proof (cases "handled_event ev")
  case True
  have "running s' = running s" if "only_queues s s'" for s'
    using that by (rule only_queues_running)
  then have "same_settings s s' \<Longrightarrow> only_queues s s' \<Longrightarrow> same_config s s' \<and> running s' \<le> max (running s) (su_workers su)" for s'
    by (simp add: same_settings_config)
  with settings.event_rel [OF True, of su env s] queueing.event_rel [OF True, of su env s] show ?thesis
    by (auto simp: post_def)
next
  case False
  then consider k ip rnd where "ev = EvOpen k ip rnd" | i where "ev = EvLogin i" | "ev = EvLimiterCleanup"
    by (cases ev) auto
  then show ?thesis
  proof cases
    case 1
    then have "objs s k = None" using assms(1) by (simp add: enabled_def)
    from open_keeps_config [OF this, of env ip rnd] 1 show ?thesis
      by (auto intro!: post_state elim!: post_mono)
  next
    case 2
    note p = pending_has_object [OF assms(2)]
    from login_step_frame [OF p, where i = i and w = "su_workers su" and env = env and auth = "lc_auth (su_listener su)"]
      login_step_running [OF p, where i = i and w = "su_workers su" and env = env and auth = "lc_auth (su_listener su)"] 2
    show ?thesis by (auto simp: post_def same_settings_config)
  next
    case 3
    have "limit (cleanup t l) = limit l" "window (cleanup t l) = window l" for t l by (simp_all add: cleanup_def Let_def)
    with 3 show ?thesis by (simp add: same_config_def idents_def running_def)
  qed
qed

lemma reach_frame:
  "reach su s0 H s \<Longrightarrow> server_inv su {} s0 \<Longrightarrow>
    same_config s0 s \<and> running s \<le> max (running s0) (su_workers su)"
proof (induction rule: reach.induct)
  case start
  show ?case by (simp add: same_config_def)
next
  case (step H s env ev s')
  have "same_config s s' \<and> running s' \<le> max (running s) (su_workers su)"
    using event_frame [OF step.hyps(2) reach_inv [OF step.hyps(1) step.prems]] step.hyps(3) by (simp add: post_def)
  with step.IH [OF step.prems] show ?case by (auto intro: same_config_trans)
qed

lemma boot_settings [simp]:
  "running (boot cfg loaded pool keys d) = 0" "rsaPool (boot cfg loaded pool keys d) = pool"
  "loginCryptKeys (boot cfg loaded pool keys d) = keys"
  "limit (limiter (boot cfg loaded pool keys d)) = word_of_int (cfg_LoginRateLimit cfg)"
  "window (limiter (boot cfg loaded pool keys d)) = seconds 30"
  by (simp_all add: boot_def running_def NewRateLimiter_def)

end
