(* ===== verification/Server_Bounds.thy ===== *)
theory Server_Bounds
  imports Server_Safety Server_Frames
begin

text \<open>
  Start-up and what follows from it for every later state: connections keep their identity, the number
  of running logins is bounded, every admitted connection is served, and a server without a rate
  limit in its configuration admits nobody.
\<close>

section \<open>Start-up\<close>

definition good_keys :: "ScrambledKey list \<Rightarrow> bool" where
  "good_keys pool \<longleftrightarrow> length pool = 32 \<and> list_all (\<lambda>k. rsa_key_ok (privateKey k) \<and> length (Modulus k) = 128
     \<and> SetBytes (unscramble (Modulus k)) = pubN (privateKey k)) pool"

lemma InitRSAPool_good:
  assumes "InitRSAPool 32 gen = Ok pool" "\<And>i. i < 32 \<Longrightarrow> \<exists>key. gen i = Some key \<and> rsa_key_ok key"
  shows "good_keys pool"
proof -
  have "fill_pool (map gen [0..<32]) = Ok pool" using assms(1) by (simp add: InitRSAPool_def)
  note f = fill_pool_keys [OF this]
  have "rsa_key_ok (privateKey (pool ! i)) \<and> length (Modulus (pool ! i)) = 128
      \<and> SetBytes (unscramble (Modulus (pool ! i))) = pubN (privateKey (pool ! i))" if "i < 32" for i
  proof -
    have g: "gen i = Some (privateKey (pool ! i))"
      "fillAndScrambleModulus (pubN (privateKey (pool ! i))) = Ok (Modulus (pool ! i))"
      using list_all2_nthD [OF conjunct2 [OF f], of i] that by simp_all
    then have ok: "rsa_key_ok (privateKey (pool ! i))" using assms(2) [OF that] by simp
    then have "0 \<le> pubN (privateKey (pool ! i))" by (simp add: rsa_key_ok_def)
    with ok fillAndScrambleModulus_recover [OF this g(2)] show ?thesis by simp
  qed
  then show ?thesis using f by (simp add: good_keys_def list_all_length)
qed

lemma main_start_Ok:
  assumes "\<And>i. i < 32 \<Longrightarrow> \<exists>key. gen i = Some key \<and> rsa_key_ok key" "length entropy = 320"
  obtains pool keys where "main_start getenv fault t gen (Some entropy) d
      = Ok (boot (NewConfig getenv) (GetActiveIPBans fault t d) pool keys d)"
    "good_keys pool" "wf_keys keys"
proof -
  have "\<exists>pool. fill_pool (map gen js) = Ok pool" if "\<forall>i \<in> set js. i < 32" for js
    using that
  proof (induction js)
    case (Cons j js)
    then obtain key where "gen j = Some key" "rsa_key_ok key" using assms(1) by auto
    moreover from this have "fillAndScrambleModulus (pubN key) = Ok (scramble (be_bytes RSAModulusSize \<bar>pubN key\<bar>))"
      by (simp add: fillAndScrambleModulus_def FillBytes_def rsa_key_ok_def)
    ultimately show ?case using Cons by auto
  qed simp
  from this [of "[0..<32]"] obtain pool where p: "InitRSAPool 32 gen = Ok pool" by (auto simp: InitRSAPool_def)
  obtain keys where k: "GenerateLoginBlowFishKeys (Some entropy) = Ok keys" by (simp add: GenerateLoginBlowFishKeys_def)
  have "length entropy = cryptKeysSize * 16" using assms(2) by (simp add: cryptKeysSize_def)
  from wf_GenerateLoginBlowFishKeys [OF this k] InitRSAPool_good [OF p assms(1)] show thesis
    by (intro that [of pool keys]) (simp_all add: main_start_def p k)
qed

lemma GetScrambledKey_good:
  assumes "good_keys pool"
  obtains key where "GetScrambledKey pool idx = Ok (key, idx + 1)" "key \<in> set pool" "length (Modulus key) = 128"
proof -
  let ?j = "unat (idx + 1) mod 32"
  have "pool ! ?j \<in> set pool" using assms by (simp add: good_keys_def)
  with assms show thesis
    by (intro that [of "pool ! ?j"]) (auto simp: GetScrambledKey_def good_keys_def list_all_iff Let_def)
qed

text \<open>In every state reached from start-up, a connection that passes the limiter and the ban list is admitted.\<close>

lemma reach_admitted:
  assumes "reach su (boot cfg loaded pool keys d) H s" "wf_db (su_lower su) d" "good_keys pool" "wf_keys keys"
    and "fst (Allow (now env) (addr_of env ip) (limiter s))" "\<not> fst (IsBanned (now env) (now env) (addr_of env ip) (bans s))"
    and "rnd = Some b"
  obtains key sk where "admitted_client env ip rnd s key sk" "sk \<in> set pool"
proof -
  have c: "same_config (boot cfg loaded pool keys d) s"
    using reach_frame [OF assms(1) boot_inv [OF assms(2)]] by blast
  obtain sk where "GetScrambledKey pool (rsaIdx s) = Ok (sk, rsaIdx s + 1)" "sk \<in> set pool" "length (Modulus sk) = 128"
    by (rule GetScrambledKey_good [OF assms(3)])
  with c assms(4-7) show thesis
    by (intro that) (auto simp: admitted_client_def same_config_def GenerateSessionKey_def)
qed

lemma Allow_limit_zero:
  assumes "wf_limiter r" "limit r = 0"
  shows "Allow t ip r = (False, r)"
  using entry_count [OF assms(1), of ip] assms(2) by (auto simp: Allow_def Let_def)


section \<open>Properties\<close>

text \<open>
  C17: a server that has started serves every admitted connection. With proper keys from the key
  generator and enough random bytes, \<open>main\<close> comes up; and in every state it reaches from there, a new
  connection whose address passes the limiter and is not banned gets its Init packet: the client
  decodes it to its session number, the scrambled modulus of one of the pool's keys (which it
  unscrambles to that key's modulus) and the Blowfish key of its session.
\<close>

theorem start_up_serves:
  assumes "\<And>i. i < 32 \<Longrightarrow> \<exists>key. gen i = Some key \<and> rsa_key_ok key" "length entropy = 320" "wf_db (su_lower su) d"
  shows "\<exists>s0. main_start getenv fault t gen (Some entropy) d = Ok s0 \<and>
    (\<forall>H s env k ip b. reach su s0 H s \<and> fst (Allow (now env) (addr_of env ip) (limiter s))
         \<and> \<not> fst (IsBanned (now env) (now env) (addr_of env ip) (bans s)) \<longrightarrow>
       (\<exists>s' out (sk :: ScrambledKey). handle_event su env (EvOpen k ip (Some b)) s = Ok s' \<and> k \<in> clients s' \<and> wire s' = wire s @ [Sent k out]
          \<and> rsa_key_ok (privateKey sk) \<and> SetBytes (unscramble (Modulus sk)) = pubN (privateKey sk)
          \<and> client_reads static_crypt out (init_body (session_id env s) (Modulus sk) (session_bfkey env s))))"
proof -
  obtain pool keys where m: "main_start getenv fault t gen (Some entropy) d
      = Ok (boot (NewConfig getenv) (GetActiveIPBans fault t d) pool keys d)" and g: "good_keys pool" "wf_keys keys"
    by (rule main_start_Ok [OF assms(1,2)])
  let ?s0 = "boot (NewConfig getenv) (GetActiveIPBans fault t d) pool keys d"
  have "\<exists>s' out (sk :: ScrambledKey). handle_event su env (EvOpen k ip (Some b)) s = Ok s' \<and> k \<in> clients s' \<and> wire s' = wire s @ [Sent k out]
      \<and> rsa_key_ok (privateKey sk) \<and> SetBytes (unscramble (Modulus sk)) = pubN (privateKey sk)
      \<and> client_reads static_crypt out (init_body (session_id env s) (Modulus sk) (session_bfkey env s))"
    if r: "reach su ?s0 H s" and a: "fst (Allow (now env) (addr_of env ip) (limiter s))"
      "\<not> fst (IsBanned (now env) (now env) (addr_of env ip) (bans s))" for H s k ip b and env :: Env
  proof -
    obtain key sk where ad: "admitted_client env ip (Some b) s key sk" "sk \<in> set pool"
      by (rule reach_admitted [OF r assms(3) g a refl])
    show ?thesis
    proof (rule open_event [OF ad(1), of su k])
      fix out assume o: "client_reads static_crypt out (init_body (session_id env s) (Modulus sk)
          (GetRandomBlowFishKey (loginCryptKeys s) (scast (session_id env s))))"
        "handle_event su env (EvOpen k ip (Some b)) s = Ok (emit (Sent k out)
          ((set_client k (accepted_object env ip key sk s) s)
           \<lparr>limiter := snd (Allow (now env) (addr_of env ip) (limiter s)),
            bans := fst (snd (IsBanned (now env) (now env) (addr_of env ip) (bans s))),
            banCmds := banCmds s @ snd (snd (IsBanned (now env) (now env) (addr_of env ip) (bans s))),
            globalSessionID := globalSessionID s + 1, rsaIdx := rsaIdx s + 1, clients := insert k (clients s),
            metrics := (metrics s)\<lparr>ActiveConnections := ActiveConnections (metrics s) + 1,
              ConnectionTotal := ConnectionTotal (metrics s) + 1\<rparr>\<rparr>))"
      then have "\<exists>s'. handle_event su env (EvOpen k ip (Some b)) s = Ok s' \<and> k \<in> clients s' \<and> wire s' = wire s @ [Sent k out]"
        by (simp del: handle_event.simps)
      moreover have "rsa_key_ok (privateKey sk) \<and> SetBytes (unscramble (Modulus sk)) = pubN (privateKey sk)"
        using g(1) ad(2) by (simp add: good_keys_def list_all_iff)
      ultimately show ?thesis using o(1) unfolding session_bfkey_def by blast
    qed
  qed
  with m show ?thesis by blast
qed

definition demo_getenv :: environ where
  "demo_getenv key = (if key = lit ''LOGIN_RATE_LIMIT'' then lit ''5'' else [])"

lemma demo_limit: "cfg_LoginRateLimit (NewConfig demo_getenv) = 5"
  by (simp add: NewConfig_def mustAtoi_def demo_getenv_def Atoi_def ParseInt_def lit_def)

lemma demo_start:
  assumes "main_start demo_getenv False 0 (\<lambda>_. Some small_key) (Some (replicate 320 3)) demo_db = Ok s0"
  shows "\<exists>pool keys. good_keys pool \<and> wf_keys keys
      \<and> s0 = boot (NewConfig demo_getenv) (GetActiveIPBans False 0 demo_db) pool keys demo_db"
    and "fst (Allow (now (demo_env 0)) (addr_of (demo_env 0) demo_ip) (limiter s0))"
    and "\<not> fst (IsBanned (now (demo_env 0)) (now (demo_env 0)) (addr_of (demo_env 0) demo_ip) (bans s0))"
proof -
  have key: "\<exists>key. Some small_key = Some key \<and> rsa_key_ok key" using rsa_key_ok_small by blast
  show ex: "\<exists>pool keys. good_keys pool \<and> wf_keys keys
      \<and> s0 = boot (NewConfig demo_getenv) (GetActiveIPBans False 0 demo_db) pool keys demo_db"
    by (rule main_start_Ok [where gen = "\<lambda>_. Some small_key" and entropy = "replicate 320 3" and getenv = demo_getenv
        and fault = False and t = 0 and d = demo_db, OF key]) (use assms in auto)
  then show "fst (Allow (now (demo_env 0)) (addr_of (demo_env 0) demo_ip) (limiter s0))"
    by (auto simp: addr_of_def demo_ip_def parse_localhost limiter.lookup_none boot_def demo_limit Allow_def entry_of_def
        NewRateLimiter_def zeroEntry_def seconds_def Let_def)
  show "\<not> fst (IsBanned (now (demo_env 0)) (now (demo_env 0)) (addr_of (demo_env 0) demo_ip) (bans s0))"
    by (subst loopback_exempt(2)) (simp_all add: addr_of_def demo_ip_def parse_localhost IsLoopback_def)
qed

theorem start_up_serves_witness:
  "\<exists>s0 s' out. main_start demo_getenv False 0 (\<lambda>_. Some small_key) (Some (replicate 320 3)) demo_db = Ok s0
     \<and> handle_event demo_setup (demo_env 0) (EvOpen 7 demo_ip (Some [])) s0 = Ok s' \<and> wire s' = wire s0 @ [Sent 7 out]"
proof -
  obtain s0 where s0: "main_start demo_getenv False 0 (\<lambda>_. Some small_key) (Some (replicate 320 3)) demo_db = Ok s0"
    and serve: "\<And>H s env k ip b. reach demo_setup s0 H s \<Longrightarrow> fst (Allow (now env) (addr_of env ip) (limiter s)) \<Longrightarrow>
        \<not> fst (IsBanned (now env) (now env) (addr_of env ip) (bans s)) \<Longrightarrow>
        \<exists>s' out. handle_event demo_setup env (EvOpen k ip (Some b)) s = Ok s' \<and> wire s' = wire s @ [Sent k out]"
    using start_up_serves [where gen = "\<lambda>_. Some small_key" and entropy = "replicate 320 3" and d = demo_db
        and su = demo_setup and getenv = demo_getenv and fault = False and t = 0] rsa_key_ok_small demo_wf(2)
    by (simp del: handle_event.simps) metis
  with demo_start(2,3) [OF s0] serve [OF reach.start, of "demo_env 0" demo_ip 7 "[]"] show ?thesis by auto
qed

text \<open>
  C22: without a rate limit nobody gets in. If \<open>LOGIN_RATE_LIMIT\<close> is not set, then in every state the
  server reaches, every connection is closed at once, whatever its address, and leaves no trace in
  the state.
\<close>

theorem unset_rate_limit_refuses:
  assumes "getenv (lit ''LOGIN_RATE_LIMIT'') = []" "wf_db (su_lower su) d"
    and "reach su (boot (NewConfig getenv) loaded pool keys d) H s"
  shows "OnOpen env k ip rnd s = Ok (ActClose, s)"
proof -
  have "limit (limiter s) = 0"
    using reach_frame [OF assms(3) boot_inv [OF assms(2)]] assms(1)
    by (simp add: same_config_def NewConfig_def mustAtoi_def Atoi_def ParseInt_def)
  moreover have "wf_limiter (limiter s)"
    by (rule inv_wf(5) [OF reach_inv [OF assms(3) boot_inv [OF assms(2)]]])
  ultimately show ?thesis by (simp add: OnOpen_def Allow_limit_zero Let_def)
qed

theorem unset_rate_limit_refuses_witness:
  "OnOpen (demo_env 1) 7 demo_ip (Some []) (boot (NewConfig (\<lambda>_. [])) (Ok []) [plain_key] [] demo_db)
     = Ok (ActClose, boot (NewConfig (\<lambda>_. [])) (Ok []) [plain_key] [] demo_db)"
  by (rule unset_rate_limit_refuses [OF _ demo_wf(2) reach.start]) simp

text \<open>
  C21: the login workers are bounded. In every reachable state the login goroutines that have left the
  queue are at most twice the number of processors, or eight, whichever is more.
\<close>

theorem login_workers_bounded:
  assumes "reach (main_setup cfg numCPU lower) (boot cfg loaded pool keys d) H s" "wf_db lower d"
  shows "running s \<le> max 8 (2 * numCPU)"
proof -
  have su: "su_lower (main_setup cfg numCPU lower) = lower" "su_workers (main_setup cfg numCPU lower) \<le> max 8 (2 * numCPU)"
    by (simp_all add: main_setup_def login_workers_def Let_def)
  have "wf_db (su_lower (main_setup cfg numCPU lower)) d" using assms(2) by (simp add: su(1))
  from reach_frame [OF assms(1) boot_inv [OF this]] su(2) show ?thesis by simp
qed

theorem login_workers_bounded_witness:
  "\<exists>s H. reach demo_setup demo_server H s \<and> objs s 7 \<noteq> None \<and> running s \<le> 8"
proof -
  obtain s c key where r: "reach demo_setup demo_server {(7, demo_name, demo_row)} s" "objs s = [7 \<mapsto> c]"
    by (rule demo_login)
  have "running s \<le> max 8 (2 * 4)"
    by (rule login_workers_bounded [OF r(1) [unfolded demo_setup_def demo_server_def]]) (use demo_wf(2) in simp)
  with r show ?thesis by auto
qed

text \<open>
  C20: a connection keeps its identity. Whatever event happens in a reachable state, every client object
  keeps its address, its RSA key, its session key, its session number and its cipher key. (A stored
  handoff session holds a pointer to the client's session key: nothing can change what it points to.)
\<close>

theorem connection_identity_fixed:
  assumes "reach su (boot cfg loaded pool keys d) H s" "wf_db (su_lower su) d"
    and "enabled su env ev s" "handle_event su env ev s = Ok s'" "objs s k = Some c"
  shows "\<exists>c'. objs s' k = Some c' \<and> c_RemoteAddr c' = c_RemoteAddr c \<and> c_ScrambledKey c' = c_ScrambledKey c
    \<and> c_SessionKey c' = c_SessionKey c \<and> c_SessionID c' = c_SessionID c \<and> cipher (c_Crypt c') = cipher (c_Crypt c)"
proof -
  have "same_config s s'"
    using event_frame [OF assms(3) reach_inv [OF assms(1) boot_inv [OF assms(2)]]] assms(4) by (simp add: post_def)
  then have "idents s \<subseteq>\<^sub>m idents s'" by (simp add: same_config_def)
  moreover have i: "idents s k = Some (ident c)" using assms(5) by (simp add: idents_def)
  then have "k \<in> dom (idents s)" by (rule domI)
  ultimately have "idents s' k = Some (ident c)" using i unfolding map_le_def by simp
  then show ?thesis by (auto simp: idents_def ident_def)
qed

theorem connection_identity_fixed_witness:
  "\<exists>s s' H c c'. reach demo_setup demo_server H s \<and> handle_event demo_setup (demo_env 9) EvTick s = Ok s'
     \<and> objs s 7 = Some c \<and> objs s' 7 = Some c' \<and> c_SessionKey c' = c_SessionKey c"
proof -
  obtain s c key where r: "reach demo_setup demo_server {(7, demo_name, demo_row)} s" "objs s = [7 \<mapsto> c]"
    by (rule demo_login)
  obtain s' where s': "handle_event demo_setup (demo_env 9) EvTick s = Ok s'" by simp
  have en: "enabled demo_setup (demo_env 9) EvTick s" by (simp add: enabled_def)
  have o: "objs s 7 = Some c" by (simp add: r(2))
  from connection_identity_fixed [OF r(1) [unfolded demo_server_def] demo_wf(2) en s' o]
  obtain c' where "objs s' 7 = Some c'" "c_SessionKey c' = c_SessionKey c" by blast
  with r(1) s' o show ?thesis
    by (intro exI [of _ s] exI [of _ s'] exI [of _ "{(7, demo_name, demo_row)}"] exI [of _ c] exI [of _ c'] conjI)
qed

end
