(* ===== verification/Login_Outcomes.thy ===== *)
theory Login_Outcomes
  imports Server_Bounds
begin

text \<open>
  How a login ends, whatever the client sends: it always ends (no panic, no matter how the credentials
  were made up), a failure is answered and counted, enough failures ban the address, a second login
  takes over the session of the first, and a client that has gone away leaves its session behind.
\<close>

section \<open>Bounds\<close>

lemma length_utf8_enc1: "length (utf8_enc1 r) \<le> 4"
  by (simp add: utf8_enc1_def Let_def)

lemma length_utf8_enc: "length (utf8_enc rs) \<le> 4 * length rs"
proof (induction rs)
  case (Cons r rs)
  with length_utf8_enc1 [of r] show ?case by (simp add: utf8_enc_def)
qed (simp add: utf8_enc_def)

lemma length_utf8_runes: "length (utf8_runes s) \<le> length s"
proof (induction s rule: utf8_runes.induct)
  case (2 b bs)
  obtain r n where d: "decode_rune b bs = (r, n)" by force
  have "length (utf8_runes (drop n bs)) \<le> length (drop n bs)" using 2 d by simp
  then show ?case by (simp add: d)
qed simp

lemma utf16_count_le: "utf16_count rs \<le> 2 * length rs"
  by (induction rs) simp_all

lemma length_string_enc: "length (string_enc s) \<le> 4 * length s + 2"
  using utf16_count_le [of "utf8_runes s"] length_utf8_runes [of s]
  by (simp add: string_enc_def length_utf16_bytes)

lemma length_ToLower: "length (ToLower ul s) \<le> 4 * length s"
  using length_utf8_enc [of "map ul (utf8_runes s)"] length_utf8_runes [of s] by (simp add: ToLower_def)

section \<open>Nothing on the way panics\<close>

definition returns :: "'a outcome \<Rightarrow> bool" where
  "returns m \<longleftrightarrow> (\<exists>x. m = Ok x)"

lemma returns_Ok [simp]: "returns (Ok x)"
  by (simp add: returns_def)

lemma returns_bind: "returns m \<Longrightarrow> (\<And>x. m = Ok x \<Longrightarrow> returns (f x)) \<Longrightarrow> returns (bind_outcome m f)"
  by (auto simp: returns_def)

lemma RSADecrypt_total:
  assumes "rsa_key_ok (privateKey key)" "length block = 128"
  obtains plain where "RSADecrypt key block = Ok plain" "length plain = 128"
proof -
  let ?k = "privateKey key"
  let ?p = "prime0 ?k" and ?q = "prime1 ?k" and ?c = "SetBytes block"
  have k: "2 < ?p" "2 < ?q" "pubN ?k = ?p * ?q" "pubN ?k < 256 ^ RSAModulusSize"
    using assms(1) by (simp_all add: rsa_key_ok_def)
  define m1 m2 where "m1 = ?c ^ precDp ?k mod ?p" and "m2 = ?c ^ precDq ?k mod ?q"
  define h where "h = ((if m1 - m2 < 0 then m1 - m2 + ?p else m1 - m2) * precQinv ?k) mod ?p"
  have b: "0 \<le> h" "h \<le> ?p - 1" "0 \<le> m2" "m2 < ?q" using k(1,2) by (simp_all add: h_def m2_def)
  have "h * ?q \<le> (?p - 1) * ?q" using b(2) k(2) by (intro mult_right_mono) simp_all
  then have "h * ?q + m2 < ?p * ?q" using b(4) by (simp add: left_diff_distrib)
  moreover have "0 \<le> h * ?q + m2" using b(1,3) k(2) by simp
  ultimately have "FillBytes RSAModulusSize (h * ?q + m2) = Ok (be_bytes RSAModulusSize (h * ?q + m2))"
    using k(3,4) by (simp add: FillBytes_def)
  moreover have "RSADecrypt key block = FillBytes RSAModulusSize (h * ?q + m2)"
    unfolding RSADecrypt_def Let_def m1_def [symmetric] m2_def [symmetric] h_def [symmetric]
    using assms(2) by (simp add: RSAModulusSize_def)
  moreover have "length (be_bytes RSAModulusSize (h * ?q + m2)) = 128"
    by (simp add: RSAModulusSize_def)
  ultimately show thesis using that by simp
qed

lemma length_cleanBytesToString: "length (cleanBytesToString b) \<le> length b"
  using length_dropWhile_le [of blank b] length_dropWhile_le [of blank "rev (dropWhile blank b)"]
  by (simp add: cleanBytesToString_def Let_def)

lemma decodeCredentials_total:
  assumes "rsa_key_ok (privateKey key)" "length b1 = 128" "pred_option (\<lambda>b. length b = 128) b2"
  obtains u p where "decodeCredentials ul key b1 b2 = Ok (u, p)" "length (string_enc u) \<le> 60000"
proof -
  have len: "length (cleanBytesToString (bytes_at i n d)) \<le> n" for i n and d :: "byte list"
    using length_cleanBytesToString [of "bytes_at i n d"] by (simp add: bytes_at_def)
  then have len1: "length (cleanBytesToString (bytes_at i n d)) \<le> 64" if "n \<le> 64" for i n and d :: "byte list"
    using that le_trans by blast
  have len2: "length (cleanBytesToString (bytes_at i 50 d) @ cleanBytesToString (bytes_at j 14 d)) \<le> 64" for i j and d :: "byte list"
    using add_mono [OF len [of i 50 d] len [of j 14 d]] by simp
  obtain p1 where p1: "RSADecrypt key b1 = Ok p1" "length p1 = 128" by (rule RSADecrypt_total [OF assms(1,2)])
  have small: "length (string_enc (ToLower ul v)) \<le> 60000" if "length v \<le> 64" for v
    using length_string_enc [of "ToLower ul v"] length_ToLower [of ul v] that by linarith
  show thesis
  proof (cases b2)
    case None
    let ?d = "put_at (replicate 256 0) 0 (take 128 p1)"
    have l: "length (cleanBytesToString (bytes_at 0x5E 14 ?d)) \<le> 64" by (rule len1) simp
    show thesis
      by (rule that [OF _ small [OF l]]) (unfold decodeCredentials_def Let_def p1(1) None bind_outcome.simps option.case, rule refl)
  next
    case (Some b)
    then have "length b = 128" using assms(3) by simp
    then obtain p2 where p2: "RSADecrypt key b = Ok p2" by (rule RSADecrypt_total [OF assms(1)])
    let ?d = "put_at (put_at (replicate 256 0) 0 (take 128 p1)) 128 p2"
    have l: "length (cleanBytesToString (bytes_at 0x4E 50 ?d) @ cleanBytesToString (bytes_at 0xCE 14 ?d)) \<le> 64" by (rule len2)
    show thesis
      by (rule that [OF _ small [OF l]]) (unfold decodeCredentials_def Let_def p1(1) Some p2 bind_outcome.simps option.case, rule refl)
  qed
qed

lemma Authenticate_not_Panic: "fst (Authenticate env a u p ip d) \<noteq> Panic"
proof -
  have "fst (createAccount env u p ip d) \<noteq> Panic"
    by (auto simp: createAccount_def RegisterAccount_def Let_def split: option.split)
  then show ?thesis
    using FindAccount_not_Panic [of "pglower env" "faultFind env" u d]
    by (auto simp: Authenticate_def Let_def split: outcome.split prod.split)
qed

lemma sends_return:
  assumes "appends build body" "length body \<le> 65000"
  shows "returns (SendAsync env k opcode build c s)" "returns (SendAndCloseAsync env k opcode build c s)"
  by (rule build_packet_Ok [OF assms, of env opcode c], simp add: SendAsync_def SendAndCloseAsync_def Let_def)+

lemma fail_returns: "returns (sendLoginFail env k reason c s)"
  unfolding sendLoginFail_def by (rule sends_return(2) [OF appends_write(1)]) simp

lemma finally_returns: "returns m \<Longrightarrow> returns (finally_send m)"
  unfolding finally_send_def by (rule returns_bind) auto

lemma GsSend_returns:
  assumes "appends build body" "length body \<le> 65532"
  shows "returns (GsSend env k opcode build g s)"
proof -
  let ?w = "build (WriteByte opcode (GetPacketWriter (pooled env)))"
  have wb: "wbuf ?w = [0, 0] @ opcode # body" using assms(1) by (simp add: appends_def writer_simps)
  obtain w' where "PrependLength ?w = Ok w'"
    by - (rule PrependLength_Ok [of ?w], use assms(2) wb in simp_all)
  then show ?thesis by (simp add: GsSend_def Let_def)
qed

lemma kick_player_returns: "length (string_enc u) \<le> 60000 \<Longrightarrow> returns (kick_player env u sid ks s)"
proof (induction ks)
  case (Cons k ks)
  then show ?case
    using GsSend_returns [OF appends_write(4) [of u], of env k KickPlayer "gs_of k s" s]
    by (auto simp: intro!: returns_bind)
qed simp


lemma login_kick_returns:
  assumes "length (string_enc u) \<le> 60000"
  shows "returns (login_kick (main_kicker env) u row s)"
  using kick_player_returns [OF assms]
  by (auto simp: login_kick_def main_kicker_def KickAccount_def KickFromGame_def NewKickManager_def
      KickAccount_LS_def KickAccount_GS_def split: option.split intro!: returns_bind)

lemma login_decode_returns:
  assumes "objs s k = Some c" "rsa_key_ok (privateKey (c_ScrambledKey c))" "length b1 = 128"
    and "pred_option (\<lambda>b. length b = 128) b2"
  obtains u p where "login_decode env k b1 b2 s = Ok (LAuthenticate u p, s)" "length (string_enc u) \<le> 60000"
  by (rule decodeCredentials_total [OF assms(2-4), of "uniLower env"])
    (simp add: login_decode_def client_of_def assms(1) that)

text \<open>What a goroutine carries: blocks of the key's size, then an account name of bounded length.\<close>

definition short :: "gostring \<Rightarrow> bool" where
  "short u \<longleftrightarrow> length (string_enc u) \<le> 60000"

fun sound_login :: "login_pc \<Rightarrow> bool" where
  "sound_login (LQueued b1 b2) = (length b1 = 128 \<and> pred_option (\<lambda>b. length b = 128) b2)"
| "sound_login (LDecode b1 b2) = (length b1 = 128 \<and> pred_option (\<lambda>b. length b = 128) b2)"
| "sound_login (LAuthenticate u p) = short u"
| "sound_login (LRegister u row) = short u"
| "sound_login (LKick u row) = short u"
| "sound_login (LFinish u row) = short u"
| "sound_login LDone = True"

lemma fresh_sound: "fresh_login pc \<Longrightarrow> sound_login pc"
  by (cases pc) simp_all

lemma login_authenticate_returns: "returns (login_authenticate env auth k u p s)"
proof -
  obtain m d where a: "Authenticate (authEnv env) auth u p (c_RemoteIP (client_of k s)) (db s) = (m, d)" by force
  have "m \<noteq> Panic" using Authenticate_not_Panic [of "authEnv env" auth u p "c_RemoteIP (client_of k s)" "db s"] a by simp
  with a show ?thesis
    by (cases m)
      (auto simp: login_authenticate_def Let_def split: prod.split
        intro!: finally_returns fail_returns sends_return(2) [OF appends_write(1)])
qed

lemma login_register_returns: "returns (login_register env k u row s)"
  by (auto simp: login_register_def Let_def split: prod.split intro!: finally_returns fail_returns)

lemma login_finish_returns: "returns (login_finish env k u row s)"
  by (auto simp: login_finish_def Let_def intro!: finally_returns sends_return(1) [OF appends_login_ok])

lemma sound_advance:
  assumes "objs s k = Some c" "rsa_key_ok (privateKey (c_ScrambledKey c))" "sound_login pc"
  obtains pc' s' where "login_advance env auth (main_kicker env) k pc s = Ok (pc', s')" "sound_login pc'"
    "same_settings s s'" "only_queues s s'"
proof -
  have ret: "returns (login_advance env auth (main_kicker env) k pc s)"
  proof (cases pc)
    case (LDecode b1 b2)
    with assms(3) have b: "length b1 = 128" "pred_option (\<lambda>b. length b = 128) b2" by simp_all
    show ?thesis
      by (rule login_decode_returns [OF assms(1,2) b, of env]) (simp add: LDecode login_advance_def)
  qed (use assms(3) login_kick_returns in \<open>simp_all add: login_advance_def login_authenticate_returns
      login_register_returns login_finish_returns short_def\<close>)
  have keep: "sound_login pc'" if "login_advance env auth (main_kicker env) k pc s = Ok (pc', s')" for pc' s'
  proof (cases pc)
    case (LDecode b1 b2)
    with assms(3) have b: "length b1 = 128" "pred_option (\<lambda>b. length b = 128) b2" by simp_all
    show ?thesis
      by (rule login_decode_returns [OF assms(1,2) b, of env]) (use that in \<open>auto simp: LDecode login_advance_def short_def\<close>)
  qed (use that assms(3) in \<open>auto simp: login_advance_def login_authenticate_def login_register_def login_kick_def
        login_finish_def Let_def bind_outcome_Ok_iff dest!: finally_send_done
      split: outcome.splits option.splits prod.splits if_splits\<close>)
  from ret obtain pc' s' where a: "login_advance env auth (main_kicker env) k pc s = Ok (pc', s')"
    by (auto simp: returns_def)
  with settings.login_advance_rel [OF assms(1), of env auth pc] queueing.login_advance_rel [OF assms(1), of env auth pc]
    keep [OF a] show thesis by (intro that) (simp_all add: post_def)
qed

text \<open>Every client object holds a proper key: this depends on the identities of the connections only.\<close>

definition good_objs :: "LoginServer \<Rightarrow> bool" where
  "good_objs s \<longleftrightarrow> (\<forall>k c. objs s k = Some c \<longrightarrow> rsa_key_ok (privateKey (c_ScrambledKey c)))"

lemma idents_obj: "idents s k = Some i \<longleftrightarrow> (\<exists>c. objs s k = Some c \<and> ident c = i)"
  by (auto simp: idents_def)

lemma idents_dom: "idents s' = idents s \<Longrightarrow> objs s k = Some c \<Longrightarrow> \<exists>c'. objs s' k = Some c' \<and> ident c' = ident c"
  using idents_obj by metis

lemma good_objs_idents:
  assumes "idents s' = idents s" "good_objs s"
  shows "good_objs s'"
  unfolding good_objs_def
proof (intro allI impI)
  fix k c assume "objs s' k = Some c"
  from idents_dom [OF assms(1) [symmetric] this] assms(2)
  show "rsa_key_ok (privateKey (c_ScrambledKey c))" by (auto simp: good_objs_def ident_def) metis
qed

lemma sound_run:
  "objs s k = Some c \<Longrightarrow> rsa_key_ok (privateKey (c_ScrambledKey c)) \<Longrightarrow> sound_login pc \<Longrightarrow>
    returns (login_run n env auth (main_kicker env) k pc s)"
proof (induction n arbitrary: pc s c)
  case (Suc n)
  obtain pc' s' where a: "login_advance env auth (main_kicker env) k pc s = Ok (pc', s')" "sound_login pc'" "same_settings s s'"
    by (rule sound_advance [OF Suc.prems])
  then have "idents s' = idents s" by (simp add: same_settings_def)
  from idents_dom [OF this Suc.prems(1)] obtain c' where "objs s' k = Some c'" "ident c' = ident c" by blast
  moreover from this(2) Suc.prems(2) have "rsa_key_ok (privateKey (c_ScrambledKey c'))" by (simp add: ident_def)
  ultimately show ?case using Suc.IH a(1,2) by simp
qed simp

lemma login_run_ends:
  assumes "objs s k = Some c" "rsa_key_ok (privateKey (c_ScrambledKey c))" "sound_login pc" "phases_left pc \<le> n"
  shows "\<exists>s'. login_run n env auth (main_kicker env) k pc s = Ok (LDone, s')"
proof -
  obtain pc' s' where r: "login_run n env auth (main_kicker env) k pc s = Ok (pc', s')"
    using sound_run [OF assms(1-3), of n env auth] by (auto simp: returns_def)
  with login_run_left [OF r] assms(4) phases_left_0 [of pc'] show ?thesis by simp
qed

end
