(* ===== verification/Panic_Freedom.thy ===== *)
theory Panic_Freedom
  imports Login_Outcomes
begin

text \<open>
  The server does not panic, except on a frame that announces too few bytes. What that needs of the
  state is an invariant beside \<open>server_inv\<close>: proper keys in all client objects, blocks of the right
  size in the queue, and account names short enough for the packets they are sent in. The handlers
  then return whatever a packet contains, and so does every event whose frames are long enough.
\<close>

section \<open>The state that panics never start from\<close>

definition calm :: "history \<Rightarrow> LoginServer \<Rightarrow> bool" where
  "calm H s \<longleftrightarrow> good_objs s \<and> list_all (\<lambda>(k, pc). sound_login pc) (pendingLogins s)
     \<and> (\<forall>(k, u, row) \<in> H. short u)"

definition good_pool :: "LoginServer \<Rightarrow> bool" where
  "good_pool s \<longleftrightarrow> (\<forall>sk \<in> set (rsaPool s). rsa_key_ok (privateKey sk))"

lemma calm_handled:
  assumes "calm H s" "same_settings s s'" "only_queues s s'"
  shows "calm H s'"
proof -
  obtain qs where qs: "pendingLogins s' = pendingLogins s @ qs" "list_all (\<lambda>(k, pc). fresh_login pc) qs"
    using assms(3) by (auto simp: only_queues_def)
  then have "list_all (\<lambda>(k, pc). sound_login pc) qs" by (auto simp: list_all_iff intro: fresh_sound)
  moreover have "good_objs s'"
    using assms(1,2) by (auto simp: same_settings_def calm_def intro: good_objs_idents)
  ultimately show ?thesis using assms(1) by (simp add: calm_def qs(1))
qed

lemma calm_opens:
  assumes "calm H s" "good_pool s" "opens_with k s s'" "pendingLogins s' = pendingLogins s"
  shows "calm H s'"
  using assms by (auto simp: calm_def good_pool_def opens_with_def good_objs_def split: if_splits)

lemma calm_login_step:
  assumes "calm H s" "server_inv su H s"
  shows "\<exists>s'. handle_event su env (EvLogin i) s = Ok s' \<and> calm (H \<union> accepted su env (EvLogin i) s) s'"
proof (cases "i < length (pendingLogins s)")
  case False
  then show ?thesis using assms(1) by (simp add: login_step_def accepted_def)
next
  case True
  obtain k pc where kpc: "pendingLogins s ! i = (k, pc)" by force
  with True have mem: "(k, pc) \<in> set (pendingLogins s)" by (metis nth_mem)
  from pending_has_object [OF assms(2) this] obtain c where c: "objs s k = Some c" by auto
  have pc: "sound_login pc" and key: "rsa_key_ok (privateKey (c_ScrambledKey c))"
    using assms(1) mem c by (auto simp: calm_def list_all_iff good_objs_def)
  have H: "\<forall>(k, u, row) \<in> H \<union> accepted su env (EvLogin i) s. short u"
    using assms(1) True kpc pc by (auto simp: calm_def accepted_def split: login_pc.splits outcome.splits)
  obtain pc' s' where a: "login_advance env (lc_auth (su_listener su)) (main_kicker env) k pc s = Ok (pc', s')"
    "sound_login pc'" "same_settings s s'" "only_queues s s'"
    by (rule sound_advance [OF c key pc])
  have s': "calm H s'" by (rule calm_handled [OF assms(1) a(3,4)])
  let ?l = "if pc' = LDone then take i (pendingLogins s') @ drop (i + 1) (pendingLogins s')
    else (pendingLogins s')[i := (k, pc')]"
  have "\<forall>x \<in> set ?l. x \<in> set (pendingLogins s') \<or> x = (k, pc')"
    using set_update_subset_insert [of "pendingLogins s'" i "(k, pc')"] by (auto dest: in_set_takeD in_set_dropD)
  then have "list_all (\<lambda>(k, pc). sound_login pc) ?l"
    using s' a(2) unfolding calm_def list_all_iff by fastforce
  then have "calm (H \<union> accepted su env (EvLogin i) s) (s'\<lparr>pendingLogins := ?l\<rparr>)"
    using s' H by (simp add: calm_def good_objs_def)
  moreover have "calm (H \<union> accepted su env (EvLogin i) s) s" using assms(1) H by (simp add: calm_def)
  ultimately show ?thesis
    using True kpc a(1) by (auto simp: login_step_def Let_def)
qed

lemma calm_event:
  assumes "calm H s" "good_pool s" "server_inv su H s" "enabled su env ev s" "handle_event su env ev s = Ok s'"
  shows "calm (H \<union> accepted su env ev s) s'"
proof (cases "handled_event ev")
  case True
  then have "accepted su env ev s = {}" by (cases ev) (simp_all add: accepted_def)
  moreover have "same_settings s s'" "only_queues s s'"
    using settings.event_rel [OF True, of su env s] queueing.event_rel [OF True, of su env s] assms(5) by (simp_all add: post_def)
  ultimately show ?thesis using calm_handled [OF assms(1)] by simp
next
  case False
  then consider k ip rnd where "ev = EvOpen k ip rnd" | i where "ev = EvLogin i" | "ev = EvLimiterCleanup"
    by (cases ev) auto
  then show ?thesis
  proof cases
    case 1
    with assms(5) obtain a where "OnOpen env k ip rnd s = Ok (a, s')" by (auto simp: bind_outcome_Ok_iff)
    with OnOpen_frame [of env k ip rnd s] have "opens_with k s s'" "pendingLogins s' = pendingLogins s" by (simp_all add: post_def)
    with calm_opens [OF assms(1,2)] 1 show ?thesis by (simp add: accepted_def)
  next
    case 2
    with calm_login_step [OF assms(1,3), of env i] assms(5) show ?thesis by auto
  next
    case 3
    with assms(1,5) show ?thesis by (auto simp: calm_def good_objs_def accepted_def)
  qed
qed

lemma reach_calm:
  "reach su s0 H s \<Longrightarrow> server_inv su {} s0 \<Longrightarrow> good_pool s0 \<Longrightarrow> calm {} s0 \<Longrightarrow> calm H s \<and> good_pool s"
proof (induction rule: reach.induct)
  case (step H s env ev s')
  note inv = reach_inv [OF step.hyps(1) step.prems(1)]
  have "same_config s s'"
    using event_frame [OF step.hyps(2) inv] step.hyps(3) by (simp add: post_def)
  with step.IH [OF step.prems] have "good_pool s'" by (simp add: same_config_def good_pool_def)
  with step.IH [OF step.prems] calm_event [OF _ _ inv step.hyps(2,3)] show ?case by blast
qed simp

lemma boot_calm: "good_keys pool \<Longrightarrow> good_pool (boot cfg loaded pool keys d) \<and> calm {} (boot cfg loaded pool keys d)"
  by (auto simp: good_keys_def good_pool_def calm_def good_objs_def list_all_iff boot_def)


section \<open>Reading and sending\<close>

lemma reading_returns:
  assumes "good_read f" "wf_reader r" "\<And>x r'. f r = Ok (x, r') \<Longrightarrow> wf_reader r' \<Longrightarrow> returns (g (x, r'))"
  shows "returns (reading (f r) s g)"
  using good_readD [OF assms(1,2)] assms(3) by (auto simp: reading_def split: outcome.split)

lemmas read_returns = reading_returns [OF good_ReadByte] reading_returns [OF good_ReadInt(1)] reading_returns [OF good_ReadInt(2)]
  reading_returns [OF good_ReadString] reading_returns [OF good_ReadBytes]

lemma ignore_err_returns: "returns m \<Longrightarrow> returns (ignore_err m)"
  unfolding ignore_err_def by (rule returns_bind) auto

text \<open>A decoded string takes no more room when it is encoded again than it took in the packet.\<close>

lemma unat_uint16_le: "unat (u :: uint16) \<le> 0xFFFF"
proof -
  have "unat u < 2 ^ 16" using unsigned_less [of u] by simp
  then show ?thesis by simp
qed

lemma utf16_Decode_scalar: "list_all scalar (utf16_Decode us)"
proof (induction us rule: utf16_Decode.induct)
  case (2 u)
  show ?case using unat_uint16_le [of u]
    by (auto simp: scalar_def replacement_char_def high_surrogate_def low_surrogate_def)
next
  case (3 u v us)
  then show ?case using unat_uint16_le [of u]
    by (auto simp: scalar_def replacement_char_def high_surrogate_def low_surrogate_def)
qed simp

lemma length_utf16_units: "length (utf16_units r) = (if r \<le> 0xFFFF then 1 else 2)"
  by (simp add: utf16_units_def EncodeRune_def)

lemma utf16_Decode_count: "length (concat (map utf16_units (utf16_Decode us))) \<le> length us"
  by (induction us rule: utf16_Decode.induct)
    (auto simp: length_utf16_units replacement_char_def unat_uint16_le)

lemma length_units_of: "2 * length (units_of bs) \<le> length bs"
  by (induction bs rule: units_of.induct) simp_all

lemma ReadString_fits:
  assumes "wf_reader r" "ReadString r = Ok (str, r')"
  shows "length (string_enc str) + rpos r \<le> rpos r'" "rpos r' \<le> length (rbuf r')"
proof -
  show "rpos r' \<le> length (rbuf r')"
    using good_readD(2) [OF good_ReadString assms] by (simp add: wf_reader_def)
  obtain i where i: "find_terminator 0 (drop (rpos r) (rbuf r)) = Some i"
    using assms(2) by (auto simp: ReadString_def Let_def split: option.splits if_splits)
  define raw where "raw = take i (drop (rpos r) (rbuf r))"
  have r': "rpos r' = rpos r + (i + 2)"
    and str: "str = (if raw = [] then [] else utf8_enc (utf16_Decode (units_of raw)))"
    using assms(2) i by (auto simp: ReadString_def raw_def Let_def split: if_splits)
  have "length (string_enc str) \<le> length raw + 2"
  proof (cases "raw = []")
    case False
    have "utf8_runes str = utf16_Decode (units_of raw)"
      using False utf16_Decode_scalar by (simp add: str utf8_runes_enc)
    then have "length (string_enc str) = 2 * length (concat (map utf16_units (utf16_Decode (units_of raw)))) + 2"
      by (simp add: string_enc_def utf16_bytes_def concat_le_enc_length del: length_concat)
    with utf16_Decode_count [of "units_of raw"] length_units_of [of raw] show ?thesis by linarith
  qed (simp add: str string_enc_def utf16_bytes_def)
  moreover have "length raw \<le> i" by (simp add: raw_def)
  ultimately show "length (string_enc str) + rpos r \<le> rpos r'" by (simp add: r')
qed


section \<open>The handlers of clients\<close>

definition short_history :: "history \<Rightarrow> bool" where
  "short_history H \<longleftrightarrow> (\<forall>(k, u, row) \<in> H. short u)"

lemma request_characters_returns: "short u \<Longrightarrow> returns (request_characters env u aid ks s)"
proof (induction ks arbitrary: s)
  case (Cons k ks)
  have "appends (\<lambda>w. WriteInt64 aid (WriteString u w)) (string_enc u @ le_enc 8 aid)"
    using appends_comp [OF appends_write(4) appends_write(3)] .
  note GsSend_returns [OF this, of env k RequestCharactersOp]
  with Cons show ?case by (auto simp: short_def intro!: returns_bind)
qed simp

lemma read_blocks_good: "wf_reader r \<Longrightarrow> readLoginBlocks r \<noteq> Panic"
  by (auto simp: readLoginBlocks_def ReadBytes_def bind_outcome_Panic_iff)

lemma AuthGG_returns: "wf_reader r \<Longrightarrow> returns (AuthGG env k c r s)"
  unfolding AuthGG_def
  by (auto simp: Let_def intro!: read_returns ignore_err_returns sends_return [OF appends_write(1)]
      sends_return [OF appends_write(2)])

lemma HandleLogin_returns: "wf_reader r \<Longrightarrow> returns (HandleLogin env k c r s)"
  using read_blocks_good [of r] fail_returns by (auto simp: HandleLogin_def split: outcome.split)

lemma HandleServerList_returns:
  assumes "wf_reader r" "c_State c = StateAuthedLogin \<Longrightarrow> short (c_Account c)"
  shows "returns (HandleServerList env (main_kicker env) k c r s)"
proof (cases "c_State c = StateAuthedLogin")
  case False
  then show ?thesis by (simp add: HandleServerList_def)
next
  case True
  have "returns (RequestCharacters (main_kicker env) (c_Account c) aid s')" for aid s'
    using request_characters_returns assms(2) True
    by (simp add: RequestCharacters_def main_kicker_def NewKickManager_def RequestCharacters_GS_def)
  moreover have "returns (SendAsync env k ServerServerList
      (build_server_list p6 (GetServers L) counts has lastServer) c' s')" for p6 L counts has lastServer c' s'
    by (rule sends_return(1) [OF appends_server_list])
      (rule order_trans [OF server_list_body_small], simp)
  ultimately show ?thesis
    unfolding HandleServerList_def
    using assms(1) True
    by (auto simp: Let_def split: prod.split intro!: read_returns returns_bind ignore_err_returns)
qed

lemma GameServerLogin_returns: "wf_reader r \<Longrightarrow> returns (GameServerLogin ttl env k c r s)"
proof -
  have "appends (\<lambda>w. WriteInt32 b (WriteInt32 a w)) (le_enc 4 a @ le_enc 4 b)" for a b
    using appends_comp [OF appends_write(2) appends_write(2)] .
  then have "returns (grant_handoff ttl env k c sid s)" for sid
    unfolding grant_handoff_def Let_def by (rule sends_return(1)) simp
  then show "wf_reader r \<Longrightarrow> returns (GameServerLogin ttl env k c r s)"
    unfolding GameServerLogin_def by (auto intro!: read_returns)
qed

lemma Handle_returns:
  assumes "server_inv su H s" "short_history H" "objs s k = Some c" "wf_reader r"
  shows "returns (Handle (client_registry cfg (main_kicker env) env) k c opcode r s)"
proof -
  have "client_registry cfg (main_kicker env) env ! unat opcode \<in>
      {None, Some (AuthGG env), Some (HandleLogin env), Some (HandleServerList env (main_kicker env)),
       Some (GameServerLogin (lc_handoffTTL cfg) env)}"
    using unat_byte_lt [of opcode]
    by (auto simp: client_registry_def RegisterHandler_def NewRegistry_def nth_list_update Let_def)
  moreover have "c_State c = StateAuthedLogin \<Longrightarrow> short (c_Account c)"
    using inv_auth_ok [OF assms(1,3)] assms(2) by (auto simp: auth_ok_def authed_def short_history_def)
  note HandleServerList_returns [OF assms(4) this]
  ultimately show ?thesis
    using AuthGG_returns HandleLogin_returns GameServerLogin_returns assms(4)
    unfolding Handle_def by auto
qed

section \<open>The handlers of game servers\<close>

lemma good_read_bind:
  assumes "good_read f" "\<And>a. good_read (g a)"
  shows "good_read (\<lambda>r. bind_outcome (f r) (\<lambda>(a, r'). g a r'))"
  unfolding good_read_def
proof (intro allI impI)
  fix r assume r: "wf_reader r"
  show "bind_outcome (f r) (\<lambda>(a, r'). g a r') \<noteq> Panic \<and>
    (\<forall>b r''. bind_outcome (f r) (\<lambda>(a, r'). g a r') = Ok (b, r'') \<longrightarrow> wf_reader r'' \<and> rbuf r'' = rbuf r \<and> rpos r \<le> rpos r'')"
  proof (cases "f r")
    case (Ok x)
    obtain a r' where x: "x = (a, r')" by force
    from good_readD(2-4) [OF assms(1) r Ok [unfolded x]]
    have r': "wf_reader r'" "rbuf r' = rbuf r" "rpos r \<le> rpos r'" by simp_all
    show ?thesis
      unfolding Ok x bind_outcome.simps case_prod_conv
      using assms(2) [of a, unfolded good_read_def, rule_format, OF r'(1)] r'(2,3) by (metis le_trans)
  qed (use good_readD(1) [OF assms(1) r] in simp_all)
qed

lemma good_return: "good_read (\<lambda>r. Ok (a, r))"
  by (simp add: good_read_def)

lemma skip_strings_good: "good_read (skip_strings n)"
proof (induction n)
  case 0
  have "skip_strings 0 = (\<lambda>r. Ok ((), r))" by (simp add: fun_eq_iff)
  then show ?case by (simp add: good_return)
next
  case (Suc n)
  have "skip_strings (Suc n) = (\<lambda>r. bind_outcome (SkipString r) (\<lambda>(_, r'). skip_strings n r'))" by (simp add: fun_eq_iff)
  then show ?case using good_read_bind [OF good_SkipString Suc] by simp
qed

lemma read_hosts_good: "good_read (read_hosts n)"
proof -
  have "good_read (\<lambda>r1. bind_outcome (skip_strings m r1) (\<lambda>(_, r2). Ok (host, r2)))" for m and host :: gostring
    by (rule good_read_bind [OF skip_strings_good good_return])
  from good_read_bind [OF good_ReadString this] show ?thesis
    by (cases "n > 0") (simp_all add: read_hosts_def [abs_def] good_return)
qed

lemma HandleInit_returns: "wf_reader r \<Longrightarrow> returns (HandleInit env k g r s)"
  unfolding HandleInit_def
  by (auto simp: Let_def not_less intro!: read_returns reading_returns [OF read_hosts_good] ignore_err_returns
      GsSend_returns [OF appends_write(1)])

lemma players_in_game_returns: "wf_reader r \<Longrightarrow> returns (players_in_game n sid r s)"
  by (induction n arbitrary: r s) (auto intro!: read_returns)

lemma status_updates_returns: "wf_reader r \<Longrightarrow> returns (status_updates n sid r s)"
  by (induction n arbitrary: r s) (auto intro!: read_returns)

lemma gs_service_handlers_return:
  assumes "wf_reader r"
  shows "returns (HandlePlayerInGame k g r s)" "returns (HandlePlayerLogout k g r s)"
    "returns (HandleReplyCharacters k g r s)" "returns (HandleStatus k g r s)"
  using assms
  by (auto simp: HandlePlayerInGame_def HandlePlayerLogout_def HandleReplyCharacters_def HandleStatus_def
      intro!: read_returns players_in_game_returns status_updates_returns split: option.split)

text \<open>The account of a request comes back in the answer; there is always room for it.\<close>

lemma ReadInt32_pos: "ReadInt32 r = Ok (v, r') \<Longrightarrow> rpos r' = rpos r + 4 \<and> rbuf r' = rbuf r \<and> rpos r' \<le> length (rbuf r)"
  by (auto simp: ReadInt_conv ReadUint32_def split: if_splits)

lemma HandleValidate_returns:
  assumes "wf_reader r" "length (rbuf r) \<le> 65532"
  shows "returns (HandleValidate env k g r s)"
proof -
  have send: "returns (ignore_err (GsSend env k PlayerAuthResponse (build_auth_response a success l i) g s'))"
    if "ReadString r = Ok (a, r1)" "ReadInt32 r1 = Ok (v1, r2)" "ReadInt32 r2 = Ok (v2, r3)" "ReadInt32 r3 = Ok (v3, r4)"
      "ReadInt32 r4 = Ok (v4, r5)" for a success l i s' r1 v1 r2 v2 r3 v3 r4 v4 r5
  proof (rule ignore_err_returns [OF GsSend_returns [OF appends_auth_response]])
    have "rbuf r1 = rbuf r" by (rule good_readD(3) [OF good_ReadString assms(1) that(1)])
    with ReadString_fits [OF assms(1) that(1)] ReadInt32_pos [OF that(2)] ReadInt32_pos [OF that(3)]
      ReadInt32_pos [OF that(4)] ReadInt32_pos [OF that(5)] assms(2)
    show "length (auth_response a success l i) \<le> 65532" by (simp add: auth_response_def)
  qed
  show ?thesis
    unfolding HandleValidate_def
    using assms(1) send
    by (auto simp: Let_def split: prod.split intro!: read_returns)
qed

lemma GsHandle_returns:
  assumes "wf_reader r" "length (rbuf r) \<le> 65532"
  shows "returns (GsHandle (gs_registry env) k g opcode r s)"
proof -
  have "gs_registry env ! unat opcode \<in>
      {None, Some (HandleInit env), Some HandlePlayerInGame, Some HandlePlayerLogout, Some (HandleValidate env),
       Some HandleReplyCharacters, Some HandleStatus}"
    using unat_byte_lt [of opcode]
    by (auto simp: gs_registry_def RegisterGsHandler_def NewGsRegistry_def nth_list_update Let_def)
  then show ?thesis
    using HandleInit_returns HandleValidate_returns gs_service_handlers_return assms
    unfolding GsHandle_def by auto
qed


section \<open>Frames\<close>

text \<open>
  Does the buffer, cut into frames, contain one that announces fewer than \<open>m\<close> bytes? (The length field
  counts itself: a frame below two has no room for it, below three none for the opcode.)
\<close>

function short_frame :: "nat \<Rightarrow> byte list \<Rightarrow> bool" where
  "short_frame m buf =
     (if length buf < 2 \<or> length buf < frame_size buf then False
      else if frame_size buf < m \<or> frame_size buf < 2 then True
      else short_frame m (drop (frame_size buf) buf))"
  by pat_completeness auto
termination
  by (relation "measure (\<lambda>(m, buf). length buf)") auto

declare short_frame.simps [simp del]

lemma frame_size_le: "frame_size buf \<le> 65535"
  using unat_uint16_le by (simp add: frame_size_def)

lemma GetPacketReader_wf:
  "length p \<le> 65535 \<Longrightarrow> GetPacketReader p = Ok \<lparr>rbuf = p, rpos = 0\<rparr> \<and> wf_reader \<lparr>rbuf = p, rpos = 0\<rparr>"
  by (simp add: GetPacketReader_def wf_reader_def MinPacketSize_def MaxPacketSize_def)

lemma Decrypt_length: "Decrypt cr p n = (ok, p') \<Longrightarrow> length p' = length p"
  by (auto simp: Decrypt_def split: if_splits)

lemma client_frames_returns:
  assumes "pglower (authEnv env) = su_lower su" "short_history H"
  shows "server_inv su H s \<Longrightarrow> objs s k \<noteq> None \<Longrightarrow> \<not> short_frame 2 buf \<Longrightarrow>
    returns (client_frames env (client_registry cfg (main_kicker env) env) k buf s)"
proof (induction "length buf" arbitrary: buf s rule: less_induct)
  case less
  let ?reg = "client_registry cfg (main_kicker env) env" and ?sz = "frame_size buf"
  obtain c where c: "objs s k = Some c" using less.prems(2) by auto
  show ?case
  proof (cases "length buf < 2 \<or> ?sz > MaxPacketSize \<or> length buf < ?sz")
    case True
    then show ?thesis by (auto simp: client_frames.simps [of env ?reg k buf s] Let_def)
  next
    case False
    with less.prems(3) have sz: "2 \<le> ?sz" "?sz \<le> 65535" "2 \<le> length buf" "?sz \<le> length buf"
      and rest: "\<not> short_frame 2 (drop ?sz buf)"
      using frame_size_le [of buf] by (auto simp: short_frame.simps [of 2 buf] split: if_splits)
    obtain ok payload where d: "Decrypt (c_Crypt (client_of k s)) (take (?sz - 2) (drop 2 buf))
        (int (length (take (?sz - 2) (drop 2 buf)))) = (ok, payload)" by force
    have len: "length (drop 1 payload) \<le> 65535" using Decrypt_length [OF d] sz by simp
    have handled: "returns (case Handle ?reg k (client_of k s) opcode \<lparr>rbuf = drop 1 payload, rpos = 0\<rparr> s of
        Panic \<Rightarrow> Panic | Error e \<Rightarrow> Error e | Ok (Some e, s1) \<Rightarrow> Ok (ActClose, s1)
      | Ok (None, s1) \<Rightarrow> client_frames env ?reg k (drop ?sz buf) (set_client k (Touch (now env) (client_of k s1)) s1))"
      for opcode
    proof -
      obtain e s1 where h: "Handle ?reg k c opcode \<lparr>rbuf = drop 1 payload, rpos = 0\<rparr> s = Ok (e, s1)"
        using Handle_returns [OF less.prems(1) assms(2) c conjunct2 [OF GetPacketReader_wf [OF len]], of cfg env opcode]
        unfolding returns_def by force
      with Handle_keeps [OF assms(1) c less.prems(1), of cfg opcode] have "keeps su H s s1" by (simp add: post_def)
      from keeps_touch [OF this less.prems(2), of "now env"]
      have t: "server_inv su H (set_client k (Touch (now env) (client_of k s1)) s1)" by (rule keeps_inv)
      have "returns (client_frames env ?reg k (drop ?sz buf) (set_client k (Touch (now env) (client_of k s1)) s1))"
        by (rule less.hyps [OF _ t _ rest]) (use sz in simp_all)
      then show ?thesis using h c by (simp add: client_of_def split: option.split)
    qed
    show ?thesis
      unfolding client_frames.simps [of env ?reg k buf s] Let_def d case_prod_conv conjunct1 [OF GetPacketReader_wf [OF len]]
      using handled sz(1) by simp
  qed
qed

lemma gs_frames_returns: "\<not> short_frame 3 buf \<Longrightarrow> returns (gs_frames env (gs_registry env) k buf s)"
proof (induction "length buf" arbitrary: buf s rule: less_induct)
  case less
  let ?reg = "gs_registry env" and ?sz = "frame_size buf"
  show ?case
  proof (cases "length buf < 2 \<or> ?sz > MaxPacketSize \<or> length buf < ?sz")
    case True
    then show ?thesis by (auto simp: gs_frames.simps [of env ?reg k buf s] Let_def)
  next
    case False
    with less.prems have sz: "3 \<le> ?sz" "?sz \<le> 65535" "2 \<le> length buf" "?sz \<le> length buf"
      and rest: "\<not> short_frame 3 (drop ?sz buf)"
      using frame_size_le [of buf] by (auto simp: short_frame.simps [of 3 buf] split: if_splits)
    let ?payload = "take (?sz - 2) (drop 2 buf)"
    have len: "length (drop 1 ?payload) \<le> 65532" and nonempty: "?payload \<noteq> []" using sz by auto
    have rd: "GetPacketReader (drop 1 ?payload) = Ok \<lparr>rbuf = drop 1 ?payload, rpos = 0\<rparr>"
      "wf_reader \<lparr>rbuf = drop 1 ?payload, rpos = 0\<rparr>"
      using GetPacketReader_wf [of "drop 1 ?payload"] len by simp_all
    have handled: "returns (case GsHandle ?reg k (gs_of k s) opcode \<lparr>rbuf = drop 1 ?payload, rpos = 0\<rparr> s of
        Panic \<Rightarrow> Panic | Error e \<Rightarrow> Error e | Ok (Some e, s1) \<Rightarrow> Ok (ActClose, s1)
      | Ok (None, s1) \<Rightarrow> gs_frames env ?reg k (drop ?sz buf) (set_gs k (GsTouch (now env) (gs_of k s1)) s1))" for opcode
    proof -
      obtain e s1 where h: "GsHandle ?reg k (gs_of k s) opcode \<lparr>rbuf = drop 1 ?payload, rpos = 0\<rparr> s = Ok (e, s1)"
        using GsHandle_returns [OF rd(2), of env k "gs_of k s" opcode s] len by (auto simp: returns_def)
      have "returns (gs_frames env ?reg k (drop ?sz buf) (set_gs k (GsTouch (now env) (gs_of k s1)) s1))"
        by (rule less.hyps [OF _ rest]) (use sz in simp)
      then show ?thesis using h by (simp split: option.split)
    qed
    show ?thesis
      unfolding gs_frames.simps [of env ?reg k buf s] Let_def rd(1)
      using handled nonempty sz(1) by simp
  qed
qed

section \<open>Events\<close>

text \<open>What no event of a well-behaved peer contains: a short frame, or data on a connection without an object.\<close>

fun provokes :: "LoginServer \<Rightarrow> event \<Rightarrow> bool" where
  "provokes s (EvTraffic k next) = (objs s k = None \<or> (\<exists>buf. next = Some buf \<and> short_frame 2 buf))"
| "provokes s (EvGsTraffic k next) = (gsobjs s k = None \<or> (\<exists>buf. next = Some buf \<and> short_frame 3 buf))"
| "provokes s _ = False"

lemma OnOpen_returns:
  assumes "good_keys (rsaPool s)" "wf_keys (loginCryptKeys s)"
  shows "returns (OnOpen env k ip rnd s)"
proof -
  obtain sk i where sk: "GetScrambledKey (rsaPool s) (rsaIdx s) = Ok (sk, i)" "length (Modulus sk) = 128"
    by (rule GetScrambledKey_good [OF assms(1)]) (rule that)
  have open_ok: "returns (open_client env k ip a sid key sk s')" if "loginCryptKeys s' = loginCryptKeys s" for a sid key s'
  proof -
    have l: "length (GetRandomBlowFishKey (loginCryptKeys s') (scast sid)) = 16"
      using assms(2) that by (simp add: length_GetRandomBlowFishKey)
    show ?thesis
      by (rule open_client_Ok [OF sk(2) l, of env k ip a key]) simp
  qed
  have "GenerateSessionKey rnd \<noteq> Panic" by (auto simp: GenerateSessionKey_def split: option.split)
  with sk(1) open_ok show ?thesis
    by (auto simp: OnOpen_def generateSessionID_def Let_def split: prod.split outcome.split)
qed

lemma event_returns:
  assumes "calm H s" "server_inv su H s" "good_keys (rsaPool s)" "wf_keys (loginCryptKeys s)" "enabled su env ev s"
    and "\<not> provokes s ev"
  shows "returns (handle_event su env ev s)"
proof -
  have h: "short_history H" using assms(1) by (simp add: calm_def short_history_def)
  have e: "pglower (authEnv env) = su_lower su" using assms(5) by (simp add: enabled_def)
  have "returns (OnTraffic cfg (main_kicker env) env k nxt s)"
    if "\<not> provokes s (EvTraffic k nxt)" for cfg k nxt
    using client_frames_returns [OF e h assms(2)] that by (auto simp: OnTraffic_def split: option.split)
  moreover have "returns (GsOnTraffic env k nxt s)" if "\<not> provokes s (EvGsTraffic k nxt)" for k nxt
    using gs_frames_returns that by (auto simp: GsOnTraffic_def split: option.split)
  moreover have "returns (handle_event su env (EvLogin i) s)" for i
    using calm_login_step [OF assms(1,2), of env i] by (auto simp: returns_def)
  ultimately show ?thesis
    using assms(6) OnOpen_returns [OF assms(3,4)] by (cases ev) (auto intro!: returns_bind)
qed


section \<open>Properties\<close>

lemma started:
  assumes "\<And>i. i < 32 \<Longrightarrow> \<exists>key. gen i = Some key \<and> rsa_key_ok key" "length entropy = 320" "wf_db (su_lower su) d"
    and "main_start getenv fault t gen (Some entropy) d = Ok s0" "reach su s0 H s"
  shows "server_inv su H s" "calm H s" "good_keys (rsaPool s)" "wf_keys (loginCryptKeys s)"
proof -
  obtain pool keys where m: "main_start getenv fault t gen (Some entropy) d
      = Ok (boot (NewConfig getenv) (GetActiveIPBans fault t d) pool keys d)" and g: "good_keys pool" "wf_keys keys"
    by (rule main_start_Ok [OF assms(1,2)])
  let ?s0 = "boot (NewConfig getenv) (GetActiveIPBans fault t d) pool keys d"
  have r: "reach su ?s0 H s" using assms(4,5) m by simp
  note i = boot_inv [OF assms(3), of "NewConfig getenv" "GetActiveIPBans fault t d" pool keys]
  show "server_inv su H s" by (rule reach_inv [OF r i])
  show "calm H s" using reach_calm [OF r i] boot_calm [OF g(1)] by blast
  have "same_config ?s0 s" using reach_frame [OF r i] by blast
  with g show "good_keys (rsaPool s)" "wf_keys (loginCryptKeys s)" by (simp_all add: same_config_def)
qed

text \<open>
  C5: only a short frame makes the server panic. Once started with proper keys, in every state it
  reaches, every event is handled: connections opened and closed, ticks, steps of login goroutines
  with whatever credentials, and data from clients and game servers with whatever contents. The one
  exception is \<open>provokes\<close>: data with a frame that announces fewer than two bytes (three from a game
  server), or data on a connection that was refused.
\<close>

theorem panics_only_on_short_frames:
  assumes "\<And>i. i < 32 \<Longrightarrow> \<exists>key. gen i = Some key \<and> rsa_key_ok key" "length entropy = 320" "wf_db (su_lower su) d"
    and "main_start getenv fault t gen (Some entropy) d = Ok s0" "reach su s0 H s"
    and "enabled su env ev s" "\<not> provokes s ev"
  shows "\<exists>s'. handle_event su env ev s = Ok s'"
proof -
  note st = started [OF assms(1-5)]
  from event_returns [OF st(2,1,3,4) assms(6,7)] show ?thesis by (simp add: returns_def)
qed

lemma demo_started:
  obtains s0 key sk where "main_start demo_getenv False 0 (\<lambda>_. Some small_key) (Some (replicate 320 3)) demo_db = Ok s0"
    "objs s0 = Map.empty" "pendingLogins s0 = []" "admitted_client (demo_env 0) demo_ip (Some []) s0 key sk"
proof -
  have key: "\<exists>key. Some small_key = Some key \<and> rsa_key_ok key" using rsa_key_ok_small by blast
  obtain s0 where s0: "main_start demo_getenv False 0 (\<lambda>_. Some small_key) (Some (replicate 320 3)) demo_db = Ok s0"
    by (rule main_start_Ok [where gen = "\<lambda>_. Some small_key" and entropy = "replicate 320 3", OF key]) simp_all
  note st = demo_start [OF s0]
  then obtain pool keys where b: "good_keys pool" "wf_keys keys"
    "s0 = boot (NewConfig demo_getenv) (GetActiveIPBans False 0 demo_db) pool keys demo_db" by blast
  obtain key' sk where "admitted_client (demo_env 0) demo_ip (Some []) s0 key' sk"
    by (rule reach_admitted [OF reach.start [where su = demo_setup] demo_wf(2) b(1,2) st(2,3) [unfolded b(3)]]) (simp_all add: b(3))
  with s0 b(3) show thesis by (intro that [of s0 key' sk]) (simp_all add: boot_def)
qed

theorem panics_only_on_short_frames_witness:
  "\<exists>s0. main_start demo_getenv False 0 (\<lambda>_. Some small_key) (Some (replicate 320 3)) demo_db = Ok s0
     \<and> (\<exists>s'. handle_event demo_setup (demo_env 0) (EvOpen 7 demo_ip (Some [])) s0 = Ok s')"
proof -
  obtain s0 key sk where s0: "main_start demo_getenv False 0 (\<lambda>_. Some small_key) (Some (replicate 320 3)) demo_db = Ok s0"
    "objs s0 = Map.empty" by (rule demo_started)
  have "\<exists>s'. handle_event demo_setup (demo_env 0) (EvOpen 7 demo_ip (Some [])) s0 = Ok s'"
  proof (rule panics_only_on_short_frames [OF _ _ demo_wf(2) s0(1) reach.start])
    show "\<exists>key. Some small_key = Some key \<and> rsa_key_ok key" if "i < 32" for i :: nat using rsa_key_ok_small by blast
  qed (simp_all add: enabled_def s0(2))
  with s0 show ?thesis by blast
qed

text \<open>
  C14: and a short frame does make it panic. Data from an open client connection that begins with a
  frame of less than two bytes, and data from a game server that begins with one of less than three,
  end in a panic, in whatever state the server is.
\<close>

theorem short_frames_panic:
  assumes "objs s k \<noteq> None" "gsobjs s g \<noteq> None" "2 \<le> length buf" "2 \<le> length gbuf"
    and "frame_size buf < 2" "frame_size gbuf < 3"
  shows "handle_event su env (EvTraffic k (Some buf)) s = Panic
    \<and> handle_event su env (EvGsTraffic g (Some gbuf)) s = Panic"
proof
  show "handle_event su env (EvTraffic k (Some buf)) s = Panic"
    using assms(1,3,5) by (simp add: OnTraffic_def client_frames.simps [of _ _ _ buf] MinPacketSize_def MaxPacketSize_def)
  have "take (frame_size gbuf - 2) (drop 2 gbuf) = []" using assms(6) by simp
  with assms(2,4,6) show "handle_event su env (EvGsTraffic g (Some gbuf)) s = Panic"
    by (simp add: GsOnTraffic_def gs_frames.simps [of _ _ _ gbuf] Let_def MinPacketSize_def MaxPacketSize_def)
qed

theorem short_frames_panic_witness:
  "\<exists>s. objs s 7 \<noteq> None \<and> gsobjs s 5 \<noteq> None
     \<and> handle_event demo_setup (demo_env 9) (EvTraffic 7 (Some [1, 0])) s = Panic
     \<and> handle_event demo_setup (demo_env 9) (EvGsTraffic 5 (Some [2, 0])) s = Panic"
proof -
  obtain s c key where s: "reach demo_setup demo_server {(7, demo_name, demo_row)} s" "objs s = [7 \<mapsto> c]" by (rule demo_login)
  let ?s = "set_gs 5 \<lparr>g_RemoteIP = demo_ip, g_lastActivity = 0, g_ServerID = 0\<rparr> s"
  have o: "objs ?s 7 \<noteq> None" "gsobjs ?s 5 \<noteq> None" by (simp_all add: s(2))
  have f: "2 \<le> length [1 :: byte, 0]" "2 \<le> length [2 :: byte, 0]" "frame_size [1, 0] < 2" "frame_size [2, 0] < 3"
    by (simp_all add: frame_size_def)
  from short_frames_panic [OF o f, of demo_setup "demo_env 9"] o show ?thesis by blast
qed

text \<open>
  C6: every login ends. Whatever goroutine is pending in a state the server reaches, wherever it
  stands, run without interruption it is over after at most six phases: its decryption, its database
  queries, the kick of another session and the replies all return, whatever the client sent.
\<close>

theorem logins_always_end:
  assumes "\<And>i. i < 32 \<Longrightarrow> \<exists>key. gen i = Some key \<and> rsa_key_ok key" "length entropy = 320" "wf_db (su_lower su) d"
    and "main_start getenv fault t gen (Some entropy) d = Ok s0" "reach su s0 H s"
    and "(k, pc) \<in> set (pendingLogins s)"
  shows "\<exists>s'. login_run 6 env auth (main_kicker env) k pc s = Ok (LDone, s')"
proof -
  note st = started [OF assms(1-5)]
  from pending_has_object [OF st(1) assms(6)] obtain c where c: "objs s k = Some c" by auto
  have "rsa_key_ok (privateKey (c_ScrambledKey c))" "sound_login pc"
    using st(2) c assms(6) by (auto simp: calm_def good_objs_def list_all_iff)
  moreover have "phases_left pc \<le> 6" by (cases pc) simp_all
  ultimately show ?thesis by (rule login_run_ends [OF c])
qed


theorem logins_always_end_witness:
  "\<exists>s0 H s b s'. main_start demo_getenv False 0 (\<lambda>_. Some small_key) (Some (replicate 320 3)) demo_db = Ok s0
     \<and> reach demo_setup s0 H s \<and> pendingLogins s = [(7, LQueued b None)]
     \<and> login_run 6 (demo_env 9) \<lparr>autoCreate = True\<rparr> (main_kicker (demo_env 9)) 7 (LQueued b None) s = Ok (LDone, s')"
proof -
  obtain s0 key sk where s0: "main_start demo_getenv False 0 (\<lambda>_. Some small_key) (Some (replicate 320 3)) demo_db = Ok s0"
    "objs s0 = Map.empty" "pendingLogins s0 = []" "admitted_client (demo_env 0) demo_ip (Some []) s0 key sk"
    by (rule demo_started)
  have blocks: "length demo_block = 128" "pred_option (\<lambda>b. length b = 128) None" by simp_all
  obtain s1 s2 s where h: "handle_event demo_setup (demo_env 0) (EvOpen 7 demo_ip (Some [])) s0 = Ok s1"
      "handle_event demo_setup (demo_env 1) (EvTraffic 7 (Some (gg_packet (session_bfkey (demo_env 0) s0)
         (session_id (demo_env 0) s0)))) s1 = Ok s2"
      "handle_event demo_setup (demo_env 2) (EvTraffic 7 (Some (login_packet (session_bfkey (demo_env 0) s0) demo_block None))) s2 = Ok s"
    and p: "pendingLogins s = pendingLogins s0 @ [(7, LQueued demo_block None)]"
    by (rule login_queued [where e = demo_env, OF s0(4) demo_simps(17) blocks, of demo_setup 7]) blast
  let ?evs = "[(demo_env 0, EvOpen 7 demo_ip (Some [])), (demo_env 1, EvTraffic 7 (Some (gg_packet (session_bfkey (demo_env 0) s0)
      (session_id (demo_env 0) s0)))), (demo_env 2, EvTraffic 7 (Some (login_packet (session_bfkey (demo_env 0) s0) demo_block None)))]"
  have "run demo_setup ?evs s0 = Ok s" using h by (simp del: handle_event.simps)
  moreover have "run_enabled demo_setup ?evs s0"
    by (rule run_enabled_first) (simp_all add: enabled_def s0(2))
  ultimately have r: "reach demo_setup s0 ({} \<union> run_history demo_setup ?evs s0) s"
    by (intro run_reach [OF reach.start])
  have "\<exists>s'. login_run 6 (demo_env 9) \<lparr>autoCreate = True\<rparr> (main_kicker (demo_env 9)) 7 (LQueued demo_block None) s = Ok (LDone, s')"
  proof (rule logins_always_end [OF _ _ demo_wf(2) s0(1) r])
    show "\<exists>key. Some small_key = Some key \<and> rsa_key_ok key" if "i < 32" for i :: nat using rsa_key_ok_small by blast
  qed (simp_all add: p)
  with s0(1,3) r p show ?thesis by auto
qed

end
