(* ===== verification/Login_Races.thy ===== *)
theory Login_Races
  imports Panic_Freedom
begin

text \<open>
  How a login ends when it meets others: it takes over the session of an earlier login, it fails and
  counts towards a ban, or its client goes away before it is done. The last case leaves a session in
  the registry that no event of its connection removes, and so does a client that times out.
\<close>

section \<open>Taking over\<close>

text \<open>What the kick of a session hands to the network: the first matching connection of the iteration gets it.\<close>

definition kicked :: "Env \<Rightarrow> gostring \<Rightarrow> int32 \<Rightarrow> LoginServer \<Rightarrow> wire_event list" where
  "kicked env u sid s =
     (if sid = 0
      then (case find (\<lambda>k. k \<in> clients s \<and> AccountName (client_of k s) = u) (clientOrder env) of
              None \<Rightarrow> [] | Some k \<Rightarrow> [Closed k])
      else (case find (\<lambda>g. g \<in> gservers s \<and> g_ServerID (gs_of g s) = sid) (serverOrder env) of
              None \<Rightarrow> [] | Some g \<Rightarrow> [GsSent g (gs_packet (KickPlayer # string_enc u))]))"

lemma kick_first_wire:
  assumes "\<not> closeFails env"
  shows "wire (kick_first env u ks s) = wire s @ (case find (\<lambda>k. k \<in> clients s \<and> AccountName (client_of k s) = u) ks of
      None \<Rightarrow> [] | Some k \<Rightarrow> [Closed k])"
    and "objs (kick_first env u ks s) = objs s" "registry (kick_first env u ks s) = registry s"
    and "bans (kick_first env u ks s) = bans s"
  using assms by (induction ks) (simp_all add: CloseClient_def Let_def)

lemma kick_player_wire:
  assumes "short u" "\<not> writeFails env"
  obtains s' where "kick_player env u sid ks s = Ok s'"
    "wire s' = wire s @ (case find (\<lambda>g. g \<in> gservers s \<and> g_ServerID (gs_of g s) = sid) ks of
      None \<Rightarrow> [] | Some g \<Rightarrow> [GsSent g (gs_packet (KickPlayer # string_enc u))])"
    "objs s' = objs s" "registry s' = registry s" "bans s' = bans s"
proof -
  have "length (string_enc u) \<le> 65000" using assms(1) by (simp add: short_def)
  note send = GsSend_Ok [OF appends_write(4) this assms(2)]
  have "\<exists>s'. kick_player env u sid ks s = Ok s' \<and> objs s' = objs s \<and> registry s' = registry s \<and> bans s' = bans s \<and>
    wire s' = wire s @ (case find (\<lambda>g. g \<in> gservers s \<and> g_ServerID (gs_of g s) = sid) ks of
      None \<Rightarrow> [] | Some g \<Rightarrow> [GsSent g (gs_packet (KickPlayer # string_enc u))])"
    by (induction ks) (auto simp: send set_gs_def)
  with that show thesis by blast
qed

lemma login_kick_wire:
  assumes "short u" "\<not> writeFails env" "\<not> closeFails env" "Get u (registry s) = Some sess"
  obtains s' where "login_kick (main_kicker env) u row s = Ok (LFinish u row, s')"
    "wire s' = wire s @ kicked env u (ServerID sess) s" "objs s' = objs s" "registry s' = registry s" "bans s' = bans s"
proof (cases "ServerID sess = 0")
  case True
  with assms(4) kick_first_wire [OF assms(3), of u "clientOrder env" s] show thesis
    by (intro that [of "kick_first env u (clientOrder env) s"])
      (simp_all add: login_kick_def main_kicker_def NewKickManager_def KickAccount_def KickAccount_LS_def kicked_def)
next
  case False
  show thesis
  proof (rule kick_player_wire [OF assms(1,2), of "ServerID sess" "serverOrder env" s])
    fix s' assume "kick_player env u (ServerID sess) (serverOrder env) s = Ok s'"
      "wire s' = wire s @ (case find (\<lambda>g. g \<in> gservers s \<and> g_ServerID (gs_of g s) = ServerID sess) (serverOrder env) of
        None \<Rightarrow> [] | Some g \<Rightarrow> [GsSent g (gs_packet (KickPlayer # string_enc u))])"
      "objs s' = objs s" "registry s' = registry s" "bans s' = bans s"
    with False assms(4) show thesis
      by (intro that [of s']) (simp_all add: login_kick_def main_kicker_def NewKickManager_def KickFromGame_def
          KickAccount_GS_def kicked_def)
  qed
qed

lemma login_finish_wire:
  assumes "objs s k = Some c" "\<not> writeFails env" "wf_registry (registry s)"
  obtains out s' where "login_finish env k u row s = Ok (LDone, s')" "wire s' = wire s @ [Sent k out]"
    "client_reads (c_Crypt c) out (ServerLoginOK # login_ok_body (c_SessionKey c))"
    "objs s' k = Some (after_send (logged_in u row c))" "clients s' = clients s" "pendingLogins s' = pendingLogins s"
    "Get u (registry s') = Some \<lparr>LoginTime = now env, LastRejectionTime = zeroTime, SessionID = c_SessionID c, ServerID = 0\<rparr>"
proof -
  let ?s = "set_client k (logged_in u row c) (s\<lparr>bans := ResetAttempts (c_RemoteAddr c) (bans s),
    registry := Register (now env) u (c_SessionID c) (registry s)\<rparr>)"
  obtain out where "SendAsync env k ServerLoginOK (build_login_ok (c_SessionKey c)) (logged_in u row c) ?s
      = Ok (None, emit (Sent k out) (set_client k (after_send (logged_in u row c)) ?s))"
    "client_reads (c_Crypt (logged_in u row c)) out (ServerLoginOK # login_ok_body (c_SessionKey c))"
    by (rule SendAsync_Ok [OF appends_login_ok [of "c_SessionKey c"] _ assms(2), of k ServerLoginOK "logged_in u row c" ?s]) simp
  with assms(1,3) show thesis
    by (intro that [of "emit (Sent k out) (set_client k (after_send (logged_in u row c)) ?s)" out])
      (simp_all add: login_finish_def Let_def client_of_def logged_in_def SetAccount_def finally_send_def Get_def registry_flat)
qed

section \<open>Properties\<close>

text \<open>
  C7: a second login takes the session over. When correct credentials arrive for an account whose
  session has been asked for before (less than thirty seconds ago), the old session is kicked where
  it lives: its client connection is closed, or its game server is told to drop the player. After that
  the new client gets LoginOK and the registry holds its session and no longer the old one.
\<close>

theorem takeover_kicks:
  assumes "objs s k = Some c" "\<not> writeFails env" "\<not> closeFails env" "wf_registry (registry s)"
    and "decodeCredentials (uniLower env) (c_ScrambledKey c) b1 b2 = Ok (u, p)" "short u"
    and "Authenticate (authEnv env) auth u p (c_RemoteIP c) (db s) = (Ok row, d)"
    and "Get u (registry s) = Some old" "SessionID old \<noteq> - 1"
    and "LastRejectionTime old \<noteq> zeroTime" "Sub (now env) (LastRejectionTime old) < seconds 30"
  shows "\<exists>s' out. processLogin env auth (main_kicker env) k b1 b2 s = Ok s'
    \<and> wire s' = wire s @ kicked env u (ServerID old) s @ [Sent k out]
    \<and> client_reads (c_Crypt c) out (ServerLoginOK # login_ok_body (c_SessionKey c))
    \<and> Get u (registry s') = Some \<lparr>LoginTime = now env, LastRejectionTime = zeroTime, SessionID = c_SessionID c, ServerID = 0\<rparr>"
proof -
  define R where "R = snd (TryRegister (now env) u (registry s))"
  have R: "wf_registry R" "Get u R = Some (old\<lparr>LastRejectionTime := zeroTime\<rparr>)"
    "TryRegister (now env) u (registry s) = ((True, True), R)"
    using TryRegister_flat [OF assms(4), of "now env" u] wf_registry_ops(2) [OF assms(4), of "now env" u] assms(8-11)
    by (simp_all add: R_def Get_def try_register_def prod_eq_iff)
  let ?s1 = "s\<lparr>db := d, metrics := (metrics s)\<lparr>LoginSuccess := LoginSuccess (metrics s) + 1\<rparr>, registry := R\<rparr>"
  have k: "kicked env u sid (s\<lparr>db := d, metrics := m, registry := R\<rparr>) = kicked env u sid s" for sid m
    by (simp add: kicked_def client_of_def gs_of_def)
  obtain s2 where s2: "login_kick (main_kicker env) u row ?s1 = Ok (LFinish u row, s2)"
    "wire s2 = wire s @ kicked env u (ServerID old) s" "objs s2 = objs s" "registry s2 = R"
    by (rule login_kick_wire [OF assms(6,2,3), of ?s1 "old\<lparr>LastRejectionTime := zeroTime\<rparr>" row]) (simp_all add: R k)
  have "objs s2 k = Some c" "wf_registry (registry s2)" using assms(1) R(1) s2 by simp_all
  then obtain out s' where s': "login_finish env k u row s2 = Ok (LDone, s')" "wire s' = wire s2 @ [Sent k out]"
    "client_reads (c_Crypt c) out (ServerLoginOK # login_ok_body (c_SessionKey c))"
    "Get u (registry s') = Some \<lparr>LoginTime = now env, LastRejectionTime = zeroTime, SessionID = c_SessionID c, ServerID = 0\<rparr>"
    by (rule login_finish_wire [OF _ assms(2)]) blast
  have "processLogin env auth (main_kicker env) k b1 b2 s = Ok s'"
    using assms(1,5,7) R(3) s2(1) s'(1)
    by (simp add: processLogin_def numeral_eq_Suc login_advance_def login_decode_def client_of_def
        login_authenticate_def login_register_def Let_def)
  with s' s2(2) show ?thesis by auto
qed


text \<open>The demo server with \<open>bob\<close> in game on server 3, already asked for once, and a second client of his.\<close>

definition second_client :: Client where
  "second_client = (new_client demo_ip (Addr4 10 0 0 1) 77 \<lparr>LoginOkID1 = 1, LoginOkID2 = 2, PlayOkID1 = 3, PlayOkID2 = 4\<rparr>
     plain_key (replicate 16 7))\<lparr>c_State := StateAuthedGG\<rparr>"

definition demo_game :: GameServerClient where
  "demo_game = \<lparr>g_RemoteIP = demo_ip, g_lastActivity = 0, g_ServerID = 3\<rparr>"

definition in_game :: LoginServer where
  "in_game = demo_server\<lparr>objs := [7 \<mapsto> second_client], clients := {7}, gsobjs := [9 \<mapsto> demo_game], gservers := {9},
     registry := snd (TryRegister 99000000000 demo_name (SetGS demo_name 3 (Register 1000000000 demo_name 55 NewSessionRegistry)))\<rparr>"

lemma in_game_registry:
  "wf_registry (registry in_game)"
  "Get demo_name (registry in_game) = Some \<lparr>LoginTime = 1000000000, LastRejectionTime = 99000000000, SessionID = 55, ServerID = 3\<rparr>"
  by (simp_all add: in_game_def wf_registry_ops Get_def TryRegister_flat registry_flat try_register_def zeroTime_def)

theorem takeover_kicks_witness:
  "\<exists>s' out. processLogin (demo_env 0) \<lparr>autoCreate = True\<rparr> (main_kicker (demo_env 0)) 7 demo_block None in_game = Ok s'
    \<and> wire s' = [GsSent 9 (gs_packet (KickPlayer # string_enc demo_name)), Sent 7 out]"
proof -
  obtain d where d: "Authenticate example_env \<lparr>autoCreate = True\<rparr> demo_name demo_pw demo_ip demo_db = (Ok demo_row, d)"
    by (rule demo_authenticate)
  have o: "objs in_game 7 = Some second_client" "db in_game = demo_db" "wire in_game = []" by (simp_all add: in_game_def)
  have c: "c_ScrambledKey second_client = plain_key" "c_RemoteIP second_client = demo_ip"
    by (simp_all add: second_client_def new_client_def)
  have "kicked (demo_env 0) demo_name 3 in_game = [GsSent 9 (gs_packet (KickPlayer # string_enc demo_name))]"
    by (simp add: kicked_def in_game_def demo_env_def gs_of_def demo_game_def)
  moreover have "\<not> closeFails (demo_env 0)" "short demo_name" using demo_name_wire by (simp_all add: demo_env_def short_def)
  ultimately show ?thesis
    using takeover_kicks [OF o(1) demo_simps(17) _ in_game_registry(1), of 0 demo_block None demo_name demo_pw
        "\<lparr>autoCreate = True\<rparr>" demo_row d "\<lparr>LoginTime = 1000000000, LastRejectionTime = 99000000000, SessionID = 55, ServerID = 3\<rparr>"]
    by (auto simp: c o d demo_credentials in_game_registry(2) zeroTime_def Sub_def seconds_def)
qed


section \<open>Failing\<close>

lemma banned_refused:
  assumes "\<not> IsLoopback (addr_of env ip)" "ipBans (bans s) (addr_of env ip) = Some expiry" "now env \<le> expiry"
  obtains s' where "OnOpen env k ip rnd s = Ok (ActClose, s')" "wire s' = wire s" "clients s' = clients s"
proof -
  obtain allowed L where al: "Allow (now env) (addr_of env ip) (limiter s) = (allowed, L)" by force
  obtain B cmds where ib: "IsBanned (now env) (now env) (addr_of env ip) (bans s) = (True, B, cmds)"
    using IsBanned_active [OF assms] by (metis prod.collapse)
  show thesis
  proof (cases allowed)
    case True
    then show thesis
      by (intro that [of "s\<lparr>limiter := L, bans := B, banCmds := banCmds s @ cmds\<rparr>"])
        (simp_all add: OnOpen_def addr_of_def [symmetric] al ib)
  next
    case False
    then show thesis
      by (intro that [of "s\<lparr>limiter := L\<rparr>"]) (simp_all add: OnOpen_def addr_of_def [symmetric] al)
  qed
qed


lemma parse_ten: "ParseAddr p6 (lit ''10.0.0.1'') = Some (Addr4 10 0 0 1)"
  by code_simp

definition strict_server :: LoginServer where
  "strict_server = in_game\<lparr>bans := NewBanManager (Ok []) 1 (seconds 300)\<rparr>"



section \<open>Going away\<close>

lemma OnClose_gone: "k \<notin> clients s \<Longrightarrow> OnClose k s = s"
  by (simp add: OnClose_def)

lemma tick_clients_facts:
  "registry (tick_clients timeout env ks s) = registry s \<and> objs (tick_clients timeout env ks s) = objs s
     \<and> clients (tick_clients timeout env ks s)
         = clients s - {k \<in> set ks. now env - LastActivityNanos (client_of k s) > timeout}"
proof (induction ks arbitrary: s)
  case (Cons k ks)
  let ?s = "if k \<in> clients s \<and> now env - LastActivityNanos (client_of k s) > timeout
    then let s1 = snd (CloseClient env k s); m = metrics s1
         in s1\<lparr>clients := clients s1 - {k}, metrics := m\<lparr>ActiveConnections := ActiveConnections m - 1\<rparr>\<rparr>
    else s"
  have s: "registry ?s = registry s" "objs ?s = objs s" "client_of j ?s = client_of j s"
    "clients ?s = clients s - (if now env - LastActivityNanos (client_of k s) > timeout then {k} else {})" for j
    by (auto simp: CloseClient_def Let_def client_of_def)
  show ?case using Cons.IH [of ?s] s unfolding tick_clients.simps by auto
qed simp


definition finishing :: LoginServer where
  "finishing = in_game\<lparr>registry := NewSessionRegistry, pendingLogins := [(7, LFinish demo_name demo_row)]\<rparr>"

lemma finishing_simps:
  "objs finishing 7 = Some second_client" "clients finishing = {7}" "pendingLogins finishing = [(7, LFinish demo_name demo_row)]"
  "wf_registry (registry finishing)" "c_Account second_client = []" "c_SessionID second_client = 77"
  by (simp_all add: finishing_def in_game_def wf_registry_ops second_client_def new_client_def)


text \<open>
  C16: a client that times out stays registered, too. Closing the connection of an idle lobby client
  removes its session from the registry; but when the tick has noticed the idle client first, the
  close finds it gone and the session stays.
\<close>

theorem tick_leaves_session:
  assumes "objs s k = Some c" "k \<in> clients s" "c_Account c \<noteq> []" "wf_registry (registry s)"
    and "Get (c_Account c) (registry s) = Some sess" "SessionID sess = c_SessionID c" "ServerID sess = 0"
    and "k \<in> set (clientOrder env)" "now env - c_lastActivity c > lc_timeout cfg"
  shows "Get (c_Account c) (registry (OnClose k s)) = None
    \<and> Get (c_Account c) (registry (OnClose k (OnTick cfg env s))) = Some sess"
proof
  show "Get (c_Account c) (registry (OnClose k s)) = None"
    using assms by (simp add: OnClose_def Let_def client_of_def AccountName_def Get_def registry_flat)
  have "k \<notin> clients (OnTick cfg env s)"
    using assms(1,8,9) tick_clients_facts [of "lc_timeout cfg" env "clientOrder env" s]
    by (simp add: OnTick_def client_of_def LastActivityNanos_def)
  then show "Get (c_Account c) (registry (OnClose k (OnTick cfg env s))) = Some sess"
    using assms(5) tick_clients_facts [of "lc_timeout cfg" env "clientOrder env" s] by (simp add: OnClose_gone OnTick_def)
qed

theorem tick_leaves_session_witness:
  "\<exists>s. Get demo_name (registry (OnClose 7 s)) = None
     \<and> map_option SessionID (Get demo_name (registry (OnClose 7 (OnTick (su_listener demo_setup) (demo_env 0) s)))) = Some 77"
proof -
  let ?c = "second_client\<lparr>c_Account := demo_name\<rparr>"
  let ?s = "finishing\<lparr>objs := [7 \<mapsto> ?c], registry := Register 0 demo_name 77 NewSessionRegistry\<rparr>"
  have "wf_registry (registry ?s)" by (simp add: wf_registry_ops)
  from tick_leaves_session [OF _ _ _ this, of 7 ?c "\<lparr>LoginTime = 0, LastRejectionTime = zeroTime, SessionID = 77, ServerID = 0\<rparr>"
      "demo_env 0" "su_listener demo_setup"]
  have "Get demo_name (registry (OnClose 7 ?s)) = None
     \<and> map_option SessionID (Get demo_name (registry (OnClose 7 (OnTick (su_listener demo_setup) (demo_env 0) ?s)))) = Some 77"
    by (simp add: finishing_simps Get_def registry_flat wf_registry_ops demo_name_def demo_env_def demo_setup_def main_setup_def
        second_client_def new_client_def seconds_def)
  then show ?thesis by blast
qed

end
