(* ===== verification/Traffic.thy ===== *)
theory Traffic
  imports Login_Races
begin

text \<open>
  Framing: how the bytes a connection delivers are cut into packets. A buffer that holds several frames
  is handled frame by frame, as if each had come alone. A frame of which only a part has arrived is
  dropped: the listeners take everything out of the connection (\<open>c.Next(-1)\<close>) and keep no rest.
\<close>

section \<open>The framing loop on a complete frame\<close>

definition complete_frame :: "byte list \<Rightarrow> bool" where
  "complete_frame p \<longleftrightarrow> 2 \<le> length p \<and> frame_size p = length p"

lemma frame_size_append: "2 \<le> length p \<Longrightarrow> frame_size (p @ rest) = frame_size p"
proof -
  assume "2 \<le> length p"
  then have "0 < length p" "1 < length p" by linarith+
  then show ?thesis by (simp add: frame_size_def nth_append)
qed

lemma complete_frame_append:
  assumes "complete_frame p"
  shows "frame_size (p @ rest) = length p" "take (length p - 2) (drop 2 (p @ rest)) = drop 2 p"
    "drop (length p) (p @ rest) = rest" "\<not> length (p @ rest) < 2" "\<not> length (p @ rest) < length p"
  using assms frame_size_append [of p rest] by (auto simp: complete_frame_def)

lemma client_frames_append:
  assumes "complete_frame p"
  shows "client_frames env reg k (p @ rest) s
    = (case client_frames env reg k p s of Ok (ActNone, s1) \<Rightarrow> client_frames env reg k rest s1 | m \<Rightarrow> m)"
proof -
  note f = complete_frame_append [OF assms, of rest]
  note g = complete_frame_append [OF assms, of "[]", unfolded append_Nil2]
  have nil: "client_frames env reg k [] s' = Ok (ActNone, s')" for s'
    by (simp add: client_frames.simps [of env reg k "[]"])
  show ?thesis
    unfolding client_frames.simps [of env reg k "p @ rest" s] client_frames.simps [of env reg k p s] f(1-3) g(1-3) nil Let_def
    using f(4,5) g(4,5) by (simp split: prod.split outcome.split option.split)
qed

lemma gs_frames_append:
  assumes "complete_frame p"
  shows "gs_frames env reg k (p @ rest) s
    = (case gs_frames env reg k p s of Ok (ActNone, s1) \<Rightarrow> gs_frames env reg k rest s1 | m \<Rightarrow> m)"
proof -
  note f = complete_frame_append [OF assms, of rest]
  note g = complete_frame_append [OF assms, of "[]", unfolded append_Nil2]
  have nil: "gs_frames env reg k [] s' = Ok (ActNone, s')" for s'
    by (simp add: gs_frames.simps [of env reg k "[]"])
  show ?thesis
    unfolding gs_frames.simps [of env reg k "p @ rest" s] gs_frames.simps [of env reg k p s] f(1-3) g(1-3) nil Let_def
    using f(4,5) g(4,5) by (simp split: outcome.split option.split prod.split)
qed

lemma cut_frame:
  assumes "complete_frame p" "n < length p"
  shows "client_frames env reg k (take n p) s = Ok (ActNone, s)" "gs_frames env reg' k (take n p) s = Ok (ActNone, s)"
proof -
  have "length (take n p) < 2 \<or> length (take n p) < frame_size (take n p)"
  proof (cases "n < 2")
    case False
    then have "frame_size (take n p @ drop n p) = frame_size (take n p)" using assms(2) by (intro frame_size_append) simp
    with assms show ?thesis by (simp add: complete_frame_def)
  qed (use assms(2) in simp)
  moreover have "\<not> (frame_size b < MinPacketSize \<or> frame_size b > MaxPacketSize)" for b
    using frame_size_le [of b] by (simp add: MinPacketSize_def MaxPacketSize_def)
  ultimately show "client_frames env reg k (take n p) s = Ok (ActNone, s)" "gs_frames env reg' k (take n p) s = Ok (ActNone, s)"
    by (auto simp: client_frames.simps [of env reg k "take n p"] gs_frames.simps [of env reg' k "take n p"] Let_def)
qed

lemma traffic_keeps_object:
  assumes "OnTraffic cfg (main_kicker env) env k nxt s = Ok (a, s')" "objs s k \<noteq> None"
  shows "objs s' k \<noteq> None"
proof -
  have "idents s \<subseteq>\<^sub>m idents s'"
    using identity.OnTraffic_rel [of cfg env k nxt s] assms(1) by (simp add: post_def same_identity_def)
  moreover have "k \<in> dom (idents s)" using assms(2) by (auto simp: idents_def)
  ultimately have "idents s' k = idents s k" unfolding map_le_def by simp
  then show ?thesis using assms(2) by (auto simp: idents_def)
qed

section \<open>Properties\<close>

text \<open>
  C12: packets are handled one by one, however they arrive, from clients and from game servers. Data that begins with a complete frame has
  the effect of that frame alone, followed by that of the rest, unless the frame made the server close
  the connection. But only whole frames count: of a frame that is cut anywhere nothing is kept, so a
  packet that the network delivers in two parts is lost.
\<close>

theorem traffic_by_frames:
  assumes "complete_frame p" "objs s k \<noteq> None" "n < length p"
  shows "OnTraffic cfg (main_kicker env) env k (Some (p @ rest)) s
      = (case OnTraffic cfg (main_kicker env) env k (Some p) s of
           Ok (ActNone, s1) \<Rightarrow> OnTraffic cfg (main_kicker env) env k (Some rest) s1
         | m \<Rightarrow> m)
    \<and> OnTraffic cfg (main_kicker env) env k (Some (take n p)) s = Ok (ActNone, s)
    \<and> gs_frames env (gs_registry env) g (p @ rest) s
      = (case gs_frames env (gs_registry env) g p s of
           Ok (ActNone, s1) \<Rightarrow> gs_frames env (gs_registry env) g rest s1
         | m \<Rightarrow> m)
    \<and> gs_frames env (gs_registry env) g (take n p) s = Ok (ActNone, s)"
proof (intro conjI)
  have o: "objs s1 k \<noteq> None" if "client_frames env (client_registry cfg (main_kicker env) env) k p s = Ok (a, s1)" for a s1
    using traffic_keeps_object [of cfg env k "Some p" s a s1] that assms(2) by (simp add: OnTraffic_def)
  show "OnTraffic cfg (main_kicker env) env k (Some (p @ rest)) s
      = (case OnTraffic cfg (main_kicker env) env k (Some p) s of
           Ok (ActNone, s1) \<Rightarrow> OnTraffic cfg (main_kicker env) env k (Some rest) s1
         | m \<Rightarrow> m)"
    using assms(2) o by (auto simp: OnTraffic_def client_frames_append [OF assms(1)] split: outcome.split Action.split)
  show "OnTraffic cfg (main_kicker env) env k (Some (take n p)) s = Ok (ActNone, s)"
    using assms(2) cut_frame(1) [OF assms(1,3)] by (simp add: OnTraffic_def)
qed (rule gs_frames_append [OF assms(1)], rule cut_frame(2) [OF assms(1,3)])

theorem traffic_by_frames_witness:
  "OnTraffic (su_listener demo_setup) (main_kicker (demo_env 0)) (demo_env 0) 7 (Some ([4, 0, 1, 2] @ [5])) in_game
     = (case OnTraffic (su_listener demo_setup) (main_kicker (demo_env 0)) (demo_env 0) 7 (Some [4, 0, 1, 2]) in_game of
          Ok (ActNone, s1) \<Rightarrow> OnTraffic (su_listener demo_setup) (main_kicker (demo_env 0)) (demo_env 0) 7 (Some [5]) s1
        | m \<Rightarrow> m)
   \<and> OnTraffic (su_listener demo_setup) (main_kicker (demo_env 0)) (demo_env 0) 7 (Some (take 3 [4, 0, 1, 2])) in_game
     = Ok (ActNone, in_game)"
  using traffic_by_frames [of "[4, 0, 1, 2]" in_game 7 3 "su_listener demo_setup" "demo_env 0" "[5]"]
  by (simp add: complete_frame_def frame_size_def in_game_def)

end
