(* ===== verification/Gs_Session.thy ===== *)
theory Gs_Session
  imports Traffic
begin

text \<open>
  The session of a game server: its announcement puts it into the list clients see, until its
  connection closes, and its validation requests are answered from the handoff store. A parser's
  progress is stated with \<open>stands\<close>: what is left before the reader.
\<close>

section \<open>Reading a composed body\<close>

definition stands :: "PacketReader \<Rightarrow> byte list \<Rightarrow> bool" where
  "stands r ys \<longleftrightarrow> wf_reader r \<and> drop (rpos r) (rbuf r) = ys"

lemma stands_start: "stands \<lparr>rbuf = ys, rpos = 0\<rparr> ys"
  by (simp add: stands_def wf_reader_def)

lemma stands_split: "stands r ys \<Longrightarrow> r = \<lparr>rbuf = take (rpos r) (rbuf r) @ ys, rpos = length (take (rpos r) (rbuf r))\<rparr>"
  by (cases r) (auto simp: stands_def wf_reader_def)

lemma stands_at: "stands \<lparr>rbuf = xs @ zs @ ys, rpos = length xs + length zs\<rparr> ys"
  by (simp add: stands_def wf_reader_def)

context codec begin

lemma read_stands:
  assumes "ok v" "stands r (enc v @ ys)"
  obtains r' where "take_off r = Ok (v, r')" "stands r' ys"
proof -
  note r = stands_split [OF assms(2)]
  show thesis
    by (rule that [OF _ stands_at]) (subst r, rule read_enc [OF assms(1)])
qed

end

lemma ReadBytes_stands:
  assumes "stands r (bs @ ys)"
  obtains r' where "ReadBytes (int (length bs)) r = Ok (bs, r')" "stands r' ys"
proof -
  have "length (rbuf r) - rpos r = length (bs @ ys)" using assms unfolding stands_def length_drop [symmetric] by simp
  with assms have l: "rpos r + length bs + length ys = length (rbuf r)" by (auto simp: stands_def wf_reader_def)
  have "drop (rpos r + length bs) (rbuf r) = drop (length bs) (drop (rpos r) (rbuf r))" by (simp add: add.commute)
  with assms have "drop (rpos r + length bs) (rbuf r) = ys" by (simp add: stands_def)
  with l assms show thesis
    by (intro that [of "r\<lparr>rpos := rpos r + length bs\<rparr>"]) (simp_all add: ReadBytes_def ensure_def stands_def wf_reader_def)
qed

lemma skip_strings_stands:
  "list_all wire_string hs \<Longrightarrow> stands r (concat (map string_enc hs) @ ys) \<Longrightarrow>
    \<exists>r'. skip_strings (length hs) r = Ok ((), r') \<and> stands r' ys"
proof (induction hs arbitrary: r)
  case (Cons h hs)
  then have "stands r (string_enc h @ concat (map string_enc hs) @ ys)" by simp
  with Cons.prems(1) obtain r1 where r1: "ReadString r = Ok (h, r1)" "stands r1 (concat (map string_enc hs) @ ys)"
    by (auto elim: string_codec.read_stands)
  with Cons.IH [OF _ r1(2)] Cons.prems(1) show ?case by (simp add: SkipString_ReadString)
qed simp

lemma read_hosts_stands:
  assumes "list_all wire_string (host # others)" "stands r (string_enc host @ concat (map string_enc others) @ ys)"
  obtains r' where "read_hosts (int (length others) + 1) r = Ok (host, r')" "stands r' ys"
proof -
  obtain r1 where r1: "ReadString r = Ok (host, r1)" "stands r1 (concat (map string_enc others) @ ys)"
    using assms by (auto elim: string_codec.read_stands)
  moreover obtain r2 where "skip_strings (length others) r1 = Ok ((), r2)" "stands r2 ys"
    using skip_strings_stands [OF _ r1(2)] assms(1) by auto
  moreover have "nat (int (length others) + 1) - 1 = length others" by simp
  ultimately show thesis by (intro that [of r2]) (simp_all add: read_hosts_def)
qed

section \<open>The announcement\<close>

text \<open>What a game server announces: its number, port, player limit, key, hosts, flags and type.\<close>

record Announcement =
  an_ID :: byte
  an_Skipped :: "byte \<times> byte"
  an_Port :: int16
  an_MaxPlayers :: int32
  an_Hex :: "byte list"
  an_Host :: gostring
  an_Others :: "gostring list"
  an_Pvp :: byte
  an_Brackets :: byte
  an_Type :: int32

definition announce_body :: "Announcement \<Rightarrow> byte list" where
  "announce_body a = [an_ID a] @ [fst (an_Skipped a)] @ [snd (an_Skipped a)] @ le_enc 2 (an_Port a) @ le_enc 4 (an_MaxPlayers a)
     @ le_enc 4 (of_nat (length (an_Hex a)) :: int32) @ an_Hex a @ le_enc 4 (of_nat (length (an_Others a) + 1) :: int32)
     @ string_enc (an_Host a) @ concat (map string_enc (an_Others a)) @ [an_Pvp a] @ [an_Brackets a] @ le_enc 4 (an_Type a)"

definition wf_announcement :: "Announcement \<Rightarrow> bool" where
  "wf_announcement a \<longleftrightarrow> list_all wire_string (an_Host a # an_Others a) \<and> length (an_Hex a) \<le> 512
     \<and> length (an_Others a) \<le> 7 \<and> length (announce_body a) \<le> 65532"

text \<open>The entry the list keeps: the port is sign-extended, the player limit cut to 16 bits.\<close>

definition announced :: "Announcement \<Rightarrow> Server" where
  "announced a = \<lparr>srv_IP = an_Host a, srv_Port = scast (an_Port a), srv_ID = ucast (an_ID a), srv_ServerType = an_Type a,
     srv_MaxPlayers = ucast (an_MaxPlayers a), srv_CurrentPlayers = 0, srv_Pvp = (an_Pvp a = 1),
     srv_Brackets = (an_Brackets a = 1), srv_Status = 1\<rparr>"

lemma sint_small_int32: "n < 2 ^ 31 \<Longrightarrow> sint (of_nat n :: int32) = int n"
  by (simp add: signed_of_nat signed_take_bit_int_eq_self)

lemma announce_stands:
  "stands \<lparr>rbuf = announce_body a, rpos = 0\<rparr> ([an_ID a] @ [fst (an_Skipped a)] @ [snd (an_Skipped a)] @ le_enc 2 (an_Port a)
     @ le_enc 4 (an_MaxPlayers a) @ le_enc 4 (of_nat (length (an_Hex a)) :: int32) @ an_Hex a
     @ le_enc 4 (of_nat (length (an_Others a) + 1) :: int32) @ string_enc (an_Host a) @ concat (map string_enc (an_Others a))
     @ [an_Pvp a] @ [an_Brackets a] @ le_enc 4 (an_Type a) @ [])"
  by (simp add: stands_def wf_reader_def announce_body_def)

lemma HandleInit_accepts:
  assumes "wf_announcement a" "\<not> writeFails env"
  shows "HandleInit env k g \<lparr>rbuf = announce_body a, rpos = 0\<rparr> s =
    Ok (None, set_gs k (GsTouch (now env) (g\<lparr>g_ServerID := ucast (an_ID a)\<rparr>))
      (emit (GsSent k (gs_packet [AuthResponse, an_ID a]))
        ((set_gs k (g\<lparr>g_ServerID := ucast (an_ID a)\<rparr>) s)\<lparr>serverList := RegisterServer (announced a) (serverList s)\<rparr>)))"
proof -
  have hosts: "list_all wire_string (an_Host a # an_Others a)" using assms(1) by (simp add: wf_announcement_def)
  have n: "sint (of_nat (length (an_Hex a)) :: int32) = int (length (an_Hex a))" "length (an_Hex a) \<le> 512"
    "sint (of_nat (length (an_Others a) + 1) :: int32) = int (length (an_Others a)) + 1" "length (an_Others a) \<le> 7"
    using assms(1) sint_small_int32 [of "length (an_Hex a)"] sint_small_int32 [of "length (an_Others a) + 1"]
    by (simp_all add: wf_announcement_def)
  have send: "GsSend env k AuthResponse (WriteByte (an_ID a)) g' s'
      = Ok (None, set_gs k (GsTouch (now env) g') (emit (GsSent k (gs_packet [AuthResponse, an_ID a])) s'))" for g' s'
    by (rule GsSend_Ok [OF appends_write(1) _ assms(2)]) simp
  show ?thesis
  proof (rule byte_codec.read_stands [OF TrueI announce_stands [of a]], (erule byte_codec.read_stands [OF TrueI])+,
      erule i16_codec.read_stands [OF TrueI], (erule i32_codec.read_stands [OF TrueI])+, erule ReadBytes_stands,
      erule i32_codec.read_stands [OF TrueI], erule read_hosts_stands [OF hosts], (erule byte_codec.read_stands [OF TrueI])+,
      erule i32_codec.read_stands [OF TrueI], goal_cases)
    case (1 r1 r2 r3 r4 r5 r6 r7 r8 r9 r10 r11 r12)
    then show ?case
      using n by (simp add: HandleInit_def MaxHexKeySize_def MaxHostCountCeil_def send announced_def Let_def)
  qed
qed


section \<open>The list\<close>

lemma active_servers_member:
  assumes "wf_servers L" "id_in_bounds i"
  shows "srv \<in> set (active_servers L) \<and> srv_ID srv = i \<longleftrightarrow> isActive L ! unat i \<and> srv = servers L ! unat i"
proof -
  note u = id_in_bounds_unat [OF assms(2)]
  have "srv_ID (servers L ! j) = i \<longleftrightarrow> j = unat i" if "j < MaxSupportedServers" "isActive L ! j" for j
  proof -
    have "srv_ID (servers L ! j) = of_nat j" using assms(1) that by (simp add: wf_servers_def)
    moreover have "unat (of_nat j :: int32) = j" using that(1) by (simp add: MaxSupportedServers_def unat_of_nat)
    ultimately show ?thesis using u by metis
  qed
  moreover have "srv \<in> set (active_servers L) \<longleftrightarrow> (\<exists>j < MaxSupportedServers. isActive L ! j \<and> srv = servers L ! j)"
    by (auto simp: active_servers_def)
  ultimately show ?thesis using u by metis
qed

lemma RegisterServer_listed:
  assumes "wf_servers L" "id_in_bounds (srv_ID srv)"
  shows "srv \<in> set (active_servers (RegisterServer srv L))"
proof -
  have "isActive (RegisterServer srv L) ! unat (srv_ID srv)" "servers (RegisterServer srv L) ! unat (srv_ID srv) = srv"
    using assms id_in_bounds_unat [OF assms(2)] by (simp_all add: RegisterServer_def wf_servers_def)
  with active_servers_member [OF wf_RegisterServer [OF assms(1)] assms(2), of srv srv] show ?thesis by simp
qed

lemma UnregisterServer_gone:
  assumes "wf_servers L" "id_in_bounds i" "srv \<in> set (active_servers (UnregisterServer i L))"
  shows "srv_ID srv \<noteq> i"
proof -
  have "\<not> isActive (UnregisterServer i L) ! unat i"
    using assms(1,2) id_in_bounds_unat [OF assms(2)] by (simp add: UnregisterServer_def wf_servers_def)
  with active_servers_member [OF wf_UnregisterServer [OF assms(1), of i] assms(2), of srv] assms(3) show ?thesis by blast
qed

section \<open>Properties\<close>

text \<open>
  C10: a game server that announces itself is listed, while it is connected. Its announcement (any
  well-formed body with a number below 32) is confirmed with its number, and the list that clients are
  sent contains its entry. When the connection closes, no server with that number is listed any more,
  except for the number 0: the code takes it for not announced, and the entry stays.
\<close>

theorem announced_server_listed:
  assumes "gsobjs s k = Some g" "k \<in> gservers s" "wf_servers (serverList s)" "wf_announcement a" "unat (an_ID a) < 32"
    and "\<not> writeFails env"
  shows "\<exists>s'. handle_event su env (EvGsTraffic k (Some (gs_packet (GameServerAuth # announce_body a)))) s = Ok s'
    \<and> wire s' = wire s @ [GsSent k (gs_packet [AuthResponse, an_ID a])]
    \<and> announced a \<in> set (snap_list (GetServers (serverList s')))
    \<and> (ucast (an_ID a) \<in> srv_ID ` set (snap_list (GetServers (serverList (GsOnClose k s')))) \<longleftrightarrow> an_ID a = 0)"
proof -
  let ?i = "ucast (an_ID a) :: int32"
  let ?g = "g\<lparr>g_ServerID := ?i\<rparr>" and ?L = "RegisterServer (announced a) (serverList s)"
  let ?s1 = "set_gs k (GsTouch (now env) ?g) (emit (GsSent k (gs_packet [AuthResponse, an_ID a])) ((set_gs k ?g s)\<lparr>serverList := ?L\<rparr>))"
  let ?s' = "set_gs k (GsTouch (now env) (GsTouch (now env) ?g)) ?s1"
  have len: "length (announce_body a) + 3 \<le> 65535" using assms(4) by (simp add: wf_announcement_def)
  define s' where "s' = ?s'"
  have ev: "handle_event su env (EvGsTraffic k (Some (gs_packet (GameServerAuth # announce_body a)))) s = Ok s'"
    unfolding s'_def
    by (rule gs_packet_event [OF assms(1) len gs_registry_nth(1) HandleInit_accepts [OF assms(4,6)]]) simp
  have s': "wire s' = wire s @ [GsSent k (gs_packet [AuthResponse, an_ID a])]" "serverList s' = ?L"
    "gservers s' = gservers s" "g_ServerID (gs_of k s') = ?i"
    by (simp_all add: s'_def set_gs_def emit_def gs_of_def GsTouch_def)
  have sint: "sint ?i = int (unat (an_ID a))" using assms(5) sint_small_int32 [of "unat (an_ID a)"] by simp
  have i: "id_in_bounds ?i" using assms(5) unfolding id_in_bounds_def sint MaxSupportedServers_def by linarith
  have id: "srv_ID (announced a) = ?i" by (simp add: announced_def)
  have listed: "announced a \<in> set (active_servers ?L)" by (rule RegisterServer_listed [OF assms(3)]) (simp add: id i)
  have zero: "?i = 0 \<longleftrightarrow> an_ID a = 0" using sint by (auto simp: unsigned_eq_0_iff)
  have close: "serverList (GsOnClose k s') = (if an_ID a = 0 then ?L else UnregisterServer ?i ?L)"
    using assms(2) zero s' by (simp add: GsOnClose_def Let_def)
  have "?i \<in> srv_ID ` set (active_servers (serverList (GsOnClose k s'))) \<longleftrightarrow> an_ID a = 0"
  proof (cases "an_ID a = 0")
    case True
    then have "serverList (GsOnClose k s') = ?L" using close by simp
    with True listed id show ?thesis by (metis imageI)
  next
    case False
    then have "serverList (GsOnClose k s') = UnregisterServer ?i ?L" using close by simp
    with False UnregisterServer_gone [OF wf_RegisterServer [OF assms(3)] i, of _ "announced a"] show ?thesis by (metis imageE)
  qed
  with ev s' listed show ?thesis unfolding GetServers_list by metis
qed

definition demo_announcement :: Announcement where
  "demo_announcement = \<lparr>an_ID = 3, an_Skipped = (0, 0), an_Port = 7777, an_MaxPlayers = 500, an_Hex = [1, 2, 3], an_Host = demo_name,
     an_Others = [], an_Pvp = 0, an_Brackets = 0, an_Type = 1\<rparr>"

lemma demo_announcement_wf: "wf_announcement demo_announcement"
  using demo_name_wire by (simp add: wf_announcement_def demo_announcement_def announce_body_def)

theorem announced_server_listed_witness:
  "\<exists>s'. handle_event demo_setup (demo_env 0) (EvGsTraffic 9 (Some (gs_packet (GameServerAuth # announce_body demo_announcement)))) in_game = Ok s'
    \<and> announced demo_announcement \<in> set (snap_list (GetServers (serverList s')))"
proof -
  have o: "gsobjs in_game 9 = Some demo_game" "9 \<in> gservers in_game" "wf_servers (serverList in_game)"
    by (simp_all add: in_game_def wf_NewServerList)
  have "unat (an_ID demo_announcement) < 32" by (simp add: demo_announcement_def)
  from announced_server_listed [OF o demo_announcement_wf this demo_simps(17), of demo_setup 0] show ?thesis by blast
qed

text \<open>The session a request is entitled to: stored under its identifier, not expired, its account and its key.\<close>

definition entitled :: "Env \<Rightarrow> gostring \<Rightarrow> SessionKey \<Rightarrow> LoginServer \<Rightarrow> Session option" where
  "entitled env account key s =
     (case sessions (handoffs s) (LoginOkID1 key) of
        None \<Rightarrow> None
      | Some sess \<Rightarrow>
          if now env \<le> ExpiresAt sess \<and> EqualFold (uniFold env) (SAccount sess) account \<and> SKey sess = key
          then Some sess else None)"

text \<open>
  C11: a game server's question is answered truthfully. A validation request for any account and key
  is answered with yes and the account number if the store holds an unexpired session under its
  first identifier, with the same key and (up to case) the same account, and otherwise with no and 0.
  Either way the session under that identifier is gone: one wrong question uses it up.
\<close>

theorem validation_answered:
  assumes "gsobjs s k = Some g" "wf_sessions (handoffs s)" "wire_string account" "length (string_enc account) \<le> 60000"
    and "\<not> writeFails env"
  shows "\<exists>s'. handle_event su env (EvGsTraffic k (Some (gs_packet (PlayerAuthRequest # validate_body account key)))) s = Ok s'
    \<and> wire s' = wire s @ [GsSent k (gs_packet (PlayerAuthResponse # auth_response account (entitled env account key s \<noteq> None)
          (LoginOkID1 key) (case entitled env account key s of None \<Rightarrow> 0 | Some sess \<Rightarrow> SAccountID sess)))]
    \<and> sessions (handoffs s') = (sessions (handoffs s))(LoginOkID1 key := None)"
proof -
  obtain found S where v: "ValidateAndDelete (now env) (LoginOkID1 key) (handoffs s) = (found, S)" by force
  have S: "sessions S = (sessions (handoffs s))(LoginOkID1 key := None)"
    using sessions_ops(3) [OF assms(2), of "now env" "LoginOkID1 key"] by (simp add: v)
  have found: "found = (case sessions (handoffs s) (LoginOkID1 key) of None \<Rightarrow> None
      | Some sess \<Rightarrow> if now env \<le> ExpiresAt sess then Some sess else None)"
    using ValidateAndDelete_result [of "now env" "LoginOkID1 key" "handoffs s"] by (simp add: v)
  have ok: "validates env account key found = (entitled env account key s \<noteq> None)"
    by (auto simp: found entitled_def validates_def split: option.split)
  have resp: "auth_response account (validates env account key found) l (account_number found)
      = auth_response account (entitled env account key s \<noteq> None) l
          (case entitled env account key s of None \<Rightarrow> 0 | Some sess \<Rightarrow> SAccountID sess)" for l
    unfolding ok by (auto simp: auth_response_def found entitled_def account_number_def split: option.split)
  show ?thesis
    unfolding gs_validate_event [OF assms(1,3-5) v] resp
    using S by (simp add: set_gs_def)
qed

theorem validation_answered_witness:
  "\<exists>s'. handle_event demo_setup (demo_env 0) (EvGsTraffic 9 (Some (gs_packet (PlayerAuthRequest
        # validate_body demo_name \<lparr>LoginOkID1 = 1, LoginOkID2 = 2, PlayOkID1 = 3, PlayOkID2 = 4\<rparr>)))) in_game = Ok s'
     \<and> wire s' = [GsSent 9 (gs_packet (PlayerAuthResponse # auth_response demo_name False 1 0))]"
proof -
  let ?key = "\<lparr>LoginOkID1 = 1, LoginOkID2 = 2, PlayOkID1 = 3, PlayOkID2 = 4\<rparr>"
  have o: "gsobjs in_game 9 = Some demo_game" "wf_sessions (handoffs in_game)" "wire in_game = []"
    "sessions (handoffs in_game) = Map.empty"
    by (simp_all add: in_game_def wf_session_ops sessions_ops)
  have e: "entitled (demo_env 0) demo_name ?key in_game = None" by (simp add: entitled_def o)
  from validation_answered [OF o(1,2) demo_name_wire demo_simps(17), of demo_setup 0 ?key] e o(3) show ?thesis by fastforce
qed

end
