(* ===== verification/Main_Program.thy ===== *)
theory Main_Program
  imports Gs_Session
begin

text \<open>
  \<open>cmd/main.go\<close> and what it starts: the log level (\<open>pkg/logger\<close>), the collector goroutine of
  \<open>internal/session\<close>, the boot and shutdown hooks of the two listeners, and the process from start-up
  through serving to the orderly shutdown or the fatal exit. What \<open>main\<close> gets from outside is a record
  \<open>Host\<close>: the environment variables, the database driver, the random source, the key generator. The
  state of the server inside the process is that of \<open>Login_Server\<close>, and so are its events.
\<close>

section \<open>The log level\<close>

datatype Level = DebugLevel | InfoLevel | WarnLevel | ErrorLevel

definition logger_init :: "(rune \<Rightarrow> rune) \<Rightarrow> environ \<Rightarrow> Level" where
  "logger_init ul getenv =
     (let level = ToLower ul (getenv (lit ''LOG_LEVEL''))
      in if level = lit ''debug'' then DebugLevel
         else if level = lit ''info'' then InfoLevel
         else if level = lit ''warn'' then WarnLevel
         else if level = lit ''error'' then ErrorLevel
         else DebugLevel)"

section \<open>Goroutines and hooks\<close>

text \<open>
  The loop of \<open>StartGC\<close>, one signal at a time: a tick removes what has expired, the closed context ends
  the loop. The state is whether the goroutine still runs, and the store.
\<close>

datatype gc_signal = GcTick gotime | GcStop

fun StartGC :: "gc_signal \<Rightarrow> bool \<times> session_shards \<Rightarrow> bool \<times> session_shards" where
  "StartGC (GcTick t) (on, S) = (on, if on then gc_tick t S else S)"
| "StartGC GcStop (on, S) = (False, S)"

text \<open>
  What a listener knows of its engine: the handle \<open>OnBoot\<close> stores, and the channel \<open>OnShutdown\<close>
  closes. Closing a closed channel panics. \<open>le_stopped\<close>: the engine has shut down and calls no more.
\<close>

record ListenerEngine =
  le_Engine :: bool
  le_stopCh :: bool
  le_stopped :: bool

definition new_engine :: ListenerEngine where
  "new_engine = \<lparr>le_Engine = False, le_stopCh = False, le_stopped = False\<rparr>"

definition OnBoot :: "ListenerEngine \<Rightarrow> ListenerEngine" where
  "OnBoot l = l\<lparr>le_Engine := True\<rparr>"

definition OnShutdown :: "ListenerEngine \<Rightarrow> ListenerEngine outcome" where
  "OnShutdown l = (if le_stopCh l then Panic else Ok (l\<lparr>le_stopCh := True\<rparr>))"

definition GsOnBoot :: "ListenerEngine \<Rightarrow> ListenerEngine" where
  "GsOnBoot l = l\<lparr>le_Engine := True\<rparr>"

definition GsOnShutdown :: "ListenerEngine \<Rightarrow> ListenerEngine outcome" where
  "GsOnShutdown l = (if le_stopCh l then Panic else Ok (l\<lparr>le_stopCh := True\<rparr>))"

section \<open>The process\<close>

record 'p Host =
  ho_getenv :: environ
  ho_driver :: "'p PoolDriver"
  ho_fault :: bool
  ho_now :: gotime
  ho_keys :: "nat \<Rightarrow> PrivateKey option"
  ho_entropy :: "byte list option"
  ho_data :: database
  ho_numCPU :: nat
  ho_lower :: "gostring \<Rightarrow> gostring"
  ho_uniLower :: "rune \<Rightarrow> rune"

text \<open>
  Where \<open>main\<close> stands: it waits for a signal, stops the client engine, stops the game server engine,
  closes the pool, has returned. A fatal log message exits with status 1, a panic ends the process too.
\<close>

datatype main_pc = MainServing | MainStopClients | MainStopServers | MainClosePool | MainDone | MainFatal | MainPanic

record 'p Process =
  pr_pc :: main_pc
  pr_level :: Level
  pr_pool :: "'p option"
  pr_closed :: "'p list"
  pr_gc :: bool
  pr_clients :: ListenerEngine
  pr_servers :: ListenerEngine
  pr_server :: "LoginServer option"

definition host_setup :: "'p Host \<Rightarrow> Setup" where
  "host_setup h = main_setup (NewConfig (ho_getenv h)) (ho_numCPU h) (ho_lower h)"

definition host_start :: "'p Host \<Rightarrow> LoginServer outcome" where
  "host_start h = main_start (ho_getenv h) (ho_fault h) (ho_now h) (ho_keys h) (ho_entropy h) (ho_data h)"

text \<open>Start-up: the collector is started first, then the pool is opened, then the server is set up.\<close>

definition main_init :: "'p Host \<Rightarrow> 'p Process" where
  "main_init h =
     (let p = \<lparr>pr_pc = MainServing, pr_level = logger_init (ho_uniLower h) (ho_getenv h), pr_pool = None, pr_closed = [],
                pr_gc = True, pr_clients = new_engine, pr_servers = new_engine, pr_server = None\<rparr>
      in case main_pool (ho_driver h) (NewConfig (ho_getenv h)) of
           (Inl e, shut) \<Rightarrow> p\<lparr>pr_pc := MainFatal, pr_closed := shut\<rparr>
         | (Inr pool, shut) \<Rightarrow>
             (case host_start h of
                Ok s \<Rightarrow> p\<lparr>pr_pool := Some pool, pr_closed := shut, pr_server := Some s\<rparr>
              | _ \<Rightarrow> p\<lparr>pr_pc := MainPanic, pr_pool := Some pool, pr_closed := shut\<rparr>))"

text \<open>
  \<open>Engine.Stop\<close> with the shutdown context: nothing for an engine that never booted; otherwise the
  engine stops in time and calls the hook, or it does not (\<open>ok\<close> is false), which is only logged.
\<close>

definition stop_engine :: "(ListenerEngine \<Rightarrow> ListenerEngine outcome) \<Rightarrow> bool \<Rightarrow> ListenerEngine \<Rightarrow> ListenerEngine outcome" where
  "stop_engine hook ok l =
     (if le_Engine l \<and> ok then bind_outcome (hook l) (\<lambda>l'. Ok (l'\<lparr>le_stopped := True\<rparr>)) else Ok l)"

text \<open>One step of \<open>main\<close> itself; the first is the arrival of the signal and the call of \<open>cancel\<close>.\<close>

definition main_step :: "bool \<Rightarrow> 'p Process \<Rightarrow> 'p Process" where
  "main_step ok p = (case pr_pc p of
     MainServing \<Rightarrow> p\<lparr>pr_pc := MainStopClients\<rparr>
   | MainStopClients \<Rightarrow>
       (case stop_engine OnShutdown ok (pr_clients p) of
          Ok l \<Rightarrow> p\<lparr>pr_pc := MainStopServers, pr_clients := l\<rparr>
        | _ \<Rightarrow> p\<lparr>pr_pc := MainPanic\<rparr>)
   | MainStopServers \<Rightarrow>
       (case stop_engine GsOnShutdown ok (pr_servers p) of
          Ok l \<Rightarrow> p\<lparr>pr_pc := MainClosePool, pr_servers := l\<rparr>
        | _ \<Rightarrow> p\<lparr>pr_pc := MainPanic\<rparr>)
   | MainClosePool \<Rightarrow>
       p\<lparr>pr_pc := MainDone, pr_closed := pr_closed p @ (case pr_pool p of None \<Rightarrow> [] | Some pool \<Rightarrow> [pool]), pr_pool := None\<rparr>
   | _ \<Rightarrow> p)"

text \<open>
  What happens to the process: engines boot, events of the server, the collector's tick and its end,
  the failure of an engine's \<open>Run\<close> (a fatal log message), and the steps of \<open>main\<close>.
\<close>

datatype pevent =
    PBootClients
  | PBootServers
  | PServer Env event
  | PCollect Env
  | PCollectorEnds
  | PRunError
  | PMain bool

text \<open>The server's part of the process after one of its events; a panic anywhere ends the process.\<close>

definition serve :: "'p Host \<Rightarrow> Env \<Rightarrow> event \<Rightarrow> LoginServer \<Rightarrow> 'p Process \<Rightarrow> 'p Process" where
  "serve h env ev s p = (case handle_event (host_setup h) env ev s of
     Ok s' \<Rightarrow> p\<lparr>pr_server := Some s'\<rparr>
   | _ \<Rightarrow> p\<lparr>pr_pc := MainPanic\<rparr>)"

definition collect :: "gc_signal \<Rightarrow> LoginServer \<Rightarrow> 'p Process \<Rightarrow> 'p Process" where
  "collect g s p = (let (on, S) = StartGC g (pr_gc p, handoffs s)
     in p\<lparr>pr_gc := on, pr_server := Some (s\<lparr>handoffs := S\<rparr>)\<rparr>)"

fun process_step :: "'p Host \<Rightarrow> pevent \<Rightarrow> LoginServer \<Rightarrow> 'p Process \<Rightarrow> 'p Process" where
  "process_step h PBootClients s p = p\<lparr>pr_clients := OnBoot (pr_clients p)\<rparr>"
| "process_step h PBootServers s p = p\<lparr>pr_servers := GsOnBoot (pr_servers p)\<rparr>"
| "process_step h (PServer env ev) s p = serve h env ev s p"
| "process_step h (PCollect env) s p = collect (GcTick (now env)) s p"
| "process_step h PCollectorEnds s p = collect GcStop s p"
| "process_step h PRunError s p = p\<lparr>pr_pc := MainFatal\<rparr>"
| "process_step h (PMain ok) s p = main_step ok p"

definition alive :: "'p Process \<Rightarrow> bool" where
  "alive p \<longleftrightarrow> pr_pc p \<notin> {MainDone, MainFatal, MainPanic}"

definition engine_runs :: "ListenerEngine \<Rightarrow> bool" where
  "engine_runs l \<longleftrightarrow> le_Engine l \<and> \<not> le_stopped l"

text \<open>An event of the server needs the engine that calls for it; the collector has events of its own.\<close>

fun called_for :: "'p Process \<Rightarrow> event \<Rightarrow> bool" where
  "called_for p (EvOpen k ip rnd) = engine_runs (pr_clients p)"
| "called_for p (EvTraffic k buf) = engine_runs (pr_clients p)"
| "called_for p (EvClose k) = engine_runs (pr_clients p)"
| "called_for p EvTick = engine_runs (pr_clients p)"
| "called_for p (EvGsOpen k ip) = engine_runs (pr_servers p)"
| "called_for p (EvGsTraffic k buf) = engine_runs (pr_servers p)"
| "called_for p (EvGsClose k) = engine_runs (pr_servers p)"
| "called_for p EvGsTick = engine_runs (pr_servers p)"
| "called_for p EvSessionGC = False"
| "called_for p _ = True"

fun possible :: "'p Host \<Rightarrow> pevent \<Rightarrow> LoginServer \<Rightarrow> 'p Process \<Rightarrow> bool" where
  "possible h PBootClients s p = (\<not> le_Engine (pr_clients p))"
| "possible h PBootServers s p = (\<not> le_Engine (pr_servers p))"
| "possible h (PServer env ev) s p = (enabled (host_setup h) env ev s \<and> called_for p ev)"
| "possible h (PCollect env) s p = (pr_gc p \<and> enabled (host_setup h) env EvSessionGC s)"
| "possible h PCollectorEnds s p = (pr_gc p \<and> pr_pc p \<noteq> MainServing)"
| "possible h PRunError s p = True"
| "possible h (PMain ok) s p = True"

inductive lives :: "'p Host \<Rightarrow> 'p Process \<Rightarrow> bool" for h :: "'p Host" where
  init: "lives h (main_init h)"
| step: "lives h p \<Longrightarrow> alive p \<Longrightarrow> pr_server p = Some s \<Longrightarrow> possible h pe s p \<Longrightarrow> lives h (process_step h pe s p)"


inductive_cases lives_stepE: "lives h p"

section \<open>What the process keeps\<close>

lemma main_init_cases:
  obtains (fatal) e shut where "main_pool (ho_driver h) (NewConfig (ho_getenv h)) = (Inl e, shut)"
      "pr_pc (main_init h) = MainFatal" "pr_server (main_init h) = None" "pr_closed (main_init h) = shut"
    | (panic) pool where "main_pool (ho_driver h) (NewConfig (ho_getenv h)) = (Inr pool, [])"
      "\<forall>s. host_start h \<noteq> Ok s" "pr_pc (main_init h) = MainPanic" "pr_server (main_init h) = None"
    | (serving) pool s where "main_pool (ho_driver h) (NewConfig (ho_getenv h)) = (Inr pool, [])" "host_start h = Ok s"
      "main_init h = \<lparr>pr_pc = MainServing, pr_level = logger_init (ho_uniLower h) (ho_getenv h), pr_pool = Some pool,
         pr_closed = [], pr_gc = True, pr_clients = new_engine, pr_servers = new_engine, pr_server = Some s\<rparr>"
proof (cases "main_pool (ho_driver h) (NewConfig (ho_getenv h))")
  case (Pair r shut)
  show thesis
  proof (cases r)
    case (Inl e)
    then show thesis using Pair by (intro fatal) (simp_all add: main_init_def)
  next
    case (Inr pool)
    then have "shut = []" using Pair by (auto simp: main_pool_def Let_def dest: OpenPool_outcomes(1))
    then show thesis using Pair Inr panic serving by (cases "host_start h") (simp_all add: main_init_def)
  qed
qed

text \<open>
  The server inside is always one that the events of \<open>Login_Server\<close> lead to, the pool stays open until
  \<open>main\<close> closes it as its last step, and the channel of a listener is open until its engine is stopped.
\<close>

definition process_inv :: "'p Host \<Rightarrow> 'p Process \<Rightarrow> bool" where
  "process_inv h p \<longleftrightarrow>
     (\<forall>s. pr_server p = Some s \<longrightarrow> (\<exists>s0 H pool. host_start h = Ok s0 \<and> reach (host_setup h) s0 H s
        \<and> main_pool (ho_driver h) (NewConfig (ho_getenv h)) = (Inr pool, [])
        \<and> (if pr_pc p = MainDone then pr_pool p = None \<and> pr_closed p = [pool] else pr_pool p = Some pool \<and> pr_closed p = [])))
     \<and> (pr_server p = None \<longrightarrow> pr_pc p = MainFatal \<or> pr_pc p = MainPanic)
     \<and> (pr_pc p \<in> {MainServing, MainStopClients} \<longrightarrow> \<not> le_stopCh (pr_clients p))
     \<and> (pr_pc p \<in> {MainServing, MainStopClients, MainStopServers} \<longrightarrow> \<not> le_stopCh (pr_servers p))"

lemma process_inv_init: "process_inv h (main_init h)"
  by (cases h rule: main_init_cases) (auto simp: process_inv_def new_engine_def intro: reach.start)

lemma process_inv_server:
  assumes "process_inv h p" "alive p" "pr_server p = Some s" "enabled (host_setup h) env ev s"
    and "handle_event (host_setup h) env ev s = Ok s'"
  shows "process_inv h (p\<lparr>pr_server := Some s'\<rparr>)"
proof -
  obtain s0 H where "host_start h = Ok s0" "reach (host_setup h) s0 H s"
    using assms(1,3) by (auto simp: process_inv_def)
  then have "reach (host_setup h) s0 (H \<union> accepted (host_setup h) env ev s) s'"
    using assms(4,5) by (intro reach.step)
  with assms(1-3) \<open>host_start h = Ok s0\<close> show ?thesis by (auto simp: process_inv_def alive_def)
qed

lemma process_inv_gc: "process_inv h (p\<lparr>pr_gc := b\<rparr>) = process_inv h p"
  by (simp add: process_inv_def)

lemma process_inv_main_step: "process_inv h p \<Longrightarrow> alive p \<Longrightarrow> process_inv h (main_step ok p)"
  by (cases "pr_pc p"; auto simp: process_inv_def alive_def main_step_def stop_engine_def OnShutdown_def GsOnShutdown_def)
    blast

lemma process_inv_step:
  assumes "process_inv h p" "alive p" "pr_server p = Some s" "possible h pe s p"
  shows "process_inv h (process_step h pe s p)"
proof (cases pe)
  case (PServer env ev)
  then show ?thesis
    using assms process_inv_server [OF assms(1-3), of env ev]
    by (cases "handle_event (host_setup h) env ev s") (auto simp: serve_def process_inv_def alive_def)
next
  case (PCollect env)
  then have "process_inv h (p\<lparr>pr_server := Some (s\<lparr>handoffs := gc_tick (now env) (handoffs s)\<rparr>)\<rparr>)"
    using assms by (intro process_inv_server [OF assms(1-3), of env EvSessionGC]) simp_all
  moreover have "collect (GcTick (now env)) s p
      = (p\<lparr>pr_server := Some (s\<lparr>handoffs := gc_tick (now env) (handoffs s)\<rparr>)\<rparr>)\<lparr>pr_gc := pr_gc p\<rparr>"
    using PCollect assms(4) by (simp add: collect_def)
  ultimately show ?thesis using PCollect by (simp only: process_step.simps process_inv_gc)
next
  case (PMain ok)
  then show ?thesis using process_inv_main_step [OF assms(1,2)] by simp
qed (use assms in \<open>auto simp: process_inv_def alive_def OnBoot_def GsOnBoot_def collect_def\<close>)

lemma lives_inv: "lives h p \<Longrightarrow> process_inv h p"
  by (induction rule: lives.induct) (auto intro: process_inv_init process_inv_step)

lemma alive_serves:
  assumes "lives h p" "alive p"
  obtains pool s where "main_pool (ho_driver h) (NewConfig (ho_getenv h)) = (Inr pool, [])"
    "pr_pool p = Some pool" "pr_closed p = []" "pr_server p = Some s"
proof (cases "pr_server p")
  case (Some s)
  then show thesis using lives_inv [OF assms(1)] assms(2) that by (auto simp: process_inv_def alive_def)
qed (use lives_inv [OF assms(1)] assms(2) in \<open>auto simp: process_inv_def alive_def\<close>)

section \<open>Every run of the server is a run of the process\<close>

text \<open>Both engines have booted, no signal has come.\<close>

definition in_service :: "'p Process \<Rightarrow> bool" where
  "in_service p \<longleftrightarrow> pr_pc p = MainServing \<and> pr_gc p \<and> engine_runs (pr_clients p) \<and> engine_runs (pr_servers p)"

lemma in_service_init:
  assumes "main_pool (ho_driver h) (NewConfig (ho_getenv h)) = (Inr pool, shut)" "host_start h = Ok s0"
  obtains p where "lives h p" "in_service p" "pr_server p = Some s0"
proof -
  let ?p = "main_init h"
  have pc: "pr_pc ?p = MainServing" "pr_server ?p = Some s0" "pr_gc ?p" "pr_clients ?p = new_engine" "pr_servers ?p = new_engine"
    using assms by (simp_all add: main_init_def)
  let ?q = "process_step h PBootClients s0 ?p" let ?r = "process_step h PBootServers s0 ?q"
  have q: "lives h ?q" using pc by (intro lives.step lives.init) (simp_all add: alive_def new_engine_def)
  have r: "lives h ?r" by (rule lives.step [OF q]) (simp_all add: pc alive_def new_engine_def OnBoot_def)
  show thesis
    by (rule that [OF r]) (simp_all add: pc in_service_def engine_runs_def OnBoot_def GsOnBoot_def new_engine_def)
qed

lemma in_service_event:
  assumes "lives h p" "in_service p" "pr_server p = Some s" "enabled (host_setup h) env ev s"
    and "handle_event (host_setup h) env ev s = Ok s'"
  obtains q where "lives h q" "in_service q" "pr_server q = Some s'"
proof (cases "ev = EvSessionGC")
  case True
  have q: "lives h (process_step h (PCollect env) s p)"
    using assms True by (intro lives.step) (simp_all add: alive_def in_service_def)
  then show thesis using assms(2,5) True by (intro that [OF q]) (auto simp: collect_def in_service_def)
next
  case False
  then have "called_for p ev" using assms(2) by (cases ev) (simp_all add: in_service_def)
  then have q: "lives h (process_step h (PServer env ev) s p)"
    using assms by (intro lives.step) (simp_all add: alive_def in_service_def)
  then show thesis using assms(2,5) by (intro that [OF q]) (auto simp: serve_def in_service_def)
qed

lemma reach_in_service:
  assumes "reach (host_setup h) s0 H s" "lives h p" "in_service p" "pr_server p = Some s0"
  shows "\<exists>q. lives h q \<and> in_service q \<and> pr_server q = Some s"
  using assms(1)
proof (induction rule: reach.induct)
  case start
  then show ?case using assms(2-) by blast
next
  case (step H s env ev s')
  then show ?case by (meson in_service_event)
qed

section \<open>Shutting down\<close>

lemma stop_engine_open: "\<not> le_stopCh l \<Longrightarrow> stop_engine OnShutdown ok l = Ok (if le_Engine l \<and> ok then l\<lparr>le_stopCh := True, le_stopped := True\<rparr> else l)"
  "\<not> le_stopCh l \<Longrightarrow> stop_engine GsOnShutdown ok l = Ok (if le_Engine l \<and> ok then l\<lparr>le_stopCh := True, le_stopped := True\<rparr> else l)"
  by (simp_all add: stop_engine_def OnShutdown_def GsOnShutdown_def)

text \<open>The four steps by which \<open>main\<close> gets from the signal to its end.\<close>

definition main_shutdown :: "bool \<Rightarrow> bool \<Rightarrow> 'p Process \<Rightarrow> 'p Process" where
  "main_shutdown ok1 ok2 p = main_step True (main_step ok2 (main_step ok1 (main_step True p)))"

lemma main_shutdown_serving:
  assumes "process_inv h p" "pr_pc p = MainServing" "pr_pool p = Some pool" "pr_closed p = []"
  shows "pr_pc (main_shutdown ok1 ok2 p) = MainDone" "pr_pool (main_shutdown ok1 ok2 p) = None"
    "pr_closed (main_shutdown ok1 ok2 p) = [pool]"
    "le_stopped (pr_clients (main_shutdown ok1 ok2 p)) \<longleftrightarrow> le_Engine (pr_clients p) \<and> ok1 \<or> le_stopped (pr_clients p)"
    "le_stopped (pr_servers (main_shutdown ok1 ok2 p)) \<longleftrightarrow> le_Engine (pr_servers p) \<and> ok2 \<or> le_stopped (pr_servers p)"
  using assms by (auto simp: main_shutdown_def main_step_def process_inv_def stop_engine_open)

lemma main_step_lives:
  assumes "lives h p" "alive p"
  shows "lives h (main_step ok p)"
proof -
  obtain s where "pr_server p = Some s" using assms by (rule alive_serves)
  from lives.step [OF assms this, of "PMain ok"] show ?thesis by simp
qed

lemma main_shutdown_lives:
  assumes "lives h p" "pr_pc p = MainServing"
  shows "lives h (main_shutdown ok1 ok2 p)"
proof -
  have inv: "process_inv h p" by (rule lives_inv [OF assms(1)])
  let ?a = "main_step True p" let ?b = "main_step ok1 ?a" let ?c = "main_step ok2 ?b"
  have pc: "pr_pc ?a = MainStopClients" "pr_pc ?b = MainStopServers" "pr_pc ?c = MainClosePool"
    using inv assms(2) by (auto simp: main_step_def process_inv_def stop_engine_open)
  have "lives h ?a" by (rule main_step_lives [OF assms(1)]) (simp add: alive_def assms(2))
  then have "lives h ?b" by (rule main_step_lives) (simp add: alive_def pc)
  then have "lives h ?c" by (rule main_step_lives) (simp add: alive_def pc)
  then have "lives h (main_step True ?c)" by (rule main_step_lives) (simp add: alive_def pc)
  then show ?thesis by (simp add: main_shutdown_def)
qed

section \<open>A host\<close>

text \<open>A host whose driver accepts everything, and one whose database does not answer; pools are numbers.\<close>

definition demo_host :: "nat Host" where
  "demo_host = \<lparr>ho_getenv = demo_getenv,
     ho_driver = \<lparr>drv_ParseConfig = \<lambda>_. None, drv_NewWithConfig = \<lambda>_. Inr 1, drv_Ping = \<lambda>_. None\<rparr>,
     ho_fault = False, ho_now = 0, ho_keys = \<lambda>_. Some small_key, ho_entropy = Some (replicate 320 3), ho_data = demo_db,
     ho_numCPU = 4, ho_lower = id, ho_uniLower = id\<rparr>"

definition silent_host :: "nat Host" where
  "silent_host = demo_host\<lparr>ho_driver :=
     \<lparr>drv_ParseConfig = \<lambda>_. None, drv_NewWithConfig = \<lambda>_. Inr 1, drv_Ping = \<lambda>_. Some (lit ''timeout'')\<rparr>\<rparr>"

lemma demo_pools:
  "main_pool (ho_driver demo_host) (NewConfig (ho_getenv demo_host)) = (Inr 1, [])"
  "main_pool (ho_driver silent_host) (NewConfig (ho_getenv silent_host))
     = (Inl (errors_Join (lit ''database ping failed'') (lit ''timeout'')), [1])"
  by (simp_all add: demo_host_def silent_host_def main_pool_def OpenPool_def Let_def)

lemma demo_host_start:
  obtains s0 where "host_start demo_host = Ok s0"
proof -
  obtain s0 key sk where "main_start demo_getenv False 0 (\<lambda>_. Some small_key) (Some (replicate 320 3)) demo_db = Ok s0"
    by (rule demo_started)
  then show thesis by (intro that [of s0]) (simp add: host_start_def demo_host_def)
qed

section \<open>Properties\<close>

text \<open>
  C13: the process started by \<open>main\<close> is the server of this development. When the pool opens and the
  server is set up, the states the server takes in the process, whatever boots, fails, is collected or
  shut down in whatever order, are exactly the reachable ones; so what is proved of all reachable
  states holds throughout the process. And whenever the process is alive its database pool is open.
\<close>

theorem process_is_the_server:
  assumes "main_pool (ho_driver h) (NewConfig (ho_getenv h)) = (Inr pool, shut)" "host_start h = Ok s0"
  shows "((\<exists>p. lives h p \<and> pr_server p = Some s) \<longleftrightarrow> (\<exists>H. reach (host_setup h) s0 H s))
    \<and> (\<forall>p. lives h p \<and> alive p \<longrightarrow> pr_pool p = Some pool \<and> pr_closed p = [] \<and> pr_server p \<noteq> None)"
proof (intro conjI iffI allI impI)
  assume "\<exists>p. lives h p \<and> pr_server p = Some s"
  then obtain p where "lives h p" "pr_server p = Some s" by blast
  with lives_inv [of h p] assms show "\<exists>H. reach (host_setup h) s0 H s" by (auto simp: process_inv_def)
next
  assume "\<exists>H. reach (host_setup h) s0 H s"
  then obtain H where r: "reach (host_setup h) s0 H s" by blast
  obtain p where "lives h p" "in_service p" "pr_server p = Some s0" by (rule in_service_init [OF assms])
  from reach_in_service [OF r this] show "\<exists>p. lives h p \<and> pr_server p = Some s" by blast
next
  fix p assume p: "lives h p \<and> alive p"
  then obtain pool' s where "main_pool (ho_driver h) (NewConfig (ho_getenv h)) = (Inr pool', [])"
    "pr_pool p = Some pool'" "pr_closed p = []" "pr_server p = Some s" by (auto elim: alive_serves)
  with assms(1) show "pr_pool p = Some pool" "pr_closed p = []" "pr_server p \<noteq> None" by simp_all
qed

theorem process_is_the_server_witness:
  "\<exists>s0. host_start demo_host = Ok s0 \<and> (\<exists>p. lives demo_host p \<and> pr_server p = Some s0)
     \<and> (\<forall>p. lives demo_host p \<and> alive p \<longrightarrow> pr_pool p = Some 1)"
proof -
  obtain s0 where s0: "host_start demo_host = Ok s0" by (rule demo_host_start)
  note p = process_is_the_server [OF demo_pools(1) s0]
  have "\<exists>H. reach (host_setup demo_host) s0 H s0" by (rule exI, rule reach.start)
  then have "\<exists>p. lives demo_host p \<and> pr_server p = Some s0" using p [of s0] by blast
  with s0 p show ?thesis by blast
qed

text \<open>
  C18: the shutdown is orderly. From a serving process, the signal and the three steps that follow end
  \<open>main\<close>; every engine that has booted and stops in time is stopped (its hook closes the channel once,
  so it does not panic), and the pool is closed. Whatever else happens in between, a process whose
  \<open>main\<close> has returned has closed its pool exactly once; one that died of a fatal error of an engine has
  not closed it.
\<close>

theorem shutdown_closes_the_pool:
  assumes "lives h p" "pr_server p \<noteq> None"
  shows "\<exists>pool. main_pool (ho_driver h) (NewConfig (ho_getenv h)) = (Inr pool, [])
    \<and> (pr_pc p = MainServing \<longrightarrow> (\<forall>ok1 ok2. lives h (main_shutdown ok1 ok2 p)
         \<and> pr_pc (main_shutdown ok1 ok2 p) = MainDone \<and> pr_closed (main_shutdown ok1 ok2 p) = [pool]
         \<and> (le_Engine (pr_clients p) \<and> ok1 \<longrightarrow> le_stopped (pr_clients (main_shutdown ok1 ok2 p)))
         \<and> (le_Engine (pr_servers p) \<and> ok2 \<longrightarrow> le_stopped (pr_servers (main_shutdown ok1 ok2 p)))))
    \<and> (pr_pc p = MainDone \<longrightarrow> pr_pool p = None \<and> pr_closed p = [pool])
    \<and> (pr_pc p = MainFatal \<longrightarrow> pr_pool p = Some pool \<and> pr_closed p = [])"
proof -
  have inv: "process_inv h p" by (rule lives_inv [OF assms(1)])
  with assms(2) obtain pool where pool: "main_pool (ho_driver h) (NewConfig (ho_getenv h)) = (Inr pool, [])"
    "if pr_pc p = MainDone then pr_pool p = None \<and> pr_closed p = [pool] else pr_pool p = Some pool \<and> pr_closed p = []"
    by (auto simp: process_inv_def)
  show ?thesis
  proof (intro exI [of _ pool] conjI impI allI)
    fix ok1 ok2
    assume s: "pr_pc p = MainServing"
    with pool(2) have o: "pr_pool p = Some pool" "pr_closed p = []" by simp_all
    show "lives h (main_shutdown ok1 ok2 p)" by (rule main_shutdown_lives [OF assms(1) s])
    show "pr_pc (main_shutdown ok1 ok2 p) = MainDone" "pr_closed (main_shutdown ok1 ok2 p) = [pool]"
      by (rule main_shutdown_serving [OF inv s o])+
    show "le_stopped (pr_clients (main_shutdown ok1 ok2 p))" if "le_Engine (pr_clients p) \<and> ok1"
      using that by (simp add: main_shutdown_serving(4) [OF inv s o])
    show "le_stopped (pr_servers (main_shutdown ok1 ok2 p))" if "le_Engine (pr_servers p) \<and> ok2"
      using that by (simp add: main_shutdown_serving(5) [OF inv s o])
  qed (use pool in simp_all)
qed

theorem shutdown_closes_the_pool_witness:
  "\<exists>p. lives demo_host p \<and> in_service p \<and> pr_pc (main_shutdown True True p) = MainDone
     \<and> pr_closed (main_shutdown True True p) = [1] \<and> le_stopped (pr_clients (main_shutdown True True p))"
proof -
  obtain s0 where "host_start demo_host = Ok s0" by (rule demo_host_start)
  then obtain p where p: "lives demo_host p" "in_service p" "pr_server p = Some s0"
    by (rule in_service_init [OF demo_pools(1)])
  then have "pr_server p \<noteq> None" by simp
  from shutdown_closes_the_pool [OF p(1) this] demo_pools(1) p show ?thesis
    by (auto simp: in_service_def engine_runs_def)
qed

text \<open>
  C19: without a database the process does not come up. When \<open>OpenPool\<close> fails, because the connection
  string is refused, the pool cannot be made or the database does not answer the ping, the process is
  over with a fatal error before a server exists and nothing happens to it any more; a pool that was
  made is closed.
\<close>

theorem no_database_no_server:
  assumes "main_pool (ho_driver h) (NewConfig (ho_getenv h)) = (Inl e, shut)" "lives h p"
  shows "p = main_init h \<and> pr_pc p = MainFatal \<and> pr_server p = None \<and> pr_pool p = None \<and> pr_closed p = shut
    \<and> (\<forall>cfg pool. drv_ParseConfig (ho_driver h) (pool_connStr cfg) = None \<and> drv_NewWithConfig (ho_driver h) cfg = Inr pool
        \<and> cfg = main_pool_config (NewConfig (ho_getenv h)) \<longrightarrow> shut = [pool])"
proof -
  have i: "main_init h = p" using assms(2)
  proof (induction rule: lives.induct)
    case (step p s pe)
    then have "pr_server (main_init h) = Some s" by simp
    with assms(1) show ?case by (simp add: main_init_def)
  qed simp
  with assms(1) show ?thesis
    by (auto simp: main_init_def main_pool_def Let_def main_pool_config_def dest: OpenPool_outcomes(2))
qed

theorem no_database_no_server_witness:
  "lives silent_host (main_init silent_host) \<and> pr_pc (main_init silent_host) = MainFatal
   \<and> pr_closed (main_init silent_host) = [1] \<and> pr_pool (main_init silent_host) = None"
  using no_database_no_server [OF demo_pools(2) lives.init] lives.init [of silent_host] by blast

end
