(* ===== verification/Peer_Address.thy ===== *)
theory Peer_Address
  imports Netip
begin

text \<open>
  \<open>getIP\<close> of \<open>internal/listener/client_listener.go\<close>: the text of a peer's address, from which \<open>OnOpen\<close>
  makes the address that the rate limiter and the ban list go by. \<open>net.IP\<close> is a byte slice of length
  4 or 16; an IPv4 address may come in either. A peer that is not a TCP peer gives its own text.
\<close>

datatype NetAddr = TCPAddr "byte list" | OtherAddr gostring

section \<open>The text of an address\<close>

definition To4 :: "byte list \<Rightarrow> byte list option" where
  "To4 ip =
     (if length ip = 4 then Some ip
      else if length ip = 16 \<and> take 12 ip = replicate 10 0 @ [0xFF, 0xFF] then Some (drop 12 ip)
      else None)"

definition digit :: "nat \<Rightarrow> byte" where
  "digit n = of_nat (if n < 10 then 48 + n else 87 + n)"

text \<open>Decimal digits of a byte, and hexadecimal digits of 16 bits, without leading zeros.\<close>

definition appendDecimal :: "nat \<Rightarrow> gostring" where
  "appendDecimal x =
     (if x \<ge> 100 then [digit (x div 100)] else []) @ (if x \<ge> 10 then [digit (x div 10 mod 10)] else [])
     @ [digit (x mod 10)]"

definition appendHex :: "nat \<Rightarrow> gostring" where
  "appendHex x =
     (if x \<ge> 0x1000 then [digit (x div 0x1000)] else []) @ (if x \<ge> 0x100 then [digit (x div 0x100 mod 16)] else [])
     @ (if x \<ge> 0x10 then [digit (x div 16 mod 16)] else []) @ [digit (x mod 16)]"

fun v4_string :: "byte list \<Rightarrow> gostring" where
  "v4_string [] = []"
| "v4_string [b] = appendDecimal (unat b)"
| "v4_string (b # bs) = appendDecimal (unat b) @ 46 # v4_string bs"

fun v6_words :: "byte list \<Rightarrow> nat list" where
  "v6_words (hi # lo # bs) = (256 * unat hi + unat lo) # v6_words bs"
| "v6_words _ = []"

text \<open>The longest run of at least two zero words, the first of several.\<close>

definition zero_run :: "nat list \<Rightarrow> nat \<times> nat" where
  "zero_run ws = fold (\<lambda>i (z1, z2). let l = length (takeWhile (\<lambda>w. w = 0) (drop i ws))
     in if l \<ge> 2 \<and> l > z2 - z1 then (i, i + l) else (z1, z2)) [0..<8] (255, 255)"

text \<open>The loop over the words from \<open>i\<close>; the first argument bounds its rounds, of which there are at most eight.\<close>

fun v6_from :: "nat \<Rightarrow> nat list \<Rightarrow> nat \<Rightarrow> gostring" where
  "v6_from 0 ws i = []"
| "v6_from (Suc n) ws i =
     (if i \<ge> 8 then []
      else if i = fst (zero_run ws) then
        lit ''::'' @ (let z = snd (zero_run ws) in if z \<ge> 8 then [] else appendHex (ws ! z) @ v6_from n ws (z + 1))
      else (if i > 0 then [58] else []) @ appendHex (ws ! i) @ v6_from n ws (i + 1))"

definition hexString :: "byte list \<Rightarrow> gostring" where
  "hexString bs = concat (map (\<lambda>b. [digit (unat b div 16), digit (unat b mod 16)]) bs)"

definition IP_String :: "byte list \<Rightarrow> gostring" where
  "IP_String ip =
     (if ip = [] then lit ''<nil>''
      else if length ip \<noteq> 4 \<and> length ip \<noteq> 16 then 63 # hexString ip
      else case To4 ip of
        Some p4 \<Rightarrow> v4_string p4
      | None \<Rightarrow> v6_from 8 (v6_words ip) 0)"

definition getIP :: "NetAddr \<Rightarrow> gostring" where
  "getIP a = (case a of TCPAddr ip \<Rightarrow> IP_String ip | OtherAddr s \<Rightarrow> s)"

lemma upt_8: "[0..<8] = [0, 1, 2, 3, 4, 5, 6, 7 :: nat]"
  by (simp add: upt_rec)

lemma zero_runs:
  "zero_run [0, 0, 0, 0, 0, 0, 0, 5] = (0, 7)" "zero_run [0x2001, 0x0db8, 0, 0, 0, 0, 0, 5] = (2, 7)"
  "zero_run [0x2001, 0, 0, 3, 0, 0, 0, 0x1f] = (4, 7)"
  by (simp_all add: zero_run_def upt_8)

text \<open>Three addresses as the library prints them.\<close>

lemma IPv6_texts:
  "IP_String ([0, 0, 0, 0, 0, 0, 0, 0, 0, 0, 0, 0, 0, 0, 0, 5]) = lit ''::5''"
  "IP_String [0x20, 0x01, 0x0d, 0xb8, 0, 0, 0, 0, 0, 0, 0, 0, 0, 0, 0, 5] = lit ''2001:db8::5''"
  "IP_String [0x20, 0x01, 0, 0, 0, 0, 0, 3, 0, 0, 0, 0, 0, 0, 0, 0x1f] = lit ''2001:0:0:3::1f''"
proof -
  have eight: "8 = Suc (Suc (Suc (Suc (Suc (Suc (Suc (Suc 0)))))))" by simp
  have rounds: "v6_from 8 ws i = v6_from (Suc (Suc (Suc (Suc (Suc (Suc (Suc (Suc 0)))))))) ws i" for ws i
    by (simp only: eight)
  have w: "v6_words ([0, 0, 0, 0, 0, 0, 0, 0, 0, 0, 0, 0, 0, 0, 0, 5]) = [0, 0, 0, 0, 0, 0, 0, 5]"
    "v6_words [0x20, 0x01, 0x0d, 0xb8, 0, 0, 0, 0, 0, 0, 0, 0, 0, 0, 0, 5] = [0x2001, 0x0db8, 0, 0, 0, 0, 0, 5]"
    "v6_words [0x20, 0x01, 0, 0, 0, 0, 0, 3, 0, 0, 0, 0, 0, 0, 0, 0x1f] = [0x2001, 0, 0, 3, 0, 0, 0, 0x1f]"
    by simp_all
  have v: "v6_from 8 [0, 0, 0, 0, 0, 0, 0, 5] 0 = lit ''::5''"
    "v6_from 8 [0x2001, 0x0db8, 0, 0, 0, 0, 0, 5] 0 = lit ''2001:db8::5''"
    "v6_from 8 [0x2001, 0, 0, 3, 0, 0, 0, 0x1f] 0 = lit ''2001:0:0:3::1f''"
    unfolding rounds by (simp_all add: zero_runs appendHex_def digit_def lit_def)
  show "IP_String ([0, 0, 0, 0, 0, 0, 0, 0, 0, 0, 0, 0, 0, 0, 0, 5]) = lit ''::5''"
    "IP_String [0x20, 0x01, 0x0d, 0xb8, 0, 0, 0, 0, 0, 0, 0, 0, 0, 0, 0, 5] = lit ''2001:db8::5''"
    "IP_String [0x20, 0x01, 0, 0, 0, 0, 0, 3, 0, 0, 0, 0, 0, 0, 0, 0x1f] = lit ''2001:0:0:3::1f''"
    by (simp_all add: IP_String_def To4_def w v del: v6_from.simps v6_words.simps)
qed

section \<open>An IPv4 address is read back\<close>

lemma unat_digit: "n < 10 \<Longrightarrow> unat (digit n) = 48 + n"
proof -
  assume "n < 10"
  moreover have "unat (word_of_nat (48 + n) :: byte) = (48 + n) mod 2 ^ 8" by (simp only: unat_of_nat) simp
  ultimately show ?thesis by (simp add: digit_def del: of_nat_add)
qed

lemma digit_not_dot: "n < 10 \<Longrightarrow> digit n \<noteq> 46 \<and> digit n \<noteq> 58 \<and> digit n \<noteq> 37"
  using unat_digit [of n] by auto

lemma parse_v4_digit:
  "n < 10 \<Longrightarrow> \<not> (digLen = 1 \<and> val = 0) \<Longrightarrow> val * 10 + n \<le> 255 \<Longrightarrow>
     parse_v4 val digLen fields (digit n # s) = parse_v4 (val * 10 + n) (digLen + 1) fields s"
  by (auto simp: unat_digit)

lemma parse_v4_appendDecimal:
  assumes "x < 256"
  shows "\<exists>l>0. \<forall>s. parse_v4 0 0 fields (appendDecimal x @ s) = parse_v4 x l fields s"
proof -
  have ten: "x div 100 = x div 10 div 10" by (simp add: div_mult2_eq [symmetric])
  have split: "x div 10 * 10 + x mod 10 = x" "x div 10 div 10 * 10 + x div 10 mod 10 = x div 10"
    by (rule div_mult_mod_eq)+
  consider "x < 10" | "10 \<le> x" "x < 100" | "100 \<le> x" by linarith
  then show ?thesis
  proof cases
    case 1
    then show ?thesis by (intro exI [of _ 1]) (simp_all add: appendDecimal_def parse_v4_digit del: parse_v4.simps)
  next
    case 2
    then have "x div 10 < 10" "\<not> x \<ge> 100" by simp_all
    with 2 split(1) assms show ?thesis
      by (intro exI [of _ "Suc (Suc 0)"]) (simp_all add: appendDecimal_def parse_v4_digit del: parse_v4.simps)
  next
    case 3
    then have "x \<ge> 10" "0 < x div 10 div 10" "x div 10 div 10 < 10" "x div 10 \<le> 25" using assms by simp_all
    note h = this
    have "parse_v4 0 0 fields (digit (x div 10 div 10) # t) = parse_v4 (x div 10 div 10) (Suc 0) fields t" for t
      using parse_v4_digit [of "x div 10 div 10" 0 0 fields t] h(3) by (simp del: parse_v4.simps)
    moreover have "parse_v4 (x div 10 div 10) (Suc 0) fields (digit (x div 10 mod 10) # t)
        = parse_v4 (x div 10) (Suc (Suc 0)) fields t" for t
      using parse_v4_digit [of "x div 10 mod 10" "Suc 0" "x div 10 div 10" fields t] h(2,4) split(2)
      by (simp del: parse_v4.simps)
    moreover have "parse_v4 (x div 10) (Suc (Suc 0)) fields (digit (x mod 10) # t)
        = parse_v4 x (Suc (Suc (Suc 0))) fields t" for t
      using parse_v4_digit [of "x mod 10" "Suc (Suc 0)" "x div 10" fields t] split(1) assms by (simp del: parse_v4.simps)
    ultimately have "parse_v4 0 0 fields (appendDecimal x @ s) = parse_v4 x (Suc (Suc (Suc 0))) fields s" for s
      by (simp add: appendDecimal_def 3 h(1) ten del: parse_v4.simps)
    then show ?thesis by blast
  qed
qed

lemma appendDecimal_no_dot: "x < 256 \<Longrightarrow> filter (\<lambda>c. c = 46 \<or> c = 58 \<or> c = 37) (appendDecimal x) = []"
  using digit_not_dot [of "x div 100"] digit_not_dot [of "x div 10 mod 10"] digit_not_dot [of "x mod 10"]
  by (auto simp: appendDecimal_def)

lemma appendDecimal_nonempty: "appendDecimal x \<noteq> []"
  by (simp add: appendDecimal_def)

text \<open>
  C37: the server sees a peer's IPv4 address as it is. Whether the address arrives in four bytes or
  mapped into sixteen, its text is the same and is parsed back to that address; so the rate limiter
  and the ban list keep different IPv4 peers apart and count one peer as one.
\<close>

theorem peer_address_read_back:
  "ParseAddr p6 (getIP (TCPAddr [a, b, c, d])) = Some (Addr4 a b c d)
   \<and> getIP (TCPAddr (replicate 10 0 @ [0xFF, 0xFF, a, b, c, d])) = getIP (TCPAddr [a, b, c, d])
   \<and> (getIP (TCPAddr [a, b, c, d]) = getIP (TCPAddr [a', b', c', d']) \<longleftrightarrow> (a, b, c, d) = (a', b', c', d'))"
proof -
  have read: "ParseAddr p6 (getIP (TCPAddr [a, b, c, d])) = Some (Addr4 a b c d)" for a b c d
  proof -
    have lt: "unat x < 256" for x :: byte using unsigned_less [of x] by simp
    have step: "parse_v4 0 0 fs (appendDecimal (unat x) @ 46 # s) = parse_v4 0 0 (fs @ [x]) s"
      if "s \<noteq> []" "length fs < 3" for fs s and x :: byte
    proof -
      obtain l where "l > 0" "\<forall>s. parse_v4 0 0 fs (appendDecimal (unat x) @ s) = parse_v4 (unat x) l fs s"
        using parse_v4_appendDecimal [OF lt [of x], of fs] by blast
      with that show ?thesis by simp
    qed
    have last: "parse_v4 0 0 fs (appendDecimal (unat x)) = Some (fs @ [x])" if "length fs = 3" for fs and x :: byte
    proof -
      obtain l where "l > 0" "\<forall>s. parse_v4 0 0 fs (appendDecimal (unat x) @ s) = parse_v4 (unat x) l fs s"
        using parse_v4_appendDecimal [OF lt [of x], of fs] by blast
      from this(2) [rule_format, of "[]"] that show ?thesis by simp
    qed
    have shown: "getIP (TCPAddr [a, b, c, d]) = appendDecimal (unat a) @ 46 # appendDecimal (unat b) @ 46
        # appendDecimal (unat c) @ 46 # appendDecimal (unat d)"
      by (simp add: getIP_def IP_String_def To4_def)
    have "filter (\<lambda>c. c = 46 \<or> c = 58 \<or> c = 37) (getIP (TCPAddr [a, b, c, d])) = [46, 46, 46]"
      by (simp add: shown appendDecimal_no_dot [OF lt])
    moreover have "parse_v4 0 0 [] (getIP (TCPAddr [a, b, c, d])) = Some [a, b, c, d]"
      by (simp add: shown step last appendDecimal_nonempty del: parse_v4.simps)
    ultimately show ?thesis by (simp add: ParseAddr_def del: parse_v4.simps)
  qed
  have same: "getIP (TCPAddr (replicate 10 0 @ [0xFF, 0xFF, a, b, c, d])) = getIP (TCPAddr [a, b, c, d])"
    by (simp add: getIP_def IP_String_def To4_def)
  have "(a, b, c, d) = (a', b', c', d')" if "getIP (TCPAddr [a, b, c, d]) = getIP (TCPAddr [a', b', c', d'])"
  proof -
    have "Some (Addr4 a b c d) = Some (Addr4 a' b' c' d')"
      using read [of a b c d] unfolding that read by (rule sym)
    then show ?thesis by simp
  qed
  with read same show ?thesis by blast
qed

end
