(* ===== verification/Spec2Isabelle.thy ===== *)
theory Spec2Isabelle
  imports Packet_Codec Crypt Session_Key Scrambled_Key Session_Store Session_Registry Rate_Limiter
    Ban_Manager Server_List Authenticator Config Main_Program Peer_Address
begin

text \<open>
  A model of the login server \<open>l2go-auth\<close> and the theorems that make it correct.

  \<^bold>\<open>The program.\<close> Game clients connect to the client listener, prove their GameGuard and their
  credentials, ask for the list of game servers and choose one. Game servers connect to a second
  listener, announce themselves, report status and players, and validate the tokens clients bring
  along. Behind both stand the services: session registry, server list, ban manager, rate limiter,
  authenticator with its database queries, and the store of handoff sessions. \<open>main\<close> opens the database
  pool, sets all of it up, runs the two engines and shuts them down on a signal.

  \<^bold>\<open>The components.\<close>
  \<open>L2_Prelude\<close>, \<open>Go_Strings\<close>, \<open>Netip\<close>, \<open>Peer_Address\<close>, \<open>Number_Facts\<close>: types, outcomes (value, error,
  panic), little-endian encoding, Go strings as UTF-8 bytes, addresses and their text (\<open>getIP\<close>), Fermat's
  theorem and the Chinese remainder.
  \<open>Packet_Reader\<close>, \<open>Packet_Writer\<close>, \<open>Packet_Codec\<close> (\<open>pkg/network\<close>): a cursor over bytes, a buffer with
  visible and spare bytes, and the locale \<open>codec\<close> between them, interpreted for every type.
  \<open>Blowfish_Tables\<close>, \<open>Blowfish\<close>, \<open>Session_Key\<close>, \<open>Scrambled_Key\<close> (\<open>pkg/crypto\<close>) and \<open>Crypt\<close> (\<open>internal/crypto\<close>).
  \<open>Sharding\<close>: the locales \<open>map_store\<close> and \<open>sharding\<close>, interpreted as \<open>handoff\<close> in \<open>Session_Store\<close>
  (\<open>internal/session\<close>), \<open>reg\<close> in \<open>Session_Registry\<close> and \<open>limiter\<close> in \<open>Rate_Limiter\<close> (\<open>internal/middleware\<close>).
  \<open>Database\<close> (\<open>internal/db\<close>) with the locale \<open>account_queries\<close>; \<open>Ban_Manager\<close>, \<open>Server_List\<close>,
  \<open>Authenticator\<close>, \<open>Kicker\<close> (\<open>internal/service\<close>).
  \<open>Server_State\<close> (\<open>internal/client\<close>): connections and the record \<open>LoginServer\<close> of everything shared.
  \<open>Client_Handlers\<close>, \<open>Gs_Handlers\<close> (\<open>internal/packet\<close>), \<open>Client_Listener\<close>, \<open>Gs_Listener\<close>
  (\<open>internal/listener\<close>), \<open>Config\<close> (\<open>config\<close>, \<open>pkg/database\<close>).

  \<^bold>\<open>The whole.\<close> \<open>Login_Server\<close> puts the components together: the events (a connection is opened, sends
  data, is closed; a tick; a login goroutine takes a step; a queued database write is executed; a
  clean-up), \<open>boot\<close> and \<open>main_start\<close>, and \<open>reach\<close>, the states that events lead to, with the history of
  successful authentications. \<open>Main_Program\<close> (\<open>cmd/main.go\<close>, \<open>pkg/logger\<close>) is the process around it: opening
  the pool, booting engines, the collector, the fatal exit, the signal and the shutdown. Its theorem
  \<open>process_is_the_server\<close> says that the server inside the process takes exactly the states of \<open>reach\<close>.

  \<^bold>\<open>What is proved of the whole.\<close>
  \<open>Server_Invariant\<close>: the invariant of reachable states, kept by every handler (\<open>keeps\<close>, with the rules of
  \<open>post\<close>). \<open>Server_Safety\<close>: nobody is logged in, and no handoff exists, without an authentication.
  \<open>Client_Flow\<close>, \<open>Client_Session\<close>, \<open>Server_List_Packet\<close>, \<open>Play_Session\<close>, \<open>Gs_Flow\<close>, \<open>Gs_Session\<close>: what each packet
  does byte by byte, up to whole sessions of clients and game servers (\<open>login_served\<close>, \<open>play_served\<close>,
  \<open>announced_server_listed\<close>, \<open>validation_answered\<close>).
  \<open>Handler_Relation\<close>: a locale for relations that every handler respects; its interpretations (identity
  of connections, settings, what may be queued) give the frame theorems of \<open>Server_Frames\<close> and the bounds
  of \<open>Server_Bounds\<close>. \<open>Login_Outcomes\<close>, \<open>Panic_Freedom\<close>: every login ends, and only short frames panic.
  \<open>Login_Races\<close>: takeovers, failures, and what a disconnect or a tick at the wrong moment leaves behind.
  \<open>Traffic\<close>: how data splits into frames.

  \<^bold>\<open>Correspondence.\<close> A method that locks is one definition per critical section, with the clock
  reading as an argument; goroutines interleave as sequences of these operations. A login goroutine
  is an entry of \<open>pendingLogins\<close> that advances phase by phase. An event of the network engine is a
  function of the environment \<open>Env\<close> (clock, random numbers, pooled buffer, failures of the network and
  the database, iteration order of Go maps) and the state. A panic is an outcome, and ends the process.

  \<^bold>\<open>Parameters.\<close> bcrypt, the SQL server's \<open>lower\<close>, IPv6 parsing, Unicode tables, random sources,
  \<open>rsa.GenerateKey\<close>, the database driver and the network are parameters; \<open>rsa_key_ok\<close> states what a
  generated key satisfies. That a stopped engine calls its hook once and then calls no more is what
  \<open>stop_engine\<close> assumes of the network library.

  \<^bold>\<open>Bounds and fuel.\<close> Loops recurse on the data or on a measure (the framing loops on the bytes left,
  at least two per frame). \<open>processLogin\<close> runs six phases, which is the longest path through a login
  (\<open>logins_always_end\<close>). \<open>v6_from\<close> counts the eight words of an address.

  \<^bold>\<open>Not modelled.\<close> Log messages, histograms, the metrics endpoint, the socket options of the engines,
  the memory pools that recycle readers and scratch numbers, and the generated database handle: they
  have no effect on the behaviour described here, or are calls into libraries. Memory races between
  unsynchronised goroutines (a client's cipher state used by the event loop and a login goroutine at
  once) are seen only as interleavings of whole steps.
\<close>

end
